(* ===== verification/Prelude.thy ===== *)
theory Prelude
  imports Main "HOL-Library.Word"
begin

text \<open>
  Shared vocabulary of the development: the machine integers of the source, byte vectors,
  results and panics, strings, slices of vectors and the big-endian length prefix.
  Every component theory imports this one. Facts that most component proofs need are put in
  the simpset; the definitions that model plain Rust library calls are collected in
  \<open>rust_defs\<close>, the rules of the \<open>?\<close> operator in \<open>result_simps\<close>.

  Conventions: \<open>u8\<close>, \<open>u32\<close>, \<open>u64\<close> are words and wrap around (the release profile of the
  program); a \<open>usize\<close> that is the length of a vector or an index into one is a \<open>nat\<close>
  (a vector never has more than \<open>isize::MAX\<close> elements, so these sums do not wrap).
\<close>

named_theorems rust_defs
named_theorems result_simps

type_synonym u8 = "8 word"
type_synonym u32 = "32 word"
type_synonym u64 = "64 word"
type_synonym bytes = "u8 list"

section \<open>Results, errors and panics\<close>

text \<open>
  \<open>anyhow\<close> errors are their message; an error of a library that the code passes on with
  \<open>?\<close> keeps the text the library gives it. A panic unwinds past every \<open>?\<close> and every
  \<open>match\<close> on a result, so it is a constructor of its own.
\<close>

datatype error = Anyhow string | External string | Panicked string

type_synonym 'a result = "error + 'a"

text \<open>The \<open>?\<close> operator.\<close>

definition try_bind :: "'a result \<Rightarrow> ('a \<Rightarrow> 'b result) \<Rightarrow> 'b result" where
  "try_bind m f = (case m of Inl e \<Rightarrow> Inl e | Inr x \<Rightarrow> f x)"

text \<open>\<open>.context(msg)?\<close> on an optional value.\<close>

definition ok_or :: "string \<Rightarrow> 'a option \<Rightarrow> 'a result" where
  "ok_or msg m = (case m of None \<Rightarrow> Inl (Anyhow msg) | Some x \<Rightarrow> Inr x)"

definition is_ok :: "'a result \<Rightarrow> bool" where
  "is_ok r = (case r of Inl _ \<Rightarrow> False | Inr _ \<Rightarrow> True)"

lemma try_bind_simps [simp, result_simps]:
  "try_bind (Inl e) f = Inl e" "try_bind (Inr x) f = f x"
  by (simp_all add: try_bind_def)

lemma ok_or_simps [simp, result_simps]:
  "ok_or msg None = Inl (Anyhow msg)" "ok_or msg (Some x) = Inr x"
  by (simp_all add: ok_or_def)

lemma is_ok_simps [simp, result_simps]:
  "\<not> is_ok (Inl e)" "is_ok (Inr x)"
  by (simp_all add: is_ok_def)

lemma try_bind_Inr_iff [result_simps]:
  "try_bind m f = Inr y \<longleftrightarrow> (\<exists>x. m = Inr x \<and> f x = Inr y)"
  by (cases m) auto

lemma try_bind_assoc:
  "try_bind (try_bind m f) g = try_bind m (\<lambda>x. try_bind (f x) g)"
  by (cases m) simp_all

text \<open>
  A stateful operation returns the state it leaves behind also when it fails. \<open>and_then\<close> is \<open>?\<close>
  followed by the rest of the operation.
\<close>

definition and_then ::
  "'s \<times> 'a result \<Rightarrow> ('s \<Rightarrow> 'a \<Rightarrow> 's \<times> 'b result) \<Rightarrow> 's \<times> 'b result" where
  "and_then sr f = (case sr of (s, Inl e) \<Rightarrow> (s, Inl e) | (s, Inr x) \<Rightarrow> f s x)"

lemma and_then_simps [simp, result_simps]:
  "and_then (s, Inl e) f = (s, Inl e)" "and_then (s, Inr x) f = f s x"
  by (simp_all add: and_then_def)

lemma and_then_split:
  "P (and_then sr f) \<longleftrightarrow>
    (\<forall>s e. sr = (s, Inl e) \<longrightarrow> P (s, Inl e)) \<and> (\<forall>s x. sr = (s, Inr x) \<longrightarrow> P (f s x))"
  by (auto simp: and_then_def split: prod.splits sum.splits)

lemma and_then_ok_iff [result_simps]:
  "and_then sr f = (s', Inr y) \<longleftrightarrow> (\<exists>s x. sr = (s, Inr x) \<and> f s x = (s', Inr y))"
  by (auto simp: and_then_def split: prod.splits sum.splits)

text \<open>A loop whose body may panic or return an error.\<close>

fun fold_result :: "('a \<Rightarrow> 's \<Rightarrow> 's result) \<Rightarrow> 'a list \<Rightarrow> 's \<Rightarrow> 's result" where
  "fold_result f [] s = Inr s"
| "fold_result f (x # xs) s = try_bind (f x s) (fold_result f xs)"

lemma fold_result_append:
  "fold_result f (xs @ ys) s = try_bind (fold_result f xs s) (fold_result f ys)"
proof (induction xs arbitrary: s)
  case (Cons x xs)
  then show ?case by (cases "f x s") simp_all
qed simp

lemma fold_result_pure:
  "(\<And>x s. x \<in> set xs \<Longrightarrow> f x s = Inr (g x s)) \<Longrightarrow> fold_result f xs s = Inr (fold g xs s)"
  by (induction xs arbitrary: s) simp_all

section \<open>Strings\<close>

text \<open>
  A Rust \<open>String\<close> is a list of Unicode scalar values; the \<open>char\<close>s of the model are the
  values below 256. \<open>as_bytes\<close> is their UTF-8 encoding: one byte below 128, two above.
\<close>

definition char_bytes :: "char \<Rightarrow> bytes" where
  "char_bytes c =
     (let n = of_char c :: nat
      in if n < 128 then [word_of_nat n]
         else [word_of_nat (192 + n div 64), word_of_nat (128 + n mod 64)])"

definition as_bytes :: "string \<Rightarrow> bytes" where
  "as_bytes s = concat (map char_bytes s)"

text \<open>\<open>String::len\<close> counts bytes.\<close>

definition str_len :: "string \<Rightarrow> nat" where
  "str_len s = length (as_bytes s)"

definition is_ascii_digit :: "char \<Rightarrow> bool" where
  "is_ascii_digit c \<longleftrightarrow> (48 :: nat) \<le> of_char c \<and> of_char c \<le> (57 :: nat)"

lemma as_bytes_simps [simp]:
  "as_bytes [] = []" "as_bytes (c # s) = char_bytes c @ as_bytes s"
  by (simp_all add: as_bytes_def)

lemma as_bytes_append: "as_bytes (s @ t) = as_bytes s @ as_bytes t"
  by (simp add: as_bytes_def)

lemma str_len_ascii:
  "(\<And>c. c \<in> set s \<Longrightarrow> of_char c < (128 :: nat)) \<Longrightarrow> str_len s = length s"
  by (induction s) (auto simp: str_len_def char_bytes_def Let_def)

lemma str_len_digits:
  "(\<And>c. c \<in> set s \<Longrightarrow> is_ascii_digit c) \<Longrightarrow> str_len s = length s"
  by (rule str_len_ascii) (fastforce simp: is_ascii_digit_def)

section \<open>Slices of vectors\<close>

text \<open>\<open>&xs[i..j]\<close> for \<open>i \<le> j \<le> len\<close>.\<close>

definition subvec :: "nat \<Rightarrow> nat \<Rightarrow> 'a list \<Rightarrow> 'a list" where
  "subvec i j xs = take (j - i) (drop i xs)"

text \<open>\<open>dst[off..off + src.len()].copy_from_slice(src)\<close> for a range inside \<open>dst\<close>.\<close>

definition blit :: "nat \<Rightarrow> 'a list \<Rightarrow> 'a list \<Rightarrow> 'a list" where
  "blit off src dst = take off dst @ src @ drop (off + length src) dst"

text \<open>\<open>xs[i]\<close> and \<open>xs[i] = v\<close>, which panic out of range.\<close>

definition index_vec :: "'a list \<Rightarrow> nat \<Rightarrow> 'a result" where
  "index_vec xs i = (if i < length xs then Inr (xs ! i) else Inl (Panicked ''index out of bounds''))"

definition set_vec :: "'a list \<Rightarrow> nat \<Rightarrow> 'a \<Rightarrow> 'a list result" where
  "set_vec xs i v =
     (if i < length xs then Inr (xs[i := v]) else Inl (Panicked ''index out of bounds''))"

text \<open>\<open>&xs[i..j]\<close> with its panics.\<close>

definition slice_vec :: "'a list \<Rightarrow> nat \<Rightarrow> nat \<Rightarrow> 'a list result" where
  "slice_vec xs i j =
     (if i \<le> j \<and> j \<le> length xs then Inr (subvec i j xs)
      else Inl (Panicked ''range end index out of range for slice''))"

lemma vec_ok [simp]:
  "i < length xs \<Longrightarrow> index_vec xs i = Inr (xs ! i)"
  "i < length xs \<Longrightarrow> set_vec xs i v = Inr (xs[i := v])"
  "i \<le> j \<Longrightarrow> j \<le> length xs \<Longrightarrow> slice_vec xs i j = Inr (subvec i j xs)"
  by (simp_all add: index_vec_def set_vec_def slice_vec_def)

lemma length_subvec [simp]: "j \<le> length xs \<Longrightarrow> length (subvec i j xs) = j - i"
  by (simp add: subvec_def)

lemma nth_subvec [simp]: "j \<le> length xs \<Longrightarrow> k < j - i \<Longrightarrow> subvec i j xs ! k = xs ! (i + k)"
  by (simp add: subvec_def)

lemma length_blit [simp]:
  "off + length src \<le> length dst \<Longrightarrow> length (blit off src dst) = length dst"
  by (simp add: blit_def)

lemma nth_blit:
  assumes "off + length src \<le> length dst" "k < length dst"
  shows "blit off src dst ! k =
    (if off \<le> k \<and> k < off + length src then src ! (k - off) else dst ! k)"
  using assms by (auto simp: blit_def nth_append min_def)

lemma subvec_eq_iff:
  assumes "j \<le> length xs" "j \<le> length ys"
  shows "subvec i j xs = subvec i j ys \<longleftrightarrow> (\<forall>k. i \<le> k \<and> k < j \<longrightarrow> xs ! k = ys ! k)"
proof
  assume eq: "subvec i j xs = subvec i j ys"
  show "\<forall>k. i \<le> k \<and> k < j \<longrightarrow> xs ! k = ys ! k"
  proof (intro allI impI)
    fix k assume k: "i \<le> k \<and> k < j"
    then have "subvec i j xs ! (k - i) = subvec i j ys ! (k - i)" using eq by simp
    moreover have "k - i < j - i" using k by linarith
    ultimately show "xs ! k = ys ! k" using assms k by simp
  qed
next
  assume "\<forall>k. i \<le> k \<and> k < j \<longrightarrow> xs ! k = ys ! k"
  then show "subvec i j xs = subvec i j ys"
    using assms by (intro nth_equalityI) auto
qed

lemma length_concat_equal:
  "(\<And>x. x \<in> set xs \<Longrightarrow> length (f x) = n) \<Longrightarrow> length (concat (map f xs)) = length xs * n"
  by (induction xs) simp_all

lemma subvec_concat_equal:
  assumes "\<And>x. x \<in> set xs \<Longrightarrow> length (f x) = n" "i < length xs"
  shows "subvec (i * n) (i * n + n) (concat (map f xs)) = f (xs ! i)"
  using assms
proof (induction xs arbitrary: i)
  case (Cons a xs)
  show ?case
  proof (cases i)
    case 0
    then show ?thesis using Cons.prems(1) [of a] by (simp add: subvec_def)
  next
    case (Suc j)
    then show ?thesis using Cons.prems Cons.IH [of j]
      by (simp add: subvec_def Cons.prems(1) [of a] algebra_simps)
  qed
qed simp

text \<open>\<open>xs.chunks_exact(n)\<close>: the full chunks, the shorter rest left out.\<close>

function chunks_exact :: "nat \<Rightarrow> 'a list \<Rightarrow> 'a list list" where
  "chunks_exact n xs =
     (if n = 0 \<or> length xs < n then [] else take n xs # chunks_exact n (drop n xs))"
  by pat_completeness auto
termination
  by (relation "measure (\<lambda>(n, xs). length xs)") auto

declare chunks_exact.simps [simp del]

lemma chunks_exact_short: "length xs < n \<Longrightarrow> chunks_exact n xs = []"
  by (subst chunks_exact.simps) simp

lemma chunks_exact_append:
  "0 < n \<Longrightarrow> length xs = n \<Longrightarrow> chunks_exact n (xs @ ys) = xs # chunks_exact n ys"
  by (subst chunks_exact.simps) simp

lemma length_chunks_exact: "0 < n \<Longrightarrow> length (chunks_exact n xs) = length xs div n"
proof (induction n xs rule: chunks_exact.induct)
  case (1 n xs)
  then show ?case
    by (subst chunks_exact.simps) (auto simp: le_div_geq [symmetric] not_less)
qed

lemma nth_chunks_exact:
  "k < length xs div n \<Longrightarrow> chunks_exact n xs ! k = take n (drop (k * n) xs)"
proof (induction n xs arbitrary: k rule: chunks_exact.induct)
  case (1 n xs)
  have "length xs div n \<noteq> 0" using "1.prems" by simp
  then have n: "n \<noteq> 0" "n \<le> length xs" by (simp_all add: div_eq_0_iff)
  then have div: "length xs div n = Suc (length (drop n xs) div n)" by (simp add: le_div_geq)
  show ?case
  proof (cases k)
    case 0
    then show ?thesis using n by (subst chunks_exact.simps) simp
  next
    case (Suc j)
    then have "chunks_exact n (drop n xs) ! j = take n (drop (j * n) (drop n xs))"
      using "1.IH" [of j] "1.prems" n div by simp
    then show ?thesis using n Suc by (subst chunks_exact.simps) (simp add: add.commute)
  qed
qed

section \<open>Sliding windows\<close>

text \<open>The last \<open>n\<close> elements of a list.\<close>

definition lastn :: "nat \<Rightarrow> 'a list \<Rightarrow> 'a list" where
  "lastn n xs = drop (length xs - n) xs"

lemma length_lastn [simp]: "length (lastn n xs) = min n (length xs)"
  by (simp add: lastn_def)

lemma lastn_Nil [simp]: "lastn n [] = []"
  by (simp add: lastn_def)

lemma lastn_lastn_snoc: "lastn n (lastn n xs @ [x]) = lastn n (xs @ [x])"
  by (cases "length xs \<le> n") (auto simp: lastn_def Suc_diff_le)

lemma lastn_push:
  assumes "length xs \<le> n"
  shows "lastn n (xs @ [x]) = (if length xs = n then tl (xs @ [x]) else xs @ [x])"
  using assms by (cases xs) (auto simp: lastn_def drop_Suc)

text \<open>
  The contract of a bounded buffer that forgets its oldest element: pushing keeps the last
  \<open>cap\<close> of what was pushed. The bandwidth monitor keeps a deque, the moving averages of the
  metrics a ring buffer; both are instances.
\<close>

locale sliding_window =
  fixes push :: "'a \<Rightarrow> 's \<Rightarrow> 's"
    and contents :: "'s \<Rightarrow> 'a list"
    and invar :: "'s \<Rightarrow> bool"
    and cap :: nat
  assumes contents_push: "invar s \<Longrightarrow> contents (push x s) = lastn cap (contents s @ [x])"
    and invar_push: "invar s \<Longrightarrow> invar (push x s)"
begin

lemma invar_fold: "invar s \<Longrightarrow> invar (fold push xs s)"
  by (induction xs arbitrary: s) (auto intro: invar_push)

lemma contents_fold:
  assumes "invar s" "contents s = lastn cap h"
  shows "contents (fold push xs s) = lastn cap (h @ xs)"
  using assms
proof (induction xs arbitrary: s h)
  case Nil
  then show ?case by simp
next
  case (Cons x xs)
  have "contents (push x s) = lastn cap (h @ [x])"
    using Cons.prems by (simp add: contents_push lastn_lastn_snoc)
  then have "contents (fold push xs (push x s)) = lastn cap ((h @ [x]) @ xs)"
    using Cons.prems by (intro Cons.IH) (auto intro: invar_push)
  then show ?case by simp
qed

lemma length_contents_fold:
  assumes "invar s" "contents s = []"
  shows "length (contents (fold push xs s)) = min cap (length xs)"
  using contents_fold [of s "[]" xs] assms by simp

end

section \<open>The big-endian length prefix\<close>

text \<open>\<open>u32::to_be_bytes\<close> and \<open>u32::from_be_bytes\<close>.\<close>

definition to_be_bytes :: "u32 \<Rightarrow> bytes" where
  "to_be_bytes w =
     [word_of_nat (unat w div 2 ^ 24), word_of_nat (unat w div 2 ^ 16),
      word_of_nat (unat w div 2 ^ 8), word_of_nat (unat w)]"

fun from_be_bytes :: "bytes \<Rightarrow> u32" where
  "from_be_bytes [a, b, c, d] =
     word_of_nat (unat a * 2 ^ 24 + unat b * 2 ^ 16 + unat c * 2 ^ 8 + unat d)"
| "from_be_bytes _ = 0"

lemma length_to_be_bytes [simp]: "length (to_be_bytes w) = 4"
  by (simp add: to_be_bytes_def)

lemma be_digits:
  fixes n :: nat
  assumes "n < 2 ^ 32"
  shows "n div 2 ^ 24 mod 256 * 2 ^ 24 + n div 2 ^ 16 mod 256 * 2 ^ 16
    + n div 2 ^ 8 mod 256 * 2 ^ 8 + n mod 256 = n"
proof -
  define a b c where "a = n div 256" and "b = a div 256" and "c = b div 256"
  have "n = a * 256 + n mod 256" "a = b * 256 + a mod 256" "b = c * 256 + b mod 256"
    unfolding a_def b_def c_def by simp_all
  moreover have "n div 2 ^ 8 = a" "n div 2 ^ 16 = b" "n div 2 ^ 24 = c"
    by (simp_all add: a_def b_def c_def div_mult2_eq [symmetric])
  moreover have "c mod 256 = c"
    using assms by (simp add: a_def b_def c_def div_mult2_eq [symmetric])
  ultimately show ?thesis by simp
qed

lemma unat_word8_of_nat: "unat (word_of_nat n :: u8) = n mod 256"
  by (simp add: unat_of_nat take_bit_eq_mod)

lemma from_to_be_bytes [simp]: "from_be_bytes (to_be_bytes w) = w"
proof -
  have "unat w < 2 ^ 32" using unsigned_less [of w] by simp
  then show ?thesis
    by (simp only: to_be_bytes_def from_be_bytes.simps unat_word8_of_nat be_digits) simp
qed

lemma to_from_be_bytes:
  assumes "length bs = 4"
  shows "to_be_bytes (from_be_bytes bs) = bs"
proof -
  obtain a b c d where bs: "bs = [a, b, c, d]"
    using assms by (auto simp: length_Suc_conv numeral_eq_Suc)
  have byte: "unat x < 256" for x :: u8 using unsigned_less [of x] by simp
  let ?n = "unat a * 2 ^ 24 + unat b * 2 ^ 16 + unat c * 2 ^ 8 + unat d"
  have "?n < 2 ^ 32" using byte [of a] byte [of b] byte [of c] byte [of d] by simp
  then have n: "unat (word_of_nat ?n :: u32) = ?n" by (subst unat_of_nat) (simp add: take_bit_eq_mod)
  have "?n div 2 ^ 24 = unat a" "?n div 2 ^ 16 = unat a * 256 + unat b"
    "?n div 2 ^ 8 = unat a * 65536 + unat b * 256 + unat c"
    using byte [of b] byte [of c] byte [of d] by simp_all
  moreover have z: "(256 :: u8) = 0" "(65536 :: u8) = 0" "(16777216 :: u8) = 0" by simp_all
  ultimately show ?thesis unfolding bs from_be_bytes.simps to_be_bytes_def n by (simp add: z)
qed

section \<open>Words without wrap-around\<close>

text \<open>The values of \<open>0..n\<close> for a \<open>u32\<close> bound.\<close>

definition u32_range :: "u32 \<Rightarrow> u32 list" where
  "u32_range n = map word_of_nat [0..<unat n]"

lemma unat_add_small:
  "unat (a :: 'a::len word) + unat b < 2 ^ LENGTH('a) \<Longrightarrow> unat (a + b) = unat a + unat b"
  by (simp add: unat_word_ariths)

lemma unat_mult_small:
  "unat (a :: 'a::len word) * unat b < 2 ^ LENGTH('a) \<Longrightarrow> unat (a * b) = unat a * unat b"
  by (simp add: unat_word_ariths)

lemma unat_diff_small:
  "unat (b :: 'a::len word) \<le> unat a \<Longrightarrow> unat (a - b) = unat a - unat b"
  by (simp add: unat_sub word_le_nat_alt)

lemma unat_of_nat_small [simp]:
  "n < 2 ^ LENGTH('a) \<Longrightarrow> unat (word_of_nat n :: 'a::len word) = n"
  by (simp add: unat_of_nat take_bit_nat_eq_self)

lemma unat_ucast_u64 [simp]: "unat (ucast (w :: u32) :: u64) = unat w"
proof -
  have "unat w < 2 ^ 64" using unsigned_less [of w, where ?'a = nat] by simp
  then show ?thesis by (simp add: unsigned_ucast_eq take_bit_nat_eq_self)
qed

end
