(* ===== verification/Ieee.thy ===== *)
theory Ieee
  imports Prelude "HOL-Library.Log_Nat"
begin

text \<open>
  The floating-point arithmetic of the source (\<open>f32\<close> and \<open>f64\<close>), bit-exact: a finite value
  is the rational number it denotes and every operation is the exact rational operation
  followed by rounding to nearest, ties to even, in the format of the type, with gradual
  underflow, overflow to infinity and the usual rules for infinities and NaN.
  The two zeros are one value: the source never divides by a zero that carries a minus sign.

  The lemmas give what the components need of rounding: it is monotone, it keeps the sign,
  and it is the identity on the values of the format, in particular on the integers that fit
  its precision.
\<close>

named_theorems fp_defs

section \<open>Rounding to the nearest integer, ties to even\<close>

definition rne :: "rat \<Rightarrow> int" where
  "rne x =
     (let f = \<lfloor>x\<rfloor>; d = x - of_int f
      in if d < 1 / 2 then f
         else if 1 / 2 < d then f + 1
         else if even f then f else f + 1)"

lemma rne_of_int [simp]: "rne (of_int n) = n"
  by (simp add: rne_def)

lemma rne_floor_cases: "rne x = \<lfloor>x\<rfloor> \<or> rne x = \<lfloor>x\<rfloor> + 1"
  by (simp add: rne_def Let_def)

lemma rne_mono:
  assumes "x \<le> y"
  shows "rne x \<le> rne y"
proof (cases "\<lfloor>x\<rfloor> = \<lfloor>y\<rfloor>")
  case True
  then show ?thesis using assms by (simp add: rne_def Let_def)
next
  case False
  then have "\<lfloor>x\<rfloor> + 1 \<le> \<lfloor>y\<rfloor>" using floor_mono [OF assms] by linarith
  then show ?thesis using rne_floor_cases [of x] rne_floor_cases [of y] by linarith
qed

lemma rne_le_of_int: "x \<le> of_int n \<Longrightarrow> rne x \<le> n"
  using rne_mono [of x "of_int n"] by simp

lemma rne_ge_of_int: "of_int n \<le> x \<Longrightarrow> n \<le> rne x"
  using rne_mono [of "of_int n" x] by simp

section \<open>Binary exponents\<close>

text \<open>\<open>ilog2 x\<close> is the exponent \<open>e\<close> of a positive \<open>x\<close> with \<open>2\<^sup>e \<le> x < 2\<^sup>e\<^sup>+\<^sup>1\<close>.\<close>

definition pow2 :: "int \<Rightarrow> rat" where
  "pow2 e = (if 0 \<le> e then 2 ^ nat e else 1 / 2 ^ nat (- e))"

definition ilog2 :: "rat \<Rightarrow> int" where
  "ilog2 x =
     (let (p, q) = quotient_of x; e = bitlen p - bitlen q
      in if pow2 e \<le> x then e else e - 1)"

lemma pow2_powi: "pow2 e = 2 powi e"
  by (simp add: pow2_def power_int_def power_inverse field_simps)

lemma pow2_pos [simp]: "0 < pow2 e"
  by (simp add: pow2_def)

lemma pow2_nonneg [simp]: "0 \<le> pow2 e" and pow2_abs [simp]: "\<bar>pow2 e\<bar> = pow2 e"
  by (simp_all add: less_imp_le)

lemma pow2_neq_0 [simp]: "pow2 e \<noteq> 0"
  using pow2_pos [of e] by linarith

lemma pow2_add: "pow2 (a + b) = pow2 a * pow2 b"
  by (simp add: pow2_powi power_int_add)

lemma pow2_diff: "pow2 (a - b) = pow2 a / pow2 b"
  by (simp add: pow2_powi power_int_diff)

lemma pow2_mono: "a \<le> b \<Longrightarrow> pow2 a \<le> pow2 b"
  by (simp add: pow2_powi power_int_increasing)

lemma pow2_nonneg_int: "0 \<le> e \<Longrightarrow> pow2 e = of_int (2 ^ nat e)"
  by (simp add: pow2_def)

lemma pow2_less_iff [simp]: "pow2 a < pow2 b \<longleftrightarrow> a < b"
proof
  assume "pow2 a < pow2 b"
  then show "a < b" using pow2_mono [of b a] by (metis not_le)
next
  assume "a < b"
  then have "pow2 b = pow2 a * pow2 (b - a)" by (simp flip: pow2_add)
  moreover have "2 \<le> pow2 (b - a)" using pow2_mono [of 1 "b - a"] \<open>a < b\<close> by (simp add: pow2_def)
  ultimately show "pow2 a < pow2 b"
    using mult_strict_left_mono [of 1 "pow2 (b - a)" "pow2 a"] by simp
qed

lemma ilog2_bounds:
  assumes "0 < x"
  shows "pow2 (ilog2 x) \<le> x" "x < pow2 (ilog2 x + 1)"
proof -
  obtain p q where pq: "quotient_of x = (p, q)" by force
  have q: "0 < q" using quotient_of_denom_pos [OF pq] .
  have x: "x = of_int p / of_int q" using quotient_of_div [OF pq] .
  have p: "0 < p" using assms q x by (simp add: zero_less_divide_iff)
  have bl: "pow2 (bitlen n - 1) \<le> of_int n \<and> of_int n < pow2 (bitlen n)" if "0 < n" for n :: int
  proof -
    have b: "2 ^ nat (bitlen n - 1) \<le> n" "n < 2 ^ nat (bitlen n)" and "0 < bitlen n"
      using bitlen_bounds [of n] that by (auto simp: bitlen_alt_def)
    then have "pow2 (bitlen n - 1) = of_int (2 ^ nat (bitlen n - 1))"
      "pow2 (bitlen n) = of_int (2 ^ nat (bitlen n))"
      by (simp_all add: pow2_nonneg_int)
    then show ?thesis using b by (simp only: of_int_le_iff of_int_less_iff)
  qed
  let ?e = "bitlen p - bitlen q"
  have up: "x < pow2 (?e + 1)"
  proof -
    have "of_int p < pow2 (bitlen p)" "pow2 (bitlen q - 1) \<le> of_int q" using bl p q by auto
    then have "x < pow2 (bitlen p) / pow2 (bitlen q - 1)"
      unfolding x using p q by (intro frac_less) auto
    also have "\<dots> = pow2 (?e + 1)"
      by (simp add: algebra_simps flip: pow2_diff)
    finally show ?thesis .
  qed
  have low: "pow2 (?e - 1) \<le> x"
  proof -
    have "pow2 (bitlen p - 1) \<le> of_int p" "of_int q < pow2 (bitlen q)" using bl p q by auto
    then have "pow2 (bitlen p - 1) / pow2 (bitlen q) \<le> x"
      unfolding x using p q by (intro frac_le) (auto intro: less_imp_le)
    moreover have "pow2 (bitlen p - 1) / pow2 (bitlen q) = pow2 (?e - 1)"
      by (simp add: algebra_simps flip: pow2_diff)
    ultimately show ?thesis by simp
  qed
  show "pow2 (ilog2 x) \<le> x" "x < pow2 (ilog2 x + 1)"
    using up low by (auto simp: ilog2_def pq Let_def)
qed

lemma ilog2_mono:
  assumes "0 < x" "x \<le> y"
  shows "ilog2 x \<le> ilog2 y"
proof -
  have "pow2 (ilog2 x) < pow2 (ilog2 y + 1)"
    using ilog2_bounds(1) [of x] ilog2_bounds(2) [of y] assms by linarith
  then show ?thesis by simp
qed

lemma ilog2_eqI:
  assumes "pow2 e \<le> x" "x < pow2 (e + 1)"
  shows "ilog2 x = e"
proof -
  have x: "0 < x" using assms(1) pow2_pos [of e] by linarith
  have "pow2 (ilog2 x) < pow2 (e + 1)" "pow2 e < pow2 (ilog2 x + 1)"
    using ilog2_bounds [OF x] assms by linarith+
  then show ?thesis by simp
qed

section \<open>Formats and rounding\<close>

record fmt =
  prec :: int
  emin :: int
  emax :: int

definition f32_fmt :: fmt where
  "f32_fmt = \<lparr>prec = 24, emin = -126, emax = 127\<rparr>"

definition f64_fmt :: fmt where
  "f64_fmt = \<lparr>prec = 53, emin = -1022, emax = 1023\<rparr>"

definition ulp_exp :: "fmt \<Rightarrow> rat \<Rightarrow> int" where
  "ulp_exp F x = max (ilog2 \<bar>x\<bar>) (emin F) - (prec F - 1)"

definition round_fmt :: "fmt \<Rightarrow> rat \<Rightarrow> rat" where
  "round_fmt F x =
     (if x = 0 then 0
      else let q = pow2 (ulp_exp F x) in of_int (rne (x / q)) * q)"

definition fmt_ok :: "fmt \<Rightarrow> bool" where
  "fmt_ok F \<longleftrightarrow> 1 \<le> prec F \<and> emin F \<le> 0 \<and> prec F \<le> emax F"

lemma fmt_ok_f32 [simp]: "fmt_ok f32_fmt" and fmt_ok_f64 [simp]: "fmt_ok f64_fmt"
  by (simp_all add: fmt_ok_def f32_fmt_def f64_fmt_def)

lemma fmt_fields [simp]:
  "prec f32_fmt = 24" "emin f32_fmt = -126" "emax f32_fmt = 127"
  "prec f64_fmt = 53" "emin f64_fmt = -1022" "emax f64_fmt = 1023"
  by (simp_all add: f32_fmt_def f64_fmt_def)

lemma round_zero [simp]: "round_fmt F 0 = 0"
  by (simp add: round_fmt_def)

lemma rne_minus: "rne (- x) = - rne x"
proof (cases "x \<in> \<int>")
  case True
  then obtain n where "x = of_int n" by (auto elim: Ints_cases)
  then show ?thesis by (metis of_int_minus rne_of_int)
next
  case False
  then have "\<lfloor>- x\<rfloor> = - \<lfloor>x\<rfloor> - 1"
    by (simp add: floor_minus ceiling_altdef Ints_def) (metis rangeI)
  then show ?thesis by (auto simp: rne_def Let_def)
qed

lemma round_minus: "round_fmt F (- x) = - round_fmt F x"
  by (simp add: round_fmt_def ulp_exp_def Let_def rne_minus)

text \<open>Rounding an \<open>x\<close> below (above) a power of two that is a multiple of its unit stays below
  (above) it.\<close>

lemma round_le_pow2:
  assumes "0 < x" "x \<le> pow2 k" "ulp_exp F x \<le> k"
  shows "round_fmt F x \<le> pow2 k"
proof -
  let ?u = "ulp_exp F x"
  have k: "pow2 k = of_int (2 ^ nat (k - ?u)) * pow2 ?u"
    using assms(3) by (simp add: pow2_nonneg_int [symmetric] pow2_add [symmetric] del: of_int_power)
  then have "x / pow2 ?u \<le> of_int (2 ^ nat (k - ?u))"
    using assms(2) by (simp add: pos_divide_le_eq del: of_int_power)
  then have "rne (x / pow2 ?u) \<le> 2 ^ nat (k - ?u)" by (rule rne_le_of_int)
  then have "of_int (rne (x / pow2 ?u)) * pow2 ?u \<le> of_int (2 ^ nat (k - ?u)) * pow2 ?u"
    by (intro mult_right_mono) (simp_all only: of_int_le_iff pow2_pos less_imp_le)
  then show ?thesis using assms(1) k by (simp add: round_fmt_def Let_def del: of_int_power)
qed

lemma round_ge_pow2:
  assumes "pow2 k \<le> x" "ulp_exp F x \<le> k"
  shows "pow2 k \<le> round_fmt F x"
proof -
  let ?u = "ulp_exp F x"
  have x: "x \<noteq> 0" using assms(1) pow2_pos [of k] by linarith
  have k: "pow2 k = of_int (2 ^ nat (k - ?u)) * pow2 ?u"
    using assms(2) by (simp add: pow2_nonneg_int [symmetric] pow2_add [symmetric] del: of_int_power)
  then have "of_int (2 ^ nat (k - ?u)) \<le> x / pow2 ?u"
    using assms(1) by (simp add: pos_le_divide_eq del: of_int_power)
  then have "2 ^ nat (k - ?u) \<le> rne (x / pow2 ?u)" by (rule rne_ge_of_int)
  then have "of_int (2 ^ nat (k - ?u)) * pow2 ?u \<le> of_int (rne (x / pow2 ?u)) * pow2 ?u"
    by (intro mult_right_mono) (simp_all only: of_int_le_iff pow2_pos less_imp_le)
  then show ?thesis using x k by (simp add: round_fmt_def Let_def del: of_int_power)
qed

lemma round_nonneg: "0 \<le> x \<Longrightarrow> 0 \<le> round_fmt F x"
  using rne_ge_of_int [of 0 "x / pow2 (ulp_exp F x)"]
  by (simp add: round_fmt_def Let_def)

lemma round_mono_pos:
  assumes F: "fmt_ok F" and xy: "0 < x" "x \<le> y"
  shows "round_fmt F x \<le> round_fmt F y"
proof (cases "ulp_exp F x = ulp_exp F y")
  case True
  then have "x / pow2 (ulp_exp F x) \<le> y / pow2 (ulp_exp F y)"
    using xy by (simp add: divide_right_mono less_imp_le)
  then have "rne (x / pow2 (ulp_exp F x)) \<le> rne (y / pow2 (ulp_exp F y))" by (rule rne_mono)
  then show ?thesis using xy True
    by (auto simp: round_fmt_def Let_def intro!: mult_right_mono less_imp_le)
next
  case False
  let ?k = "ilog2 y"
  have "ilog2 x \<le> ?k" using ilog2_mono xy by simp
  then have k: "ilog2 x < ?k" "emin F < ?k"
    using False xy by (auto simp: ulp_exp_def max_def split: if_splits)
  have y: "pow2 ?k \<le> y" using ilog2_bounds(1) [of y] xy by linarith
  have "x < pow2 (ilog2 x + 1)" using ilog2_bounds(2) xy by blast
  also have "\<dots> \<le> pow2 ?k" using k by (intro pow2_mono) simp
  finally have "round_fmt F x \<le> pow2 ?k"
    using k F xy by (intro round_le_pow2) (auto simp: ulp_exp_def fmt_ok_def)
  also have "pow2 ?k \<le> round_fmt F y"
    using k F xy y by (intro round_ge_pow2) (auto simp: ulp_exp_def fmt_ok_def)
  finally show ?thesis .
qed

lemma round_mono:
  assumes F: "fmt_ok F" and xy: "x \<le> y"
  shows "round_fmt F x \<le> round_fmt F y"
proof -
  consider "0 < x" | "x \<le> 0" "0 \<le> y" | "y < 0" using xy by linarith
  then show ?thesis
  proof cases
    case 1
    then show ?thesis using round_mono_pos [OF F _ xy] by simp
  next
    case 2
    then have "0 \<le> round_fmt F (- x)" "0 \<le> round_fmt F y" by (auto intro: round_nonneg)
    then show ?thesis by (simp add: round_minus)
  next
    case 3
    then have "round_fmt F (- y) \<le> round_fmt F (- x)"
      using xy by (intro round_mono_pos [OF F]) auto
    then show ?thesis by (simp add: round_minus)
  qed
qed

text \<open>The values of the format are kept: \<open>m \<cdot> 2\<^sup>k\<close> with fewer than \<open>prec\<close> digits in \<open>m\<close>.\<close>

lemma round_exact:
  assumes m: "\<bar>m\<bar> < 2 ^ nat (prec F)" and k: "emin F - (prec F - 1) \<le> k" and "fmt_ok F"
  shows "round_fmt F (of_int m * pow2 k) = of_int m * pow2 k"
proof (cases "m = 0")
  case False
  let ?x = "of_int m * pow2 k" and ?u = "ulp_exp F (of_int m * pow2 k)"
  have p: "0 < prec F" using assms(3) by (simp add: fmt_ok_def)
  have abs: "\<bar>?x\<bar> = of_int \<bar>m\<bar> * pow2 k" by (simp add: abs_mult)
  then have pos: "0 < \<bar>?x\<bar>" using False by simp
  have "of_int \<bar>m\<bar> < (of_int (2 ^ nat (prec F)) :: rat)" using m by (simp only: of_int_less_iff)
  then have "of_int \<bar>m\<bar> < pow2 (prec F)" using p by (simp add: pow2_nonneg_int)
  then have "\<bar>?x\<bar> < pow2 (prec F) * pow2 k" unfolding abs by simp
  then have "pow2 (ilog2 \<bar>?x\<bar>) < pow2 (prec F + k)"
    using ilog2_bounds(1) [OF pos] by (simp add: pow2_add)
  then have "?u \<le> k" using k by (simp add: ulp_exp_def)
  then have "?x / pow2 ?u = of_int (m * 2 ^ nat (k - ?u))"
    by (simp add: pow2_diff [symmetric] pow2_nonneg_int [symmetric] del: of_int_power
        flip: times_divide_eq_right)
  then have "of_int (rne (?x / pow2 ?u)) * pow2 ?u = ?x / pow2 ?u * pow2 ?u"
    by (simp only: rne_of_int)
  then show ?thesis using False by (simp add: round_fmt_def Let_def)
qed simp

lemma round_of_int:
  assumes "\<bar>n\<bar> < 2 ^ nat (prec F)" "fmt_ok F"
  shows "round_fmt F (of_int n) = of_int n"
  using round_exact [of n F 0] assms by (simp add: fmt_ok_def pow2_def)

section \<open>Floating-point values and their operations\<close>

datatype fp = Fin rat | PInf | NInf | NaN

type_synonym f32 = fp
type_synonym f64 = fp

definition fround :: "fmt \<Rightarrow> rat \<Rightarrow> fp" where
  "fround F x =
     (let r = round_fmt F x
      in if pow2 (emax F + 1) \<le> r then PInf
         else if r \<le> - pow2 (emax F + 1) then NInf else Fin r)"

fun fadd :: "fmt \<Rightarrow> fp \<Rightarrow> fp \<Rightarrow> fp" where
  "fadd F (Fin a) (Fin b) = fround F (a + b)"
| "fadd F NaN _ = NaN"
| "fadd F _ NaN = NaN"
| "fadd F PInf NInf = NaN"
| "fadd F NInf PInf = NaN"
| "fadd F (Fin _) y = y"
| "fadd F x _ = x"

fun fneg :: "fp \<Rightarrow> fp" where
  "fneg (Fin a) = Fin (- a)"
| "fneg PInf = NInf"
| "fneg NInf = PInf"
| "fneg NaN = NaN"

definition fsub :: "fmt \<Rightarrow> fp \<Rightarrow> fp \<Rightarrow> fp" where
  "fsub F x y = fadd F x (fneg y)"

text \<open>An infinity with the sign of \<open>a\<close>; NaN for \<open>a = 0\<close>.\<close>

definition signed_inf :: "rat \<Rightarrow> fp" where
  "signed_inf a = (if 0 < a then PInf else if a < 0 then NInf else NaN)"

fun fmul :: "fmt \<Rightarrow> fp \<Rightarrow> fp \<Rightarrow> fp" where
  "fmul F (Fin a) (Fin b) = fround F (a * b)"
| "fmul F NaN _ = NaN"
| "fmul F _ NaN = NaN"
| "fmul F (Fin a) PInf = signed_inf a"
| "fmul F (Fin a) NInf = signed_inf (- a)"
| "fmul F PInf (Fin b) = signed_inf b"
| "fmul F NInf (Fin b) = signed_inf (- b)"
| "fmul F PInf PInf = PInf"
| "fmul F NInf NInf = PInf"
| "fmul F PInf NInf = NInf"
| "fmul F NInf PInf = NInf"

fun fdiv :: "fmt \<Rightarrow> fp \<Rightarrow> fp \<Rightarrow> fp" where
  "fdiv F (Fin a) (Fin b) = (if b = 0 then signed_inf a else fround F (a / b))"
| "fdiv F NaN _ = NaN"
| "fdiv F _ NaN = NaN"
| "fdiv F (Fin a) _ = Fin 0"
| "fdiv F PInf (Fin b) = (if 0 \<le> b then PInf else NInf)"
| "fdiv F NInf (Fin b) = (if 0 \<le> b then NInf else PInf)"
| "fdiv F _ _ = NaN"

text \<open>The comparisons \<open>x < y\<close> and \<open>x <= y\<close>: false as soon as one side is NaN.\<close>

fun flt :: "fp \<Rightarrow> fp \<Rightarrow> bool" where
  "flt (Fin a) (Fin b) \<longleftrightarrow> a < b"
| "flt NInf (Fin _) \<longleftrightarrow> True"
| "flt NInf PInf \<longleftrightarrow> True"
| "flt (Fin _) PInf \<longleftrightarrow> True"
| "flt _ _ \<longleftrightarrow> False"

fun fle :: "fp \<Rightarrow> fp \<Rightarrow> bool" where
  "fle (Fin a) (Fin b) \<longleftrightarrow> a \<le> b"
| "fle NaN _ \<longleftrightarrow> False"
| "fle _ NaN \<longleftrightarrow> False"
| "fle NInf _ \<longleftrightarrow> True"
| "fle _ PInf \<longleftrightarrow> True"
| "fle _ _ \<longleftrightarrow> False"

text \<open>\<open>f32::min\<close> ignores a NaN operand; \<open>clamp\<close> keeps it.\<close>

definition fmin :: "fp \<Rightarrow> fp \<Rightarrow> fp" where
  "fmin x y = (if x = NaN then y else if y = NaN then x else if flt y x then y else x)"

definition fclamp :: "fp \<Rightarrow> fp \<Rightarrow> fp \<Rightarrow> fp" where
  "fclamp x lo hi = (if flt x lo then lo else if flt hi x then hi else x)"

text \<open>\<open>x as iN\<close> and \<open>x as uN\<close>: truncate towards zero, saturate, NaN is 0.\<close>

definition rat_trunc :: "rat \<Rightarrow> int" where
  "rat_trunc r = (if 0 \<le> r then \<lfloor>r\<rfloor> else \<lceil>r\<rceil>)"

fun fp_as_int :: "int \<Rightarrow> int \<Rightarrow> fp \<Rightarrow> int" where
  "fp_as_int lo hi (Fin r) = max lo (min hi (rat_trunc r))"
| "fp_as_int lo hi PInf = hi"
| "fp_as_int lo hi NInf = lo"
| "fp_as_int lo hi NaN = 0"

definition fp_as_u8 :: "fp \<Rightarrow> u8" where
  "fp_as_u8 x = word_of_int (fp_as_int 0 255 x)"

definition fp_as_u32 :: "fp \<Rightarrow> u32" where
  "fp_as_u32 x = word_of_int (fp_as_int 0 (2 ^ 32 - 1) x)"

definition fp_as_usize :: "fp \<Rightarrow> nat" where
  "fp_as_usize x = nat (fp_as_int 0 (2 ^ 64 - 1) x)"

text \<open>\<open>i32\<close> values are kept as \<open>int\<close>s in range.\<close>

definition fp_as_i32 :: "fp \<Rightarrow> int" where
  "fp_as_i32 x = fp_as_int (- (2 ^ 31)) (2 ^ 31 - 1) x"

text \<open>\<open>f32::round\<close>: to the nearest integer, halves away from zero.\<close>

fun fp_round :: "fp \<Rightarrow> fp" where
  "fp_round (Fin r) =
     Fin (of_int (if 0 \<le> r then \<lfloor>r + 1 / 2\<rfloor> else - \<lfloor>1 / 2 - r\<rfloor>))"
| "fp_round x = x"

text \<open>A literal or an integer converted with \<open>as f32\<close> / \<open>as f64\<close> is rounded to the format.\<close>

abbreviation f32 :: "rat \<Rightarrow> fp" where "f32 r \<equiv> fround f32_fmt r"
abbreviation f64 :: "rat \<Rightarrow> fp" where "f64 r \<equiv> fround f64_fmt r"
abbreviation nat_as_f32 :: "nat \<Rightarrow> fp" where "nat_as_f32 n \<equiv> fround f32_fmt (of_nat n)"
abbreviation nat_as_f64 :: "nat \<Rightarrow> fp" where "nat_as_f64 n \<equiv> fround f64_fmt (of_nat n)"
abbreviation add32 :: "fp \<Rightarrow> fp \<Rightarrow> fp" where "add32 \<equiv> fadd f32_fmt"
abbreviation sub32 :: "fp \<Rightarrow> fp \<Rightarrow> fp" where "sub32 \<equiv> fsub f32_fmt"
abbreviation mul32 :: "fp \<Rightarrow> fp \<Rightarrow> fp" where "mul32 \<equiv> fmul f32_fmt"
abbreviation div32 :: "fp \<Rightarrow> fp \<Rightarrow> fp" where "div32 \<equiv> fdiv f32_fmt"
abbreviation add64 :: "fp \<Rightarrow> fp \<Rightarrow> fp" where "add64 \<equiv> fadd f64_fmt"
abbreviation sub64 :: "fp \<Rightarrow> fp \<Rightarrow> fp" where "sub64 \<equiv> fsub f64_fmt"
abbreviation mul64 :: "fp \<Rightarrow> fp \<Rightarrow> fp" where "mul64 \<equiv> fmul f64_fmt"
abbreviation div64 :: "fp \<Rightarrow> fp \<Rightarrow> fp" where "div64 \<equiv> fdiv f64_fmt"

lemma fsub_Fin [simp]: "fsub F (Fin a) (Fin b) = fround F (a - b)"
  by (simp add: fsub_def)

lemma round_abs_le_pow2:
  assumes "fmt_ok F" "\<bar>x\<bar> \<le> pow2 k" "emin F \<le> k"
  shows "\<bar>round_fmt F x\<bar> \<le> pow2 k"
proof -
  have r: "round_fmt F (pow2 k) = pow2 k"
    using round_exact [of 1 F k] assms by (simp add: fmt_ok_def)
  have "round_fmt F x \<le> pow2 k" "round_fmt F (- x) \<le> pow2 k"
    using round_mono [OF assms(1), of x "pow2 k"] round_mono [OF assms(1), of "- x" "pow2 k"]
      assms(2) r by linarith+
  then show ?thesis by (simp add: round_minus abs_le_iff)
qed

lemma fround_Fin:
  assumes "fmt_ok F" "\<bar>x\<bar> \<le> pow2 (emax F)"
  shows "fround F x = Fin (round_fmt F x)"
proof -
  have "\<bar>round_fmt F x\<bar> \<le> pow2 (emax F)"
    using assms by (intro round_abs_le_pow2) (auto simp: fmt_ok_def)
  moreover have "pow2 (emax F) < pow2 (emax F + 1)" by simp
  ultimately have "round_fmt F x < pow2 (emax F + 1)" "- pow2 (emax F + 1) < round_fmt F x"
    by linarith+
  then show ?thesis by (simp add: fround_def Let_def not_le)
qed

text \<open>Small values cannot overflow, so their evaluation needs no comparison with the largest power.\<close>

lemma fround_code [code]:
  "fround F x =
    (if fmt_ok F \<and> 16 \<le> emax F \<and> \<bar>x\<bar> \<le> 65536 then Fin (round_fmt F x)
     else let r = round_fmt F x
          in if pow2 (emax F + 1) \<le> r then PInf
             else if r \<le> - pow2 (emax F + 1) then NInf else Fin r)"
proof -
  have "fround F x = Fin (round_fmt F x)" if "fmt_ok F" "16 \<le> emax F" "\<bar>x\<bar> \<le> 65536"
  proof (rule fround_Fin [OF that(1)])
    have "\<bar>x\<bar> \<le> pow2 16" using that(3) by (simp add: pow2_def)
    also have "\<dots> \<le> pow2 (emax F)" using that(2) by (rule pow2_mono)
    finally show "\<bar>x\<bar> \<le> pow2 (emax F)" .
  qed
  then show ?thesis unfolding fround_def by simp
qed

lemma fround_of_int:
  assumes "fmt_ok F" "\<bar>n\<bar> < 2 ^ nat (prec F)"
  shows "fround F (of_int n) = Fin (of_int n)"
proof -
  have p: "0 \<le> prec F" "prec F \<le> emax F" using assms(1) by (auto simp: fmt_ok_def)
  have "\<bar>of_int n :: rat\<bar> \<le> of_int (2 ^ nat (prec F))"
    using assms(2) by (simp only: of_int_le_iff flip: of_int_abs)
  also have "\<dots> = pow2 (prec F)" using p by (simp add: pow2_nonneg_int)
  also have "\<dots> \<le> pow2 (emax F)" using p by (intro pow2_mono)
  finally show ?thesis using assms by (simp add: fround_Fin round_of_int)
qed

lemma fround_0 [simp]: "fround F 0 = Fin 0"
  by (simp add: fround_def Let_def not_le less_imp_le)

lemma fround_not_NaN [simp]: "fround F x \<noteq> NaN" "NaN \<noteq> fround F x"
  by (simp_all add: fround_def Let_def)

lemma round_0_1: "fmt_ok F \<Longrightarrow> 0 \<le> x \<Longrightarrow> x \<le> 1 \<Longrightarrow> 0 \<le> round_fmt F x \<and> round_fmt F x \<le> 1"
  using round_abs_le_pow2 [of F x 0] round_nonneg [of x F] by (auto simp: fmt_ok_def pow2_def)

lemma pow2_emax_ge: "fmt_ok F \<Longrightarrow> 2 \<le> pow2 (emax F)"
  using pow2_mono [of 1 "emax F"] by (simp add: fmt_ok_def pow2_def)

text \<open>On \<open>[0, 1]\<close> and sums of two such values nothing overflows.\<close>

lemma fround_unit: "fmt_ok F \<Longrightarrow> 0 \<le> x \<Longrightarrow> x \<le> 2 \<Longrightarrow> fround F x = Fin (round_fmt F x)"
  using pow2_emax_ge [of F] by (intro fround_Fin) auto

lemma fround_1: "fmt_ok F \<Longrightarrow> fround F 1 = Fin 1"
  using round_exact [of 1 F 0] by (simp add: fround_unit fmt_ok_def pow2_def)

lemma fmin_unit:
  assumes "fmt_ok F" "0 \<le> x"
  shows "fmin (fround F x) (fround F 1) = Fin (min (round_fmt F x) 1)"
proof -
  have "1 < pow2 (emax F + 1)"
    using pow2_less_iff [of 0 "emax F + 1"] assms(1) by (simp add: fmt_ok_def pow2_def)
  then show ?thesis
    using round_nonneg [OF assms(2), of F] assms(1)
    by (auto simp: fround_1 fround_def [of F x] Let_def fmin_def min_def)
qed

text \<open>Non-negative values, infinity included, are closed under the operations.\<close>

fun fp_nonneg :: "fp \<Rightarrow> bool" where
  "fp_nonneg (Fin r) \<longleftrightarrow> 0 \<le> r"
| "fp_nonneg PInf \<longleftrightarrow> True"
| "fp_nonneg _ \<longleftrightarrow> False"

lemma fp_nonneg_fround [simp]: "0 \<le> x \<Longrightarrow> fp_nonneg (fround F x)"
  using round_nonneg [of x F] pow2_pos [of "emax F + 1"]
  by (auto simp: fround_def Let_def)

lemma fp_nonneg_fadd [simp]: "fp_nonneg x \<Longrightarrow> fp_nonneg y \<Longrightarrow> fp_nonneg (fadd F x y)"
  by (cases x; cases y) auto

lemma fp_nonneg_fdiv [simp]: "fp_nonneg x \<Longrightarrow> 0 < y \<Longrightarrow> fp_nonneg (fdiv F x (Fin y))"
  by (cases x) auto

lemma fp_nonneg_fmul [simp]: "fp_nonneg x \<Longrightarrow> 0 < y \<Longrightarrow> fp_nonneg (fmul F x (Fin y))"
  by (cases x) (auto simp: signed_inf_def)

lemma fp_nonneg_foldl:
  "fp_nonneg x \<Longrightarrow> list_all fp_nonneg ys \<Longrightarrow> fp_nonneg (foldl (fadd F) x ys)"
  by (induction ys arbitrary: x) auto

lemma fmin_bounded:
  "fp_nonneg x \<Longrightarrow> 0 \<le> c \<Longrightarrow> \<exists>r. fmin x (Fin c) = Fin r \<and> 0 \<le> r \<and> r \<le> c"
  by (cases x) (auto simp: fmin_def)

lemma fp_as_int_bounds: "lo \<le> hi \<Longrightarrow> lo \<le> 0 \<Longrightarrow> 0 \<le> hi \<Longrightarrow> lo \<le> fp_as_int lo hi x \<and> fp_as_int lo hi x \<le> hi"
  by (cases x) auto

end
