(* ===== verification/Rust_Time.thy ===== *)
theory Rust_Time
  imports Ieee
begin

text \<open>
  \<open>std::time\<close> as the source uses it. A \<open>Duration\<close> is a number of nanoseconds, an \<open>Instant\<close>
  a reading of the monotonic clock, a \<open>SystemTime\<close> nanoseconds since the Unix epoch (negative
  before it). A function of the source that reads a clock takes the reading as an argument.
\<close>

type_synonym Duration = nat
type_synonym Instant = nat
type_synonym SystemTime = int

definition from_millis :: "u64 \<Rightarrow> Duration" where
  "from_millis ms = unat ms * 10 ^ 6"

definition from_secs :: "u64 \<Rightarrow> Duration" where
  "from_secs s = unat s * 10 ^ 9"

definition as_millis :: "Duration \<Rightarrow> nat" where
  "as_millis d = d div 10 ^ 6"

definition as_micros :: "Duration \<Rightarrow> nat" where
  "as_micros d = d div 10 ^ 3"

text \<open>\<open>secs as f32 + nanos as f32 / 1e9\<close>, and the same at double precision.\<close>

definition as_secs_f32 :: "Duration \<Rightarrow> f32" where
  "as_secs_f32 d =
     add32 (nat_as_f32 (d div 10 ^ 9)) (div32 (nat_as_f32 (d mod 10 ^ 9)) (nat_as_f32 (10 ^ 9)))"

definition as_secs_f64 :: "Duration \<Rightarrow> f64" where
  "as_secs_f64 d =
     add64 (nat_as_f64 (d div 10 ^ 9)) (div64 (nat_as_f64 (d mod 10 ^ 9)) (nat_as_f64 (10 ^ 9)))"

text \<open>\<open>later.duration_since(earlier)\<close> saturates at zero.\<close>

definition duration_since :: "Instant \<Rightarrow> Instant \<Rightarrow> Duration" where
  "duration_since later earlier = later - earlier"

text \<open>\<open>start.elapsed()\<close>, with the clock read as \<open>now\<close>.\<close>

definition elapsed :: "Instant \<Rightarrow> Instant \<Rightarrow> Duration" where
  "elapsed start now = duration_since now start"

text \<open>\<open>SystemTime::now().duration_since(UNIX_EPOCH).unwrap()\<close> panics on a clock set before 1970.\<close>

definition unix_duration :: "SystemTime \<Rightarrow> Duration result" where
  "unix_duration t = (if t < 0 then Inl (Panicked ''SystemTimeError'') else Inr (nat t))"

definition unix_secs :: "SystemTime \<Rightarrow> u64 result" where
  "unix_secs t = try_bind (unix_duration t) (\<lambda>d. Inr (word_of_nat (d div 10 ^ 9)))"

definition unix_millis :: "SystemTime \<Rightarrow> u64 result" where
  "unix_millis t = try_bind (unix_duration t) (\<lambda>d. Inr (word_of_nat (as_millis d)))"

lemmas time_defs [rust_defs] =
  from_millis_def from_secs_def as_millis_def as_micros_def duration_since_def elapsed_def

lemma unix_secs_Inr:
  "0 \<le> t \<Longrightarrow> unix_secs t = Inr (word_of_nat (nat t div 10 ^ 9))"
  by (simp add: unix_secs_def unix_duration_def)

lemma unix_secs_mono:
  assumes "unix_secs t = Inr a" "unix_secs t' = Inr b" "t \<le> t'" "nat t' div 10 ^ 9 < 2 ^ 64"
  shows "a \<le> b"
proof -
  have "nat t div 10 ^ 9 \<le> nat t' div 10 ^ 9" using assms(3) by (intro div_le_mono) simp
  then show ?thesis using assms
    by (auto simp: unix_secs_def unix_duration_def word_le_nat_alt split: if_splits)
qed

lemma as_millis_from_millis [simp]: "as_millis (from_millis ms) = unat ms"
  by (simp add: time_defs)

end
