(* ===== verification/Metrics.thy ===== *)
theory Metrics
  imports Rust_Time
begin

text \<open>
  \<open>src/common/metrics.rs\<close>: the frame and byte counters, the moving averages (a ring buffer with
  a running sum, in \<open>f64\<close>) and the derived statistics. Every method is one atomic read-modify-write
  or one critical section of a lock, so a concurrent run is a sequence of these operations.
\<close>

record MovingAverage =
  ma_samples :: "f64 list"
  ma_index :: nat
  ma_count :: nat
  ma_sum :: f64

definition MovingAverage_new :: "nat \<Rightarrow> MovingAverage" where
  "MovingAverage_new capacity =
     \<lparr>ma_samples = replicate capacity (f64 0), ma_index = 0, ma_count = 0, ma_sum = f64 0\<rparr>"

definition MovingAverage_add_sample :: "MovingAverage \<Rightarrow> f64 \<Rightarrow> MovingAverage result" where
  "MovingAverage_add_sample self value =
     (let len = length (ma_samples self); index = ma_index self
      in if index \<ge> len then Inl (Panicked ''index out of bounds'')
         else let sum' = (if ma_count self = len then sub64 (ma_sum self) (ma_samples self ! index)
                          else ma_sum self)
              in Inr (self\<lparr>ma_samples := (ma_samples self)[index := value],
                           ma_sum := add64 sum' value,
                           ma_index := (index + 1) mod len,
                           ma_count := (if ma_count self < len then ma_count self + 1
                                        else ma_count self)\<rparr>))"

definition MovingAverage_average :: "MovingAverage \<Rightarrow> f64" where
  "MovingAverage_average self =
     (if ma_count self = 0 then f64 0 else div64 (ma_sum self) (nat_as_f64 (ma_count self)))"

record PerformanceMetrics =
  pm_frames_captured :: u64
  pm_frames_encoded :: u64
  pm_frames_sent :: u64
  pm_frames_dropped :: u64
  pm_capture_time :: MovingAverage
  pm_encode_time :: MovingAverage
  pm_network_time :: MovingAverage
  pm_bytes_sent :: u64
  pm_bytes_received :: u64
  pm_start_time :: Instant

definition PerformanceMetrics_new :: "Instant \<Rightarrow> PerformanceMetrics" where
  "PerformanceMetrics_new now =
     \<lparr>pm_frames_captured = 0, pm_frames_encoded = 0, pm_frames_sent = 0, pm_frames_dropped = 0,
      pm_capture_time = MovingAverage_new 100, pm_encode_time = MovingAverage_new 100,
      pm_network_time = MovingAverage_new 100, pm_bytes_sent = 0, pm_bytes_received = 0,
      pm_start_time = now\<rparr>"

definition frame_captured :: "PerformanceMetrics \<Rightarrow> PerformanceMetrics" where
  "frame_captured self = self\<lparr>pm_frames_captured := pm_frames_captured self + 1\<rparr>"

definition frame_encoded :: "PerformanceMetrics \<Rightarrow> PerformanceMetrics" where
  "frame_encoded self = self\<lparr>pm_frames_encoded := pm_frames_encoded self + 1\<rparr>"

definition frame_sent :: "PerformanceMetrics \<Rightarrow> PerformanceMetrics" where
  "frame_sent self = self\<lparr>pm_frames_sent := pm_frames_sent self + 1\<rparr>"

definition frame_dropped :: "PerformanceMetrics \<Rightarrow> PerformanceMetrics" where
  "frame_dropped self = self\<lparr>pm_frames_dropped := pm_frames_dropped self + 1\<rparr>"

definition record_capture_time :: "PerformanceMetrics \<Rightarrow> Duration \<Rightarrow> PerformanceMetrics result" where
  "record_capture_time self duration =
     try_bind (MovingAverage_add_sample (pm_capture_time self) (nat_as_f64 (as_micros duration)))
       (\<lambda>m. Inr (self\<lparr>pm_capture_time := m\<rparr>))"

definition record_encode_time :: "PerformanceMetrics \<Rightarrow> Duration \<Rightarrow> PerformanceMetrics result" where
  "record_encode_time self duration =
     try_bind (MovingAverage_add_sample (pm_encode_time self) (nat_as_f64 (as_micros duration)))
       (\<lambda>m. Inr (self\<lparr>pm_encode_time := m\<rparr>))"

definition record_network_time :: "PerformanceMetrics \<Rightarrow> Duration \<Rightarrow> PerformanceMetrics result" where
  "record_network_time self duration =
     try_bind (MovingAverage_add_sample (pm_network_time self) (nat_as_f64 (as_micros duration)))
       (\<lambda>m. Inr (self\<lparr>pm_network_time := m\<rparr>))"

definition add_bytes_sent :: "PerformanceMetrics \<Rightarrow> u64 \<Rightarrow> PerformanceMetrics" where
  "add_bytes_sent self bytes = self\<lparr>pm_bytes_sent := pm_bytes_sent self + bytes\<rparr>"

definition add_bytes_received :: "PerformanceMetrics \<Rightarrow> u64 \<Rightarrow> PerformanceMetrics" where
  "add_bytes_received self bytes = self\<lparr>pm_bytes_received := pm_bytes_received self + bytes\<rparr>"

record PerformanceStats =
  ps_fps_captured :: f64
  ps_fps_encoded :: f64
  ps_fps_sent :: f64
  ps_drop_rate :: f64
  ps_avg_capture_time_us :: f64
  ps_avg_encode_time_us :: f64
  ps_avg_network_time_us :: f64
  ps_throughput_mbps :: f64
  ps_total_frames :: u64
  ps_uptime_seconds :: f64

abbreviation u64_as_f64 :: "u64 \<Rightarrow> f64" where "u64_as_f64 n \<equiv> nat_as_f64 (unat n)"

definition get_stats :: "Instant \<Rightarrow> PerformanceMetrics \<Rightarrow> PerformanceStats" where
  "get_stats now self =
     (let elapsed_s = as_secs_f64 (elapsed (pm_start_time self) now);
          frames_captured = pm_frames_captured self;
          frames_encoded = pm_frames_encoded self;
          frames_sent = pm_frames_sent self;
          frames_dropped = pm_frames_dropped self
      in \<lparr>ps_fps_captured = div64 (u64_as_f64 frames_captured) elapsed_s,
          ps_fps_encoded = div64 (u64_as_f64 frames_encoded) elapsed_s,
          ps_fps_sent = div64 (u64_as_f64 frames_sent) elapsed_s,
          ps_drop_rate = div64 (u64_as_f64 frames_dropped) (u64_as_f64 (max frames_captured 1)),
          ps_avg_capture_time_us = MovingAverage_average (pm_capture_time self),
          ps_avg_encode_time_us = MovingAverage_average (pm_encode_time self),
          ps_avg_network_time_us = MovingAverage_average (pm_network_time self),
          ps_throughput_mbps = div64 (mul64 (u64_as_f64 (pm_bytes_sent self)) (f64 8))
                                     (mul64 elapsed_s (f64 1000000)),
          ps_total_frames = frames_sent,
          ps_uptime_seconds = elapsed_s\<rparr>)"

record Timer =
  tm_start :: Instant

definition Timer_start :: "Instant \<Rightarrow> Timer" where
  "Timer_start now = \<lparr>tm_start = now\<rparr>"

definition Timer_elapsed :: "Timer \<Rightarrow> Instant \<Rightarrow> Duration" where
  "Timer_elapsed self now = elapsed (tm_start self) now"

section \<open>The ring buffer is a sliding window\<close>

definition ma_window :: "MovingAverage \<Rightarrow> f64 list" where
  "ma_window self =
     (if ma_count self < length (ma_samples self) then take (ma_count self) (ma_samples self)
      else drop (ma_index self) (ma_samples self) @ take (ma_index self) (ma_samples self))"

definition ma_inv :: "nat \<Rightarrow> MovingAverage \<Rightarrow> bool" where
  "ma_inv cap self \<longleftrightarrow>
     length (ma_samples self) = cap \<and> ma_index self < cap \<and> ma_count self \<le> cap
     \<and> (ma_count self < cap \<longrightarrow> ma_index self = ma_count self)"

definition ma_push :: "f64 \<Rightarrow> MovingAverage \<Rightarrow> MovingAverage" where
  "ma_push v self = (case MovingAverage_add_sample self v of Inl _ \<Rightarrow> self | Inr m \<Rightarrow> m)"

lemma ma_inv_new [simp]: "0 < cap \<Longrightarrow> ma_inv cap (MovingAverage_new cap)"
  by (simp add: ma_inv_def MovingAverage_new_def)

lemma ma_window_new [simp]: "0 < cap \<Longrightarrow> ma_window (MovingAverage_new cap) = []"
  by (simp add: ma_window_def MovingAverage_new_def)

lemma add_sample_ok:
  "ma_inv cap self \<Longrightarrow> MovingAverage_add_sample self v = Inr (ma_push v self)"
  by (auto simp: ma_push_def MovingAverage_add_sample_def ma_inv_def Let_def)

lemma ma_push_inv:
  assumes "ma_inv cap self"
  shows "ma_inv cap (ma_push v self)"
proof -
  have "(ma_index self + 1) mod cap < cap" using assms by (simp add: ma_inv_def)
  moreover have "(ma_index self + 1) mod cap = ma_count self + 1"
    if "ma_count self + 1 < cap" using assms that by (simp add: ma_inv_def)
  ultimately show ?thesis using assms
    by (auto simp: ma_push_def MovingAverage_add_sample_def ma_inv_def Let_def)
qed

lemma length_ma_window: "ma_inv cap self \<Longrightarrow> length (ma_window self) = ma_count self"
  by (auto simp: ma_window_def ma_inv_def min_def)

lemma ma_push_fields:
  assumes "ma_inv cap self"
  shows "ma_samples (ma_push v self) = (ma_samples self)[ma_index self := v]"
    "ma_index (ma_push v self) = (if ma_index self + 1 = cap then 0 else ma_index self + 1)"
    "ma_count (ma_push v self) = min cap (ma_count self + 1)"
  using assms
  by (auto simp: ma_push_def MovingAverage_add_sample_def ma_inv_def Let_def mod_if)

lemma ma_window_push:
  assumes "ma_inv cap self"
  shows "ma_window (ma_push v self) = lastn cap (ma_window self @ [v])"
proof (cases "ma_count self < cap")
  case True
  then have w: "ma_window self = take (ma_count self) (ma_samples self)"
    and i: "ma_index self = ma_count self" and l: "length (ma_samples self) = cap"
    using assms by (auto simp: ma_window_def ma_inv_def)
  have "take (Suc (ma_count self)) ((ma_samples self)[ma_count self := v]) = ma_window self @ [v]"
    using True l by (simp add: w take_Suc_conv_app_nth)
  moreover have "lastn cap (ma_window self @ [v]) = ma_window self @ [v]"
    using True length_ma_window [OF assms] by (simp add: lastn_def)
  ultimately show ?thesis
    using True l i by (cases "Suc (ma_count self) = cap")
      (auto simp: ma_window_def ma_push_fields [OF assms] take_all)
next
  case False
  let ?s = "ma_samples self" and ?i = "ma_index self"
  have i: "?i < length ?s" "length ?s = cap" "ma_count self = cap"
    using assms False by (auto simp: ma_inv_def)
  have w: "ma_window self = drop ?i ?s @ take ?i ?s" using i by (simp add: ma_window_def)
  have "lastn cap (ma_window self @ [v]) = drop (Suc ?i) ?s @ take ?i ?s @ [v]"
    using i lastn_push [of "ma_window self" cap v] Cons_nth_drop_Suc [OF i(1), symmetric]
    by (simp add: w)
  moreover have "ma_window (ma_push v self) = drop (Suc ?i) ?s @ take ?i ?s @ [v]"
    using i by (cases "Suc ?i = cap")
      (auto simp: ma_window_def ma_push_fields [OF assms] upd_conv_take_nth_drop take_Suc_conv_app_nth)
  ultimately show ?thesis by simp
qed

interpretation ring: sliding_window ma_push ma_window "ma_inv 100" 100
  by unfold_locales (simp_all add: ma_window_push ma_push_inv)

section \<open>The running sum is exact\<close>

text \<open>
  Samples are whole numbers of microseconds. As long as each is below \<open>2\<^sup>4\<^sup>6\<close> (more than two
  years), no partial sum of a hundred of them leaves the integers that a double represents, so the
  subtract-and-add update of the sum never rounds.
\<close>

definition exact_sum :: "nat list \<Rightarrow> MovingAverage \<Rightarrow> bool" where
  "exact_sum ns self \<longleftrightarrow>
     ma_window self = map (\<lambda>n. Fin (of_nat n)) ns \<and> ma_sum self = Fin (of_nat (sum_list ns))
     \<and> list_all (\<lambda>n. n < 2 ^ 46) ns"

lemma f64_of_int: "\<bar>n\<bar> < 2 ^ 53 \<Longrightarrow> f64 (of_int n) = Fin (of_int n)"
  by (rule fround_of_int) simp_all

lemma nat_f64_exact: "n < 2 ^ 53 \<Longrightarrow> nat_as_f64 n = Fin (of_nat n)"
  using f64_of_int [of "int n"] by simp

lemma sum_list_bound:
  "list_all (\<lambda>n. n < 2 ^ 46) ns \<Longrightarrow> length ns \<le> 101 \<Longrightarrow> sum_list ns < (2 :: nat) ^ 53"
proof -
  assume a: "list_all (\<lambda>n. n < 2 ^ 46) ns" "length ns \<le> 101"
  have "sum_list ns \<le> length ns * 2 ^ 46"
    using a(1) by (induction ns) auto
  also have "\<dots> \<le> 101 * 2 ^ 46" using a(2) by (intro mult_le_mono1)
  finally show ?thesis by simp
qed

lemma lastn_hundred:
  assumes "length ns \<le> 100"
  shows "sum_list (lastn 100 (ns @ [n])) + (if length ns = 100 then hd ns else 0)
    = sum_list ns + (n :: nat)"
  using assms lastn_push [OF assms, of n] by (cases ns) auto

lemma exact_sum_push:
  assumes inv: "ma_inv 100 self" and ex: "exact_sum ns self" and n: "n < 2 ^ 46"
  shows "exact_sum (lastn 100 (ns @ [n])) (ma_push (Fin (of_nat n)) self)"
proof -
  have len: "length ns = ma_count self" "ma_count self \<le> 100"
    using ex length_ma_window [OF inv] inv by (auto simp: exact_sum_def ma_inv_def)
  let ?old = "if length ns = 100 then hd ns else 0"
  have le: "?old \<le> sum_list ns" by (cases ns) auto
  have old: "ma_samples self ! ma_index self = Fin (of_nat (hd ns))" if "length ns = 100"
  proof -
    have "ma_samples self ! ma_index self = hd (ma_window self)"
      using that len inv by (auto simp: ma_window_def ma_inv_def hd_append hd_drop_conv_nth)
    also have "\<dots> = Fin (of_nat (hd ns))" using ex that by (cases ns) (auto simp: exact_sum_def)
    finally show ?thesis .
  qed
  have bnd: "sum_list (ns @ [n]) < 2 ^ 53"
    using ex n len by (intro sum_list_bound) (auto simp: exact_sum_def)
  have sub: "f64 (of_nat (sum_list ns) - of_nat (hd ns)) = Fin (of_nat (sum_list ns - hd ns))"
    if "length ns = 100"
    using nat_f64_exact [of "sum_list ns - hd ns"] bnd le that by (simp add: of_nat_diff)
  have sum: "ma_sum (ma_push (Fin (of_nat n)) self) = Fin (of_nat (sum_list ns - ?old + n))"
    using nat_f64_exact [of "sum_list ns - ?old + n"] bnd ex inv len old sub
    by (auto simp: ma_push_def MovingAverage_add_sample_def ma_inv_def exact_sum_def Let_def
        of_nat_add [symmetric] simp del: of_nat_add)
  have "sum_list (lastn 100 (ns @ [n])) = sum_list ns - ?old + n"
    using lastn_hundred [of ns n] len le by linarith
  moreover have "set (lastn 100 (ns @ [n])) \<subseteq> set (ns @ [n])"
    by (simp only: lastn_def set_drop_subset)
  ultimately show ?thesis
    using ex n sum ma_window_push [OF inv]
    by (auto simp: exact_sum_def list_all_iff lastn_def drop_map [symmetric])
qed

lemma exact_sum_fold:
  assumes "ma_inv 100 self" "exact_sum (lastn 100 h) self" "list_all (\<lambda>n. n < 2 ^ 46) ns"
  shows "exact_sum (lastn 100 (h @ ns)) (fold (\<lambda>n. ma_push (Fin (of_nat n))) ns self)
    \<and> ma_inv 100 (fold (\<lambda>n. ma_push (Fin (of_nat n))) ns self)"
  using assms
proof (induction ns arbitrary: self h)
  case (Cons n ns)
  have "exact_sum (lastn 100 (h @ [n])) (ma_push (Fin (of_nat n)) self)"
    using exact_sum_push [OF Cons.prems(1,2), of n] Cons.prems(3) by (simp add: lastn_lastn_snoc)
  from Cons.IH [OF ma_push_inv [OF Cons.prems(1)] this] show ?case using Cons.prems by simp
qed simp

section \<open>Properties\<close>

text \<open>C28: After any number of recorded capture times (each below \<open>2^46\<close> microseconds), recording
  has not panicked and the reported average is the correctly rounded quotient of the exact sum of
  the last hundred times by their number: the running \<open>f64\<close> sum never drifts.\<close>

theorem capture_average_exact:
  assumes "list_all (\<lambda>d. as_micros d < 2 ^ 46) ds"
  shows "\<exists>m. fold_result (\<lambda>d m. record_capture_time m d) ds (PerformanceMetrics_new now) = Inr m
    \<and> ps_avg_capture_time_us (get_stats now' m) =
        (if ds = [] then f64 0
         else f64 (of_nat (sum_list (lastn 100 (map as_micros ds))) / of_nat (min 100 (length ds))))"
proof -
  let ?ns = "map as_micros ds" and ?m0 = "PerformanceMetrics_new now"
  let ?push = "\<lambda>n. ma_push (Fin (of_nat n))"
  let ?ma = "fold ?push ?ns (MovingAverage_new 100)"
  have ns: "list_all (\<lambda>n. n < 2 ^ 46) ?ns" using assms by (simp add: list_all_iff)
  have "exact_sum (lastn 100 []) (MovingAverage_new 100)"
    by (simp add: exact_sum_def) (simp add: MovingAverage_new_def)
  then have ex: "exact_sum (lastn 100 ?ns) ?ma" "ma_inv 100 ?ma"
    using exact_sum_fold [of "MovingAverage_new 100" "[]" ?ns] ns by simp_all
  have "fold_result (\<lambda>d m. record_capture_time m d) ds m
      = Inr (m\<lparr>pm_capture_time := fold ?push (map as_micros ds) (pm_capture_time m)\<rparr>)"
    if "ma_inv 100 (pm_capture_time m)" "list_all (\<lambda>d. as_micros d < 2 ^ 46) ds" for m ds
    using that
  proof (induction ds arbitrary: m)
    case (Cons d ds)
    have "as_micros d < 2 ^ 53" using Cons.prems(2) by simp
    then have "record_capture_time m d
        = Inr (m\<lparr>pm_capture_time := ?push (as_micros d) (pm_capture_time m)\<rparr>)"
      using Cons.prems(1) by (simp add: record_capture_time_def nat_f64_exact add_sample_ok)
    then show ?case using Cons ma_push_inv by simp
  qed simp
  then have run: "fold_result (\<lambda>d m. record_capture_time m d) ds ?m0 = Inr (?m0\<lparr>pm_capture_time := ?ma\<rparr>)"
    using assms by (simp add: PerformanceMetrics_new_def)
  have count: "ma_count ?ma = min 100 (length ds)"
    using length_ma_window [OF ex(2)] ex(1) by (simp add: exact_sum_def)
  have "MovingAverage_average ?ma = (if ds = [] then f64 0
      else f64 (of_nat (sum_list (lastn 100 ?ns)) / of_nat (min 100 (length ds))))"
  proof (cases "ds = []")
    case False
    define n where "n = min 100 (length ds)"
    have "n \<noteq> 0" "n < 2 ^ 53" using False by (auto simp: n_def min_def)
    then show ?thesis using False ex(1) count nat_f64_exact [of n]
      unfolding n_def [symmetric] by (simp add: MovingAverage_average_def exact_sum_def)
  qed (simp add: MovingAverage_average_def MovingAverage_new_def)
  then show ?thesis using run by (simp add: get_stats_def Let_def)
qed

theorem capture_average_exact_witness:
  "\<exists>m. fold_result (\<lambda>d m. record_capture_time m d) [1000, 2000, 4000] (PerformanceMetrics_new 0) = Inr m
    \<and> ps_avg_capture_time_us (get_stats 9 m) = f64 (7 / 3)"
  using capture_average_exact [of "[1000, 2000, 4000]" 0 9]
  by (simp add: as_micros_def lastn_def)

end
