(* ===== verification/Auth.thy ===== *)
theory Auth
  imports Rust_Time
begin

text \<open>
  \<open>src/common/auth.rs\<close>: the six-digit access code with its five-minute validity, and the
  session token. The random draws and the clock reading are arguments; SHA-256 is the
  parameter \<open>sha256\<close>. Field names carry the struct's initials (\<open>ac_\<close>, \<open>tok_\<close>, ...).
\<close>

definition CODE_LENGTH :: nat where
  "CODE_LENGTH = 6"

definition CODE_VALIDITY_SECS :: u64 where
  "CODE_VALIDITY_SECS = 300"

record AccessCode =
  ac_code :: string
  ac_hashed :: string
  ac_created_at :: u64
  ac_expires_at :: u64

record AuthRequest =
  areq_code :: string
  areq_client_id :: string

record AuthResponse =
  aresp_success :: bool
  aresp_session_token :: "string option"
  aresp_message :: string

text \<open>\<open>to_string\<close> of a non-negative integer.\<close>

fun nat_to_string :: "nat \<Rightarrow> string" where
  "nat_to_string n =
     (if n < 10 then [char_of (48 + n)]
      else nat_to_string (n div 10) @ [char_of (48 + n mod 10)])"

declare nat_to_string.simps [simp del]

text \<open>\<open>format!("{:x}", digest)\<close>: two lower-case hexadecimal digits per byte.\<close>

definition hex_digit :: "nat \<Rightarrow> char" where
  "hex_digit n = (if n < 10 then char_of (48 + n) else char_of (87 + n))"

definition hex_byte :: "u8 \<Rightarrow> string" where
  "hex_byte b = [hex_digit (unat b div 16), hex_digit (unat b mod 16)]"

definition lower_hex :: "bytes \<Rightarrow> string" where
  "lower_hex bs = concat (map hex_byte bs)"

definition hash_code :: "(bytes \<Rightarrow> bytes) \<Rightarrow> string \<Rightarrow> string" where
  "hash_code sha256 code = lower_hex (sha256 (as_bytes code))"

text \<open>\<open>gen_range i\<close> is the \<open>i\<close>-th draw of \<open>rng.gen_range(0..10)\<close>.\<close>

definition AccessCode_generate ::
  "(bytes \<Rightarrow> bytes) \<Rightarrow> (nat \<Rightarrow> nat) \<Rightarrow> SystemTime \<Rightarrow> AccessCode result" where
  "AccessCode_generate sha256 gen_range clock =
     (let code = concat (map (\<lambda>i. nat_to_string (gen_range i)) [0..<CODE_LENGTH])
      in try_bind (unix_secs clock) (\<lambda>now.
         let hashed = hash_code sha256 code
         in Inr \<lparr>ac_code = code, ac_hashed = hashed, ac_created_at = now,
                 ac_expires_at = now + CODE_VALIDITY_SECS\<rparr>))"

definition AccessCode_verify ::
  "(bytes \<Rightarrow> bytes) \<Rightarrow> AccessCode \<Rightarrow> SystemTime \<Rightarrow> string \<Rightarrow> bool result" where
  "AccessCode_verify sha256 self clock code =
     try_bind (unix_secs clock) (\<lambda>now.
       if now > ac_expires_at self then Inr False
       else Inr (hash_code sha256 code = ac_hashed self))"

definition AccessCode_is_expired :: "AccessCode \<Rightarrow> SystemTime \<Rightarrow> bool result" where
  "AccessCode_is_expired self clock =
     try_bind (unix_secs clock) (\<lambda>now. Inr (now > ac_expires_at self))"

record SessionToken =
  tok_token :: string
  tok_created_at :: u64
  tok_expires_at :: u64

text \<open>\<open>alnum i\<close> is the \<open>i\<close>-th sample of the \<open>Alphanumeric\<close> distribution.\<close>

definition SessionToken_generate ::
  "(nat \<Rightarrow> u8) \<Rightarrow> SystemTime \<Rightarrow> u64 \<Rightarrow> SessionToken result" where
  "SessionToken_generate alnum clock validity_hours =
     (let token = map (\<lambda>i. char_of (unat (alnum i))) [0..<32]
      in try_bind (unix_secs clock) (\<lambda>now.
         Inr \<lparr>tok_token = token, tok_created_at = now,
              tok_expires_at = now + validity_hours * 3600\<rparr>))"

definition SessionToken_is_valid :: "SessionToken \<Rightarrow> SystemTime \<Rightarrow> bool result" where
  "SessionToken_is_valid self clock =
     try_bind (unix_secs clock) (\<lambda>now. Inr (now \<le> tok_expires_at self))"

section \<open>Hexadecimal digests are injective\<close>

lemma hex_digit_inj: "m < 16 \<Longrightarrow> n < 16 \<Longrightarrow> hex_digit m = hex_digit n \<Longrightarrow> m = n"
  by (auto simp: hex_digit_def char_of_eq_iff take_bit_nat_eq_self split: if_splits
      dest!: arg_cong [where f = "of_char :: char \<Rightarrow> nat"])

lemma hex_byte_inj: "hex_byte a = hex_byte b \<Longrightarrow> a = b"
proof -
  assume "hex_byte a = hex_byte b"
  moreover have "unat a < 256" "unat b < 256"
    using unsigned_less [of a] unsigned_less [of b] by simp_all
  ultimately have "unat a div 16 = unat b div 16" "unat a mod 16 = unat b mod 16"
    by (auto simp: hex_byte_def intro: hex_digit_inj)
  then have "unat a = unat b" by (metis div_mult_mod_eq)
  then show "a = b" by (simp add: word_unat_eq_iff)
qed

lemma length_hex_byte [simp]: "length (hex_byte b) = 2"
  by (simp add: hex_byte_def)

lemma length_lower_hex [simp]: "length (lower_hex bs) = 2 * length bs"
  by (induction bs) (simp_all add: lower_hex_def)

lemma lower_hex_inj: "lower_hex as = lower_hex bs \<longleftrightarrow> as = bs"
proof
  assume eq: "lower_hex as = lower_hex bs"
  then have "length as = length bs" by (metis length_lower_hex mult_cancel1 zero_neq_numeral)
  then show "as = bs" using eq
    by (induction as bs rule: list_induct2) (auto simp: lower_hex_def dest: hex_byte_inj)
qed simp

section \<open>The access code\<close>

lemma nat_to_string_digit: "d < 10 \<Longrightarrow> nat_to_string d = [char_of (48 + d)]"
  by (subst nat_to_string.simps) simp

lemma is_ascii_digit_char_of: "(d :: nat) < 10 \<Longrightarrow> is_ascii_digit (char_of (48 + d))"
  by (simp add: is_ascii_digit_def of_char_of)

lemma generated_digits:
  assumes "\<And>i. g i < 10"
  shows "concat (map (\<lambda>i. nat_to_string (g i)) [0..<n]) = map (\<lambda>i. char_of (48 + g i)) [0..<n]"
  using assms by (induction n) (simp_all add: nat_to_string_digit)

definition code_wf :: "(bytes \<Rightarrow> bytes) \<Rightarrow> AccessCode \<Rightarrow> bool" where
  "code_wf sha256 ac \<longleftrightarrow>
     length (ac_code ac) = CODE_LENGTH \<and> list_all is_ascii_digit (ac_code ac)
     \<and> ac_hashed ac = hash_code sha256 (ac_code ac)
     \<and> ac_expires_at ac = ac_created_at ac + CODE_VALIDITY_SECS"

lemma generate_wf:
  assumes "AccessCode_generate sha256 g t = Inr ac" "\<And>i. g i < 10"
  shows "code_wf sha256 ac"
  using assms(1)
  by (auto simp: AccessCode_generate_def code_wf_def generated_digits [OF assms(2)] list_all_iff
      is_ascii_digit_char_of assms(2) try_bind_Inr_iff Let_def)

lemma verify_iff_digest:
  assumes "code_wf sha256 ac" "unix_secs t = Inr now"
  shows "AccessCode_verify sha256 ac t c =
    Inr (now \<le> ac_expires_at ac \<and> sha256 (as_bytes c) = sha256 (as_bytes (ac_code ac)))"
  using assms
  by (auto simp: AccessCode_verify_def code_wf_def hash_code_def lower_hex_inj not_less)

lemma verify_own_code:
  assumes "code_wf sha256 ac"
  shows "AccessCode_verify sha256 ac t (ac_code ac) =
    try_bind (AccessCode_is_expired ac t) (\<lambda>e. Inr (\<not> e))"
  using assms
  by (cases "unix_secs t")
    (auto simp: AccessCode_verify_def AccessCode_is_expired_def code_wf_def)

lemma verify_TrueD:
  "AccessCode_verify sha256 ac t c = Inr True \<Longrightarrow>
   \<exists>now. unix_secs t = Inr now \<and> now \<le> ac_expires_at ac \<and> hash_code sha256 c = ac_hashed ac"
  by (auto simp: AccessCode_verify_def try_bind_Inr_iff not_less split: if_splits)

section \<open>Properties\<close>

text \<open>C26: A generated access code has six decimal digits. From its creation on (and while the clock
  in seconds stays clear of the end of \<open>u64\<close>), \<open>verify\<close> accepts a candidate exactly while at most
  300 seconds have passed and the candidate has the same SHA-256 digest as the code.\<close>

theorem access_code_lifetime:
  assumes "AccessCode_generate sha256 gen t0 = Inr ac" "\<And>i. gen i < 10"
    and "0 \<le> t0" "t0 \<le> t" "nat t div 10 ^ 9 + 300 < 2 ^ 64"
  shows "length (ac_code ac) = 6 \<and> list_all is_ascii_digit (ac_code ac)
    \<and> AccessCode_verify sha256 ac t c =
        Inr (nat t div 10 ^ 9 \<le> nat t0 div 10 ^ 9 + 300
             \<and> sha256 (as_bytes c) = sha256 (as_bytes (ac_code ac)))"
proof -
  let ?b = "nat t0 div 10 ^ 9" and ?e = "nat t div 10 ^ 9"
  have wf: "code_wf sha256 ac" by (rule generate_wf [OF assms(1,2)])
  have s0: "?b \<le> ?e" using assms(4) by (intro div_le_mono) simp
  have "ac_created_at ac = word_of_nat ?b"
    using assms(1,3) by (auto simp: AccessCode_generate_def unix_secs_Inr Let_def)
  then have "unat (ac_expires_at ac) = ?b + 300"
    using wf s0 assms(5) by (simp add: code_wf_def CODE_VALIDITY_SECS_def unat_add_small)
  moreover have "unix_secs t = Inr (word_of_nat ?e)" using assms(3,4) by (intro unix_secs_Inr) simp
  ultimately show ?thesis
    using verify_iff_digest [OF wf] wf assms(5)
    by (simp add: code_wf_def CODE_LENGTH_def word_le_nat_alt)
qed

theorem access_code_lifetime_witness:
  "\<exists>ac. AccessCode_generate (\<lambda>b. b) (\<lambda>_. 7) 0 = Inr ac
     \<and> AccessCode_verify (\<lambda>b. b) ac 300000000000 (ac_code ac) = Inr True
     \<and> AccessCode_verify (\<lambda>b. b) ac 301000000000 (ac_code ac) = Inr False"
proof -
  obtain ac where g: "AccessCode_generate (\<lambda>b. b) (\<lambda>_. 7) 0 = Inr ac"
    by (simp add: AccessCode_generate_def unix_secs_Inr Let_def)
  show ?thesis
    using g access_code_lifetime [OF g, where t = 300000000000 and c = "ac_code ac"]
      access_code_lifetime [OF g, where t = 301000000000 and c = "ac_code ac"] by simp
qed

text \<open>A session token has 32 characters and is valid exactly while at most \<open>validity_hours\<close>
  hours have passed since it was generated, as long as the sum fits in \<open>u64\<close>.\<close>

theorem session_token_lifetime:
  assumes "SessionToken_generate alnum t0 hours = Inr tok" "0 \<le> t0" "t0 \<le> t"
    and "nat t0 div 10 ^ 9 + unat hours * 3600 < 2 ^ 64" "nat t div 10 ^ 9 < 2 ^ 64"
  shows "length (tok_token tok) = 32
    \<and> SessionToken_is_valid tok t = Inr (nat t div 10 ^ 9 \<le> nat t0 div 10 ^ 9 + unat hours * 3600)"
proof -
  let ?b = "nat t0 div 10 ^ 9" and ?e = "nat t div 10 ^ 9"
  have tok: "length (tok_token tok) = 32" "tok_expires_at tok = word_of_nat ?b + hours * 3600"
    using assms(1,2) by (auto simp: SessionToken_generate_def unix_secs_Inr Let_def)
  have "unat (hours * 3600) = unat hours * 3600" using assms(4) by (subst unat_mult_small) simp_all
  then have "unat (tok_expires_at tok) = ?b + unat hours * 3600"
    unfolding tok(2) using assms(4) by (subst unat_add_small) simp_all
  moreover have "unix_secs t = Inr (word_of_nat ?e)" using assms(2,3) by (intro unix_secs_Inr) simp
  ultimately show ?thesis
    using tok(1) assms(5) by (simp add: SessionToken_is_valid_def word_le_nat_alt)
qed

theorem session_token_lifetime_witness:
  "\<exists>tok. SessionToken_generate (\<lambda>_. 65) 0 24 = Inr tok
     \<and> SessionToken_is_valid tok 86400000000000 = Inr True"
proof -
  obtain tok where g: "SessionToken_generate (\<lambda>_. 65) 0 24 = Inr tok"
    by (simp add: SessionToken_generate_def unix_secs_Inr)
  then show ?thesis using session_token_lifetime [OF g, where t = 86400000000000] by simp
qed

end
