(* ===== verification/Crypto.thy ===== *)
theory Crypto
  imports Prelude
begin

text \<open>
  \<open>src/common/crypto.rs\<close>: the AES-256-GCM session and the X25519 key exchange. The primitives
  are crates the code only calls, so they are the fields of \<open>crypto_lib\<close>, an argument of every
  definition; what the code relies on is stated as the named predicates \<open>aead_correct\<close>,
  \<open>dh_commutes\<close> and \<open>public_keys_ok\<close>. A random nonce or secret is an argument.
\<close>

record crypto_lib =
  cl_sha256 :: "bytes \<Rightarrow> bytes"
  cl_encrypt :: "bytes \<Rightarrow> bytes \<Rightarrow> bytes \<Rightarrow> string + bytes"
  cl_decrypt :: "bytes \<Rightarrow> bytes \<Rightarrow> bytes \<Rightarrow> string + bytes"
  cl_public :: "bytes \<Rightarrow> bytes"
  cl_dh :: "bytes \<Rightarrow> bytes \<Rightarrow> bytes"

section \<open>The cipher session\<close>

text \<open>The cipher object is determined by its key.\<close>

record CryptoSession =
  cs_cipher :: bytes

definition from_shared_secret :: "crypto_lib \<Rightarrow> bytes \<Rightarrow> CryptoSession result" where
  "from_shared_secret lib shared_secret =
     (let key_bytes = cl_sha256 lib shared_secret in Inr \<lparr>cs_cipher = key_bytes\<rparr>)"

definition encrypt :: "crypto_lib \<Rightarrow> CryptoSession \<Rightarrow> bytes \<Rightarrow> bytes \<Rightarrow> bytes result" where
  "encrypt lib self nonce plaintext =
     (case cl_encrypt lib (cs_cipher self) nonce plaintext of
        Inl e \<Rightarrow> Inl (Anyhow (''Encryption failed: '' @ e))
      | Inr ciphertext \<Rightarrow> Inr (nonce @ ciphertext))"

definition decrypt :: "crypto_lib \<Rightarrow> CryptoSession \<Rightarrow> bytes \<Rightarrow> bytes result" where
  "decrypt lib self data =
     (if length data < 12 then Inl (Anyhow ''Invalid encrypted data'')
      else let nonce_bytes = take 12 data; ciphertext = drop 12 data
           in case cl_decrypt lib (cs_cipher self) nonce_bytes ciphertext of
                Inl e \<Rightarrow> Inl (Anyhow (''Decryption failed: '' @ e))
              | Inr plaintext \<Rightarrow> Inr plaintext)"

section \<open>The key exchange\<close>

record KeyExchange =
  kx_secret :: bytes
  kx_public :: bytes

definition KeyExchange_new :: "crypto_lib \<Rightarrow> bytes \<Rightarrow> KeyExchange" where
  "KeyExchange_new lib secret = \<lparr>kx_secret = secret, kx_public = cl_public lib secret\<rparr>"

definition public_key :: "KeyExchange \<Rightarrow> bytes" where
  "public_key self = kx_public self"

definition public_key_bytes :: "KeyExchange \<Rightarrow> bytes" where
  "public_key_bytes self = kx_public self"

definition compute_shared_secret :: "crypto_lib \<Rightarrow> KeyExchange \<Rightarrow> bytes \<Rightarrow> bytes" where
  "compute_shared_secret lib self their_public = cl_dh lib (kx_secret self) their_public"

text \<open>\<open><[u8; 32]>::try_from(&key[..]).context("Invalid public key")\<close>, at both ends of the
  handshake.\<close>

definition public_key_of_slice :: "bytes \<Rightarrow> bytes result" where
  "public_key_of_slice key =
     (if length key = 32 then Inr key else Inl (Anyhow ''Invalid public key''))"

section \<open>What the code relies on\<close>

text \<open>Decryption under the key and nonce of an encryption gives the plaintext back.\<close>

definition aead_correct :: "crypto_lib \<Rightarrow> bool" where
  "aead_correct lib \<longleftrightarrow>
     (\<forall>k n p c. cl_encrypt lib k n p = Inr c \<longrightarrow> cl_decrypt lib k n c = Inr p)"

text \<open>Authenticated encryption: decryption accepts nothing but what encryption produces under the same
  key and nonce.\<close>

definition aead_authentic :: "crypto_lib \<Rightarrow> bool" where
  "aead_authentic lib \<longleftrightarrow>
     (\<forall>k n p c. cl_decrypt lib k n c = Inr p \<longrightarrow> cl_encrypt lib k n p = Inr c)"

text \<open>Diffie-Hellman: both ends compute the same secret from each other's public key.\<close>

definition dh_commutes :: "crypto_lib \<Rightarrow> bool" where
  "dh_commutes lib \<longleftrightarrow> (\<forall>a b. cl_dh lib a (cl_public lib b) = cl_dh lib b (cl_public lib a))"

text \<open>An X25519 public key has 32 bytes.\<close>

definition public_keys_ok :: "crypto_lib \<Rightarrow> bool" where
  "public_keys_ok lib \<longleftrightarrow> (\<forall>a. length (cl_public lib a) = 32)"

section \<open>Round trip and agreement\<close>

lemma decrypt_encrypt:
  assumes "aead_correct lib" "length nonce = 12" "encrypt lib s nonce p = Inr d"
  shows "decrypt lib s d = Inr p"
proof -
  obtain c where c: "cl_encrypt lib (cs_cipher s) nonce p = Inr c" "d = nonce @ c"
    using assms(3) by (auto simp: encrypt_def split: sum.splits)
  then have "cl_decrypt lib (cs_cipher s) nonce c = Inr p"
    using assms(1) by (auto simp: aead_correct_def)
  then show ?thesis using assms(2) c(2) by (simp add: decrypt_def)
qed

lemma decrypt_authentic:
  assumes "aead_authentic lib" "decrypt lib s data = Inr p"
  obtains nonce where "length nonce = 12" "encrypt lib s nonce p = Inr data"
proof -
  have "12 \<le> length data" "cl_decrypt lib (cs_cipher s) (take 12 data) (drop 12 data) = Inr p"
    using assms(2) by (auto simp: decrypt_def Let_def split: if_splits sum.splits)
  then have "encrypt lib s (take 12 data) p = Inr data" "length (take 12 data) = 12"
    using assms(1) by (auto simp: aead_authentic_def encrypt_def)
  then show thesis using that by blast
qed

lemma encrypt_nonce_distinct:
  assumes "length n = 12" "length n' = 12" "n \<noteq> n'"
    and "encrypt lib s n p = Inr d" "encrypt lib s n' p' = Inr d'"
  shows "d \<noteq> d'"
  using assms by (auto simp: encrypt_def split: sum.splits)

lemma sessions_agree:
  assumes "dh_commutes lib"
  shows "from_shared_secret lib
      (compute_shared_secret lib (KeyExchange_new lib a) (public_key_bytes (KeyExchange_new lib b)))
    = from_shared_secret lib
      (compute_shared_secret lib (KeyExchange_new lib b) (public_key_bytes (KeyExchange_new lib a)))"
  using assms
  by (simp add: dh_commutes_def compute_shared_secret_def KeyExchange_new_def public_key_bytes_def)

lemma decrypt_short: "length d < 12 \<Longrightarrow> decrypt lib s d = Inl (Anyhow ''Invalid encrypted data'')"
  by (simp add: decrypt_def)

lemma from_shared_secret_Inr [simp]:
  "from_shared_secret lib ss = Inr \<lparr>cs_cipher = cl_sha256 lib ss\<rparr>"
  by (simp add: from_shared_secret_def)

section \<open>A concrete library for the witnesses\<close>

text \<open>
  A stand-in that satisfies the three laws, so that the hypotheses of the theorems are seen to
  hold together: the tag is the key, a public key is the secret padded to 32 bytes, the shared
  secret the bytewise sum.
\<close>

definition pad32 :: "bytes \<Rightarrow> bytes" where
  "pad32 bs = take 32 (bs @ replicate 32 0)"

definition demo_lib :: crypto_lib where
  "demo_lib =
     \<lparr>cl_sha256 = pad32,
      cl_encrypt = (\<lambda>k n p. Inr (p @ k)),
      cl_decrypt = (\<lambda>k n c. if length k \<le> length c \<and> drop (length c - length k) c = k
                            then Inr (take (length c - length k) c) else Inl ''aead::Error''),
      cl_public = pad32,
      cl_dh = (\<lambda>a p. map2 (+) (pad32 a) p)\<rparr>"

lemma length_pad32 [simp]: "length (pad32 bs) = 32"
  by (simp add: pad32_def)

lemma demo_lib_ok: "aead_correct demo_lib" "dh_commutes demo_lib" "public_keys_ok demo_lib"
proof -
  show "aead_correct demo_lib" by (auto simp: aead_correct_def demo_lib_def)
  have "map2 (+) xs ys = map2 (+) ys xs" if "length xs = length ys" for xs ys :: bytes
    using that by (induction xs ys rule: list_induct2) (auto simp: add.commute)
  then show "dh_commutes demo_lib" by (simp add: dh_commutes_def demo_lib_def)
  show "public_keys_ok demo_lib" by (simp add: public_keys_ok_def demo_lib_def)
qed

lemma demo_lib_authentic: "aead_authentic demo_lib"
proof -
  have "take (length c - length k) c @ k = c" if "drop (length c - length k) c = k" for c k :: bytes
    using append_take_drop_id [of "length c - length k" c] that by simp
  then show ?thesis by (auto simp: aead_authentic_def demo_lib_def split: if_splits)
qed

section \<open>Properties\<close>

text \<open>C16: After a key exchange both ends hold the same cipher: what one end encrypts under any
  twelve-byte nonce, the other decrypts to the plaintext. The hypotheses on the library are that
  Diffie-Hellman commutes and that AES-GCM decryption inverts encryption.\<close>

theorem secure_channel_round_trip:
  assumes "dh_commutes lib" "aead_correct lib" "length nonce = 12"
    and "from_shared_secret lib (compute_shared_secret lib (KeyExchange_new lib a)
           (public_key_bytes (KeyExchange_new lib b))) = Inr alice"
    and "from_shared_secret lib (compute_shared_secret lib (KeyExchange_new lib b)
           (public_key_bytes (KeyExchange_new lib a))) = Inr bob"
    and "encrypt lib alice nonce plaintext = Inr packet"
  shows "decrypt lib bob packet = Inr plaintext"
proof -
  have "alice = bob" using sessions_agree [OF assms(1), of a b] assms(4,5) by simp
  then show ?thesis using decrypt_encrypt [OF assms(2,3)] assms(6) by simp
qed

theorem secure_channel_round_trip_witness:
  "\<exists>alice bob packet.
     from_shared_secret demo_lib (compute_shared_secret demo_lib (KeyExchange_new demo_lib [1])
       (public_key_bytes (KeyExchange_new demo_lib [2]))) = Inr alice
     \<and> encrypt demo_lib alice (replicate 12 0) [72, 105] = Inr packet
     \<and> decrypt demo_lib bob packet = Inr [72, 105]"
proof -
  let ?s = "\<lambda>a b. compute_shared_secret demo_lib (KeyExchange_new demo_lib a)
      (public_key_bytes (KeyExchange_new demo_lib b))"
  obtain alice bob packet
    where 1: "from_shared_secret demo_lib (?s [1] [2]) = Inr alice"
      and 2: "from_shared_secret demo_lib (?s [2] [1]) = Inr bob"
      and 3: "encrypt demo_lib alice (replicate 12 0) [72, 105] = Inr packet"
    by (simp add: encrypt_def demo_lib_def)
  have "decrypt demo_lib bob packet = Inr [72, 105]"
    by (rule secure_channel_round_trip [OF demo_lib_ok(2,1) _ 1 2 3]) simp
  then show ?thesis using 1 3 by blast
qed

end
