(* ===== verification/Framing.thy ===== *)
theory Framing
  imports Prelude
begin

text \<open>
  Length-prefixed frames on a byte stream. \<open>send_message\<close> is the same function at the server
  (\<open>src/server/server.rs\<close>) and the client (\<open>src/client/connection.rs\<close>); the receiving side is the
  buffer loop of the two readers (\<open>next_frame\<close>) and the two \<open>read_exact\<close> calls of the client's
  handshake (\<open>receive_message\<close>). The locale \<open>framing\<close> states what a framing promises; the stream lemmas
  (independence of how the network cuts the stream into chunks, and the round trip of a whole
  sequence of messages) are proved once in it.
\<close>

section \<open>Writing\<close>

text \<open>
  An outgoing byte stream: what the peer has taken so far, and how much it takes in all before
  the connection breaks (\<open>None\<close>: it does not break). \<open>write_all\<close> writes what still fits.
\<close>

record Writer =
  wr_written :: bytes
  wr_limit :: "nat option"

definition write_all :: "Writer \<Rightarrow> bytes \<Rightarrow> Writer \<times> unit result" where
  "write_all w bs =
     (case wr_limit w of
        None \<Rightarrow> (w\<lparr>wr_written := wr_written w @ bs\<rparr>, Inr ())
      | Some n \<Rightarrow>
          if length (wr_written w) + length bs \<le> n
          then (w\<lparr>wr_written := wr_written w @ bs\<rparr>, Inr ())
          else (w\<lparr>wr_written := take n (wr_written w @ bs)\<rparr>, Inl (External ''broken pipe'')))"

definition send_message :: "Writer \<Rightarrow> bytes \<Rightarrow> Writer \<times> unit result" where
  "send_message writer data =
     (let len = (word_of_nat (length data) :: u32)
      in case write_all writer (to_be_bytes len) of
           (w1, Inl e) \<Rightarrow> (w1, Inl e)
         | (w1, Inr _) \<Rightarrow> write_all w1 data)"

text \<open>The bytes of one frame.\<close>

definition frame_of :: "bytes \<Rightarrow> bytes" where
  "frame_of data = to_be_bytes (word_of_nat (length data)) @ data"

lemma send_message_ok:
  "wr_limit w = None \<Longrightarrow>
   send_message w data = (w\<lparr>wr_written := wr_written w @ frame_of data\<rparr>, Inr ())"
  by (simp add: send_message_def write_all_def frame_of_def)

section \<open>Reading from a buffer\<close>

text \<open>The head of the readers' inner loop: the next complete frame of the buffer and the rest.\<close>

definition next_frame :: "bytes \<Rightarrow> (bytes \<times> bytes) option" where
  "next_frame buffer =
     (if length buffer \<ge> 4
      then let len = unat (from_be_bytes [buffer ! 0, buffer ! 1, buffer ! 2, buffer ! 3])
           in if length buffer < 4 + len then None
              else Some (take len (drop 4 buffer), drop len (drop 4 buffer))
      else None)"

section \<open>Reading from a stream\<close>

text \<open>\<open>read_exact\<close> on the bytes a stream will still deliver.\<close>

definition read_exact :: "nat \<Rightarrow> bytes \<Rightarrow> (bytes \<times> bytes) result" where
  "read_exact n stream =
     (if n \<le> length stream then Inr (take n stream, drop n stream)
      else Inl (External ''early eof''))"

definition receive_message :: "bytes \<Rightarrow> (bytes \<times> bytes) result" where
  "receive_message stream =
     try_bind (read_exact 4 stream) (\<lambda>(len_buf, s1).
       let len = unat (from_be_bytes len_buf) in read_exact len s1)"

section \<open>The contract of a framing\<close>

text \<open>
  \<open>take_frames nx n\<close> reads up to \<open>n\<close> frames; \<open>split_stream\<close> all of them (a stream has at most as
  many frames as bytes).
\<close>

fun take_frames ::
  "(bytes \<Rightarrow> (bytes \<times> bytes) option) \<Rightarrow> nat \<Rightarrow> bytes \<Rightarrow> bytes list \<times> bytes" where
  "take_frames nx 0 buf = ([], buf)"
| "take_frames nx (Suc n) buf =
     (case nx buf of
        None \<Rightarrow> ([], buf)
      | Some (m, rest) \<Rightarrow> (case take_frames nx n rest of (ms, r) \<Rightarrow> (m # ms, r)))"

definition split_stream ::
  "(bytes \<Rightarrow> (bytes \<times> bytes) option) \<Rightarrow> bytes \<Rightarrow> bytes list \<times> bytes" where
  "split_stream nx buf = take_frames nx (length buf) buf"

text \<open>A reader that gets the stream chunk by chunk and keeps the incomplete rest.\<close>

definition feed ::
  "(bytes \<Rightarrow> (bytes \<times> bytes) option) \<Rightarrow> bytes list \<times> bytes \<Rightarrow> bytes \<Rightarrow> bytes list \<times> bytes" where
  "feed nx st chunk =
     (case st of (ms, buf) \<Rightarrow>
        (case split_stream nx (buf @ chunk) of (ms', rest) \<Rightarrow> (ms @ ms', rest)))"

locale framing =
  fixes encode :: "bytes \<Rightarrow> bytes"
    and nx :: "bytes \<Rightarrow> (bytes \<times> bytes) option"
    and fits :: "bytes \<Rightarrow> bool"
  assumes nx_encode: "fits m \<Longrightarrow> nx (encode m @ rest) = Some (m, rest)"
    and nx_progress: "nx buf = Some (m, rest) \<Longrightarrow> length rest < length buf"
    and nx_stable: "nx buf = Some (m, rest) \<Longrightarrow> nx (buf @ later) = Some (m, rest @ later)"
    and nx_Nil: "nx [] = None"
begin

lemma take_frames_enough:
  "length buf \<le> n \<Longrightarrow> take_frames nx n buf = split_stream nx buf"
proof (induction n arbitrary: buf rule: less_induct)
  case (less n)
  show ?case
  proof (cases "nx buf")
    case None
    then show ?thesis by (cases n; cases "length buf") (simp_all add: split_stream_def)
  next
    case (Some p)
    obtain m rest where p: "p = (m, rest)" by force
    have lt: "length rest < length buf" using nx_progress Some p by blast
    obtain i where i: "n = Suc i" using lt less.prems by (cases n) auto
    obtain k where k: "length buf = Suc k" using lt by (cases "length buf") auto
    have "take_frames nx i rest = split_stream nx rest"
      using less.IH [of i rest] lt less.prems i by simp
    moreover have "take_frames nx k rest = split_stream nx rest"
      using less.IH [of k rest] lt less.prems i k by simp
    ultimately show ?thesis using Some p i k by (simp add: split_stream_def)
  qed
qed

lemma split_stream_unfold:
  "split_stream nx buf =
    (case nx buf of
       None \<Rightarrow> ([], buf)
     | Some (m, rest) \<Rightarrow> (case split_stream nx rest of (ms, r) \<Rightarrow> (m # ms, r)))"
proof (cases "nx buf")
  case None
  then show ?thesis by (cases "length buf") (simp_all add: split_stream_def)
next
  case (Some p)
  obtain m rest where p: "p = (m, rest)" by force
  have lt: "length rest < length buf" using nx_progress Some p by blast
  then obtain k where k: "length buf = Suc k" by (cases "length buf") auto
  then have "take_frames nx k rest = split_stream nx rest" using take_frames_enough lt by simp
  then show ?thesis using Some p k by (simp add: split_stream_def)
qed

lemma split_stream_append:
  "split_stream nx (a @ b) =
    (case split_stream nx a of (ms, r) \<Rightarrow>
      (case split_stream nx (r @ b) of (ms', r') \<Rightarrow> (ms @ ms', r')))"
proof (induction "length a" arbitrary: a rule: less_induct)
  case less
  show ?case
  proof (cases "nx a")
    case None
    then have "split_stream nx a = ([], a)" by (subst split_stream_unfold) simp
    then show ?thesis by (simp split: prod.split)
  next
    case (Some p)
    obtain m rest where p: "p = (m, rest)" by force
    have lt: "length rest < length a" using nx_progress Some p by blast
    have "split_stream nx a = (case split_stream nx rest of (ms, r) \<Rightarrow> (m # ms, r))"
      using Some p by (subst split_stream_unfold) simp
    moreover have "split_stream nx (a @ b)
        = (case split_stream nx (rest @ b) of (ms, r) \<Rightarrow> (m # ms, r))"
      using nx_stable Some p by (subst split_stream_unfold) simp
    ultimately show ?thesis using less.hyps [OF lt] by (simp split: prod.splits)
  qed
qed

lemma split_stream_rest: "split_stream nx buf = (ms, r) \<Longrightarrow> nx r = None"
proof (induction "length buf" arbitrary: buf ms rule: less_induct)
  case less
  show ?case
  proof (cases "nx buf")
    case None
    then show ?thesis using less.prems by (subst (asm) split_stream_unfold) simp
  next
    case (Some p)
    obtain m rest where p: "p = (m, rest)" by force
    have "length rest < length buf" using nx_progress Some p by blast
    moreover have "split_stream nx rest = (tl ms, r)"
      using less.prems Some p by (subst (asm) split_stream_unfold) (auto split: prod.splits)
    ultimately show ?thesis using less.hyps by blast
  qed
qed

theorem chunking_irrelevant:
  "foldl (feed nx) ([], []) chunks = split_stream nx (concat chunks)"
proof -
  have "foldl (feed nx) (split_stream nx a) chunks = split_stream nx (a @ concat chunks)" for a
  proof (induction chunks arbitrary: a)
    case (Cons c cs)
    have "feed nx (split_stream nx a) c = split_stream nx (a @ c)"
      by (simp add: feed_def split_stream_append [of a c] split: prod.split)
    then show ?case using Cons.IH [of "a @ c"] by simp
  qed simp
  moreover have "split_stream nx [] = ([], [])" by (simp add: split_stream_def)
  ultimately show ?thesis by (metis append_Nil)
qed

lemma split_stream_encode:
  assumes "list_all fits ms"
  shows "split_stream nx (concat (map encode ms) @ rest) =
    (case split_stream nx rest of (ms', r) \<Rightarrow> (ms @ ms', r))"
  using assms
proof (induction ms)
  case (Cons m ms)
  then show ?case by (subst split_stream_unfold) (simp add: nx_encode split: prod.split)
qed simp

theorem stream_round_trip:
  assumes "list_all fits ms" "concat chunks = concat (map encode ms)"
  shows "foldl (feed nx) ([], []) chunks = (ms, [])"
  using split_stream_encode [OF assms(1), of "[]"] chunking_irrelevant [of chunks] assms(2)
  by (simp add: split_stream_def)

end

section \<open>The two receivers keep the contract\<close>

text \<open>A message fits if its length is a \<open>u32\<close>; \<open>len as u32\<close> drops the higher bits of a longer one.\<close>

definition fits_u32 :: "bytes \<Rightarrow> bool" where
  "fits_u32 m \<longleftrightarrow> length m < 2 ^ 32"

lemma be_prefix: "length buf \<ge> 4 \<Longrightarrow> [buf ! 0, buf ! 1, buf ! 2, buf ! 3] = take 4 buf"
  by (rule nth_equalityI) (auto simp: less_Suc_eq numeral_eq_Suc)

lemma next_frame_alt:
  "next_frame buf =
    (if length buf \<ge> 4 \<and> length buf \<ge> 4 + unat (from_be_bytes (take 4 buf))
     then Some (take (unat (from_be_bytes (take 4 buf))) (drop 4 buf),
                drop (unat (from_be_bytes (take 4 buf))) (drop 4 buf))
     else None)"
proof (cases "length buf \<ge> 4")
  case True
  show ?thesis unfolding next_frame_def be_prefix [OF True] Let_def using True by simp
qed (simp add: next_frame_def)

lemma next_frame_frame_of:
  "fits_u32 m \<Longrightarrow> next_frame (frame_of m @ rest) = Some (m, rest)"
  by (simp add: next_frame_alt frame_of_def fits_u32_def)

interpretation tcp: framing frame_of next_frame fits_u32
proof
  show "next_frame (frame_of m @ rest) = Some (m, rest)" if "fits_u32 m" for m rest
    using that by (rule next_frame_frame_of)
  show "length rest < length buf" if "next_frame buf = Some (m, rest)" for buf m rest
    using that by (auto simp: next_frame_alt split: if_splits)
  show "next_frame (buf @ later) = Some (m, rest @ later)" if "next_frame buf = Some (m, rest)"
    for buf m rest later
    using that by (auto simp: next_frame_alt split: if_splits)
  show "next_frame [] = None" by (simp add: next_frame_alt)
qed

text \<open>A frame found in the buffer is the encoding of its payload.\<close>

lemma next_frame_sound:
  assumes "next_frame buf = Some (p, rest)"
  shows "buf = frame_of p @ rest"
proof -
  define n where "n = unat (from_be_bytes (take 4 buf))"
  have len: "4 \<le> length buf" "4 + n \<le> length buf" and p: "p = take n (drop 4 buf)" "rest = drop n (drop 4 buf)"
    using assms by (auto simp: next_frame_alt n_def split: if_splits)
  have "length p = n" using len p by simp
  then have "frame_of p = take 4 buf @ p"
    using len by (simp add: frame_of_def n_def to_from_be_bytes)
  then show ?thesis unfolding p by (metis append.assoc append_take_drop_id)
qed

definition receive_next :: "bytes \<Rightarrow> (bytes \<times> bytes) option" where
  "receive_next stream = (case receive_message stream of Inl _ \<Rightarrow> None | Inr p \<Rightarrow> Some p)"

lemma receive_next_eq: "receive_next stream = next_frame stream"
  by (auto simp: receive_next_def receive_message_def read_exact_def next_frame_alt Let_def)

interpretation exact: framing frame_of receive_next fits_u32
proof -
  have eq: "receive_next = next_frame" by (rule ext) (rule receive_next_eq)
  show "framing frame_of receive_next fits_u32" unfolding eq by (rule tcp.framing_axioms)
qed

lemma receive_message_frame_of:
  "fits_u32 m \<Longrightarrow> receive_message (frame_of m @ rest) = Inr (m, rest)"
  by (simp add: receive_message_def read_exact_def frame_of_def fits_u32_def)

section \<open>Properties\<close>

text \<open>C10: Messages of less than 4 GiB that are sent one after the other over a connection that does
  not break arrive unchanged and in order, however the network cuts the byte stream into chunks,
  and nothing is left in the receive buffer.\<close>

theorem framed_stream_round_trip:
  assumes "list_all (\<lambda>m. length m < 2 ^ 32) ms" "wr_limit w = None" "wr_written w = []"
    and "concat chunks = wr_written (fold (\<lambda>m w. fst (send_message w m)) ms w)"
  shows "foldl (feed next_frame) ([], []) chunks = (ms, [])"
proof -
  have "wr_limit (fold (\<lambda>m w. fst (send_message w m)) ms w) = None
      \<and> wr_written (fold (\<lambda>m w. fst (send_message w m)) ms w)
        = wr_written w @ concat (map frame_of ms)"
    using assms(2) by (induction ms arbitrary: w) (simp_all add: send_message_ok)
  then have "concat chunks = concat (map frame_of ms)" using assms(3,4) by simp
  moreover have "list_all fits_u32 ms" using assms(1) by (simp add: fits_u32_def [abs_def])
  ultimately show ?thesis by (rule tcp.stream_round_trip [rotated])
qed

theorem framed_stream_round_trip_witness:
  "foldl (feed next_frame) ([], []) [[0, 0, 0], [1, 7, 0, 0, 0, 2], [8], [9]] = ([[7], [8, 9]], [])"
proof (rule framed_stream_round_trip [where w = "\<lparr>wr_written = [], wr_limit = None\<rparr>"])
  show "concat [[0, 0, 0], [1, 7, 0, 0, 0, 2], [8], [9]]
      = wr_written (fold (\<lambda>m w. fst (send_message w m)) [[7], [8, 9]] \<lparr>wr_written = [], wr_limit = None\<rparr>)"
    by (simp add: send_message_ok frame_of_def to_be_bytes_def)
qed simp_all

text \<open>The length prefix is \<open>len as u32\<close>: a message of 4 GiB or more is announced with its
  length modulo \<open>2^32\<close>, so the receiver takes a shorter message and goes on inside the rest.\<close>

theorem oversized_message_truncated:
  assumes "2 ^ 32 \<le> length data"
  shows "next_frame (frame_of data @ rest) =
    Some (take (length data mod 2 ^ 32) data, drop (length data mod 2 ^ 32) data @ rest)"
proof -
  let ?n = "length data mod 2 ^ 32"
  have "unat (word_of_nat (length data) :: u32) = ?n" by (simp add: unat_of_nat take_bit_eq_mod)
  moreover have "?n \<le> length data" by simp
  ultimately show ?thesis by (simp add: next_frame_alt frame_of_def)
qed

theorem oversized_message_truncated_witness:
  "\<exists>data :: bytes. 2 ^ 32 \<le> length data
     \<and> next_frame (frame_of data @ []) =
         Some (take (length data mod 2 ^ 32) data, drop (length data mod 2 ^ 32) data @ [])"
proof -
  obtain data :: bytes where "length data = 2 ^ 32 + 1" using Ex_list_of_length by blast
  then have "2 ^ 32 \<le> length data" by simp
  then show ?thesis using oversized_message_truncated by blast
qed

end
