(* ===== verification/Quality.thy ===== *)
theory Quality
  imports Rust_Time
begin

text \<open>
  \<open>src/common/quality.rs\<close>: the quality modes, the bandwidth monitor with its window of samples,
  and the adaptive controller. All scores are computed in \<open>f32\<close> exactly as the source does;
  clock readings are arguments (\<open>now\<close> at the test of the cooldown, \<open>now'\<close> at the change).
\<close>

datatype QualityMode = Ultra | High | Medium | Low | Minimal

fun resolution_scale :: "QualityMode \<Rightarrow> f32" where
  "resolution_scale Ultra = f32 1"
| "resolution_scale High = f32 1"
| "resolution_scale Medium = f32 (3 / 4)"
| "resolution_scale Low = f32 (1 / 2)"
| "resolution_scale Minimal = f32 (1 / 4)"

fun target_fps :: "QualityMode \<Rightarrow> u32" where
  "target_fps Ultra = 60"
| "target_fps High = 30"
| "target_fps Medium = 30"
| "target_fps Low = 15"
| "target_fps Minimal = 10"

fun compression_level :: "QualityMode \<Rightarrow> int" where
  "compression_level Ultra = 0"
| "compression_level High = 1"
| "compression_level Medium = 3"
| "compression_level Low = 6"
| "compression_level Minimal = 9"

fun keyframe_interval :: "QualityMode \<Rightarrow> u32" where
  "keyframe_interval Ultra = 120"
| "keyframe_interval High = 60"
| "keyframe_interval Medium = 30"
| "keyframe_interval Low = 15"
| "keyframe_interval Minimal = 10"

fun bandwidth_requirement :: "QualityMode \<Rightarrow> f32" where
  "bandwidth_requirement Ultra = f32 50"
| "bandwidth_requirement High = f32 20"
| "bandwidth_requirement Medium = f32 10"
| "bandwidth_requirement Low = f32 5"
| "bandwidth_requirement Minimal = f32 2"

section \<open>The bandwidth monitor\<close>

record BandwidthSample =
  bs_timestamp :: Instant
  bs_bytes_sent :: u64
  bs_rtt :: Duration

record BandwidthMonitor =
  bm_samples :: "BandwidthSample list"
  bm_max_samples :: nat
  bm_last_update :: Instant

definition BandwidthMonitor_new :: "Instant \<Rightarrow> BandwidthMonitor" where
  "BandwidthMonitor_new now = \<lparr>bm_samples = [], bm_max_samples = 30, bm_last_update = now\<rparr>"

text \<open>\<open>now\<close> stamps the sample, \<open>now'\<close> the update.\<close>

definition add_sample ::
  "Instant \<Rightarrow> Instant \<Rightarrow> BandwidthMonitor \<Rightarrow> u64 \<Rightarrow> Duration \<Rightarrow> BandwidthMonitor" where
  "add_sample now now' self bytes_sent rtt =
     (let sample = \<lparr>bs_timestamp = now, bs_bytes_sent = bytes_sent, bs_rtt = rtt\<rparr>;
          pushed = bm_samples self @ [sample];
          samples = (if length pushed > bm_max_samples self then tl pushed else pushed)
      in self\<lparr>bm_samples := samples, bm_last_update := now'\<rparr>)"

definition get_bandwidth_mbps :: "BandwidthMonitor \<Rightarrow> f32 option" where
  "get_bandwidth_mbps self =
     (let samples = bm_samples self
      in if length samples < 2 then None
         else let duration = duration_since (bs_timestamp (last samples)) (bs_timestamp (hd samples))
              in if flt (as_secs_f32 duration) (f32 (1 / 10)) then None
                 else let total_bytes = sum_list (map bs_bytes_sent samples)
                      in Some (div32 (mul32 (nat_as_f32 (unat total_bytes)) (f32 8))
                                     (mul32 (as_secs_f32 duration) (f32 1000000))))"

definition get_average_rtt :: "BandwidthMonitor \<Rightarrow> Duration option" where
  "get_average_rtt self =
     (let samples = bm_samples self
      in if samples = [] then None
         else let total_millis =
                    (sum_list (map (\<lambda>s. word_of_nat (as_millis (bs_rtt s))) samples) :: u64)
              in Some (from_millis (total_millis div word_of_nat (length samples))))"

definition get_packet_loss_rate :: "BandwidthMonitor \<Rightarrow> f32" where
  "get_packet_loss_rate self =
     (let samples = bm_samples self
      in if length samples < 5 then f32 0
         else let avg_rtt = (case get_average_rtt self of
                               None \<Rightarrow> from_millis 50 | Some d \<Rightarrow> d);
                  sq = (\<lambda>s. let diff = sub32 (as_secs_f32 (bs_rtt s)) (as_secs_f32 avg_rtt)
                            in mul32 diff diff);
                  variance = div32 (foldl add32 (f32 0) (map sq samples))
                                   (nat_as_f32 (length samples))
              in fmin (mul32 variance (f32 100)) (f32 20))"

section \<open>The adaptive controller\<close>

record AdaptiveQualityController =
  qc_current_quality :: QualityMode
  qc_bandwidth_monitor :: BandwidthMonitor
  qc_last_quality_change :: Instant
  qc_quality_change_cooldown :: Duration
  qc_forced_quality :: "QualityMode option"

record QualityMetrics =
  qm_quality :: QualityMode
  qm_bandwidth_mbps :: f32
  qm_average_rtt :: Duration
  qm_packet_loss :: f32

definition AdaptiveQualityController_new ::
  "Instant \<Rightarrow> Instant \<Rightarrow> AdaptiveQualityController" where
  "AdaptiveQualityController_new now now' =
     \<lparr>qc_current_quality = High,
      qc_bandwidth_monitor = BandwidthMonitor_new now,
      qc_last_quality_change = now',
      qc_quality_change_cooldown = from_secs 2,
      qc_forced_quality = None\<rparr>"

definition force_quality ::
  "AdaptiveQualityController \<Rightarrow> QualityMode option \<Rightarrow> AdaptiveQualityController" where
  "force_quality self quality =
     (let self' = self\<lparr>qc_forced_quality := quality\<rparr>
      in case quality of None \<Rightarrow> self' | Some q \<Rightarrow> self'\<lparr>qc_current_quality := q\<rparr>)"

definition update_metrics ::
  "Instant \<Rightarrow> Instant \<Rightarrow> AdaptiveQualityController \<Rightarrow> u64 \<Rightarrow> Duration \<Rightarrow> AdaptiveQualityController" where
  "update_metrics now now' self bytes_sent rtt =
     self\<lparr>qc_bandwidth_monitor := add_sample now now' (qc_bandwidth_monitor self) bytes_sent rtt\<rparr>"

definition total_score :: "f32 \<Rightarrow> Duration \<Rightarrow> f32 \<Rightarrow> f32" where
  "total_score bandwidth rtt packet_loss =
     (let bandwidth_score = fmin (div32 bandwidth (f32 50)) (f32 1);
          rtt_score = sub32 (f32 1) (fmin (div32 (nat_as_f32 (as_millis rtt)) (f32 200)) (f32 1));
          loss_score = sub32 (f32 1) (fmin (div32 packet_loss (f32 10)) (f32 1))
      in add32 (add32 (mul32 bandwidth_score (f32 (1 / 2))) (mul32 rtt_score (f32 (3 / 10))))
               (mul32 loss_score (f32 (1 / 5))))"

definition quality_of_score :: "f32 \<Rightarrow> QualityMode" where
  "quality_of_score s =
     (if fle (f32 (4 / 5)) s then Ultra
      else if fle (f32 (3 / 5)) s then High
      else if fle (f32 (2 / 5)) s then Medium
      else if fle (f32 (1 / 5)) s then Low
      else Minimal)"

definition calculate_quality :: "f32 \<Rightarrow> Duration \<Rightarrow> f32 \<Rightarrow> QualityMode" where
  "calculate_quality bandwidth rtt packet_loss =
     quality_of_score (total_score bandwidth rtt packet_loss)"

definition get_recommended_quality ::
  "Instant \<Rightarrow> Instant \<Rightarrow> AdaptiveQualityController \<Rightarrow> AdaptiveQualityController \<times> QualityMode" where
  "get_recommended_quality now now' self =
     (case qc_forced_quality self of
        Some quality \<Rightarrow> (self, quality)
      | None \<Rightarrow>
          if elapsed (qc_last_quality_change self) now < qc_quality_change_cooldown self
          then (self, qc_current_quality self)
          else let monitor = qc_bandwidth_monitor self;
                   bandwidth = (case get_bandwidth_mbps monitor of None \<Rightarrow> f32 10 | Some b \<Rightarrow> b);
                   avg_rtt = (case get_average_rtt monitor of
                                None \<Rightarrow> from_millis 50 | Some d \<Rightarrow> d);
                   packet_loss = get_packet_loss_rate monitor;
                   recommended = calculate_quality bandwidth avg_rtt packet_loss;
                   self' = (if recommended \<noteq> qc_current_quality self
                            then self\<lparr>qc_current_quality := recommended,
                                      qc_last_quality_change := now'\<rparr>
                            else self)
               in (self', qc_current_quality self'))"

definition get_current_quality :: "AdaptiveQualityController \<Rightarrow> QualityMode" where
  "get_current_quality self = qc_current_quality self"

definition get_metrics :: "AdaptiveQualityController \<Rightarrow> QualityMetrics" where
  "get_metrics self =
     (let monitor = qc_bandwidth_monitor self
      in \<lparr>qm_quality = qc_current_quality self,
          qm_bandwidth_mbps = (case get_bandwidth_mbps monitor of None \<Rightarrow> f32 0 | Some b \<Rightarrow> b),
          qm_average_rtt = (case get_average_rtt monitor of
                              None \<Rightarrow> from_millis 0 | Some d \<Rightarrow> d),
          qm_packet_loss = get_packet_loss_rate monitor\<rparr>)"

section \<open>Modes are ordered by how much they ask of the network\<close>

fun mode_rank :: "QualityMode \<Rightarrow> nat" where
  "mode_rank Ultra = 4"
| "mode_rank High = 3"
| "mode_rank Medium = 2"
| "mode_rank Low = 1"
| "mode_rank Minimal = 0"

lemma mode_rank_inj: "mode_rank q = mode_rank r \<Longrightarrow> q = r"
  by (cases q; cases r) simp_all

instantiation QualityMode :: linorder
begin

definition less_eq_QualityMode :: "QualityMode \<Rightarrow> QualityMode \<Rightarrow> bool" where
  "q \<le> r \<longleftrightarrow> mode_rank q \<le> mode_rank r"

definition less_QualityMode :: "QualityMode \<Rightarrow> QualityMode \<Rightarrow> bool" where
  "q < r \<longleftrightarrow> mode_rank q < mode_rank r"

instance
  by standard (auto simp: less_eq_QualityMode_def less_QualityMode_def intro: mode_rank_inj)

end

section \<open>The window of samples\<close>

definition monitor_push ::
  "BandwidthSample \<times> Instant \<Rightarrow> BandwidthMonitor \<Rightarrow> BandwidthMonitor" where
  "monitor_push e m = (case e of (s, now') \<Rightarrow>
     add_sample (bs_timestamp s) now' m (bs_bytes_sent s) (bs_rtt s))"

definition monitor_inv :: "BandwidthMonitor \<Rightarrow> bool" where
  "monitor_inv m \<longleftrightarrow> bm_max_samples m = 30 \<and> length (bm_samples m) \<le> 30"

lemma monitor_inv_new [simp]: "monitor_inv (BandwidthMonitor_new now)"
  by (simp add: monitor_inv_def BandwidthMonitor_new_def)

lemma monitor_inv_add_sample [simp]: "monitor_inv m \<Longrightarrow> monitor_inv (add_sample now now' m b r)"
  by (auto simp: monitor_inv_def add_sample_def Let_def)

lemma add_sample_window:
  assumes "monitor_inv m"
  shows "bm_samples (add_sample now now' m b r) =
    lastn 30 (bm_samples m @ [\<lparr>bs_timestamp = now, bs_bytes_sent = b, bs_rtt = r\<rparr>])"
  using assms by (auto simp: monitor_inv_def add_sample_def Let_def lastn_push)

lemma sample_eta [simp]:
  "\<lparr>bs_timestamp = bs_timestamp s, bs_bytes_sent = bs_bytes_sent s, bs_rtt = bs_rtt s\<rparr> = s"
  by (cases s) simp

interpretation mon: sliding_window
  "\<lambda>s. monitor_push (s, now')" bm_samples monitor_inv 30 for now'
  by unfold_locales (simp_all add: monitor_push_def add_sample_window)

section \<open>The score, exactly rounded\<close>

abbreviation R32 :: "rat \<Rightarrow> rat" where "R32 \<equiv> round_fmt f32_fmt"

lemma f32_consts:
  "f32 50 = Fin 50" "f32 200 = Fin 200" "f32 10 = Fin 10" "f32 100 = Fin 100" "f32 20 = Fin 20"
  by code_simp+

lemma R32_consts_unit:
  "0 \<le> R32 (1 / 2)" "R32 (1 / 2) \<le> 1" "0 \<le> R32 (3 / 10)" "R32 (3 / 10) \<le> 1"
  "0 \<le> R32 (1 / 5)" "R32 (1 / 5) \<le> 1"
  using round_0_1 [of f32_fmt] by simp_all

definition unit_score :: "rat \<Rightarrow> rat" where
  "unit_score x = min (R32 x) 1"

lemma unit_score_bounds: "0 \<le> x \<Longrightarrow> 0 \<le> unit_score x \<and> unit_score x \<le> 1"
  by (simp add: unit_score_def round_nonneg)

lemma unit_score_mono: "x \<le> y \<Longrightarrow> unit_score x \<le> unit_score y"
  by (simp add: unit_score_def min.coboundedI1 min.coboundedI2 min_le_iff_disj round_mono)

definition exact_score :: "rat \<Rightarrow> rat \<Rightarrow> rat \<Rightarrow> rat" where
  "exact_score b m l =
     R32 (R32 (R32 (unit_score (b / 50) * R32 (1 / 2))
             + R32 (R32 (1 - unit_score (m / 200)) * R32 (3 / 10)))
        + R32 (R32 (1 - unit_score (l / 10)) * R32 (1 / 5)))"

lemma exact_score_mono:
  assumes "b \<le> b'" "0 \<le> m'" "m' \<le> m" "0 \<le> l'" "l' \<le> l"
  shows "exact_score b m l \<le> exact_score b' m' l'"
proof -
  have u: "unit_score (b / 50) \<le> unit_score (b' / 50)" "unit_score (m' / 200) \<le> unit_score (m / 200)"
    "unit_score (l' / 10) \<le> unit_score (l / 10)"
    using assms by (intro unit_score_mono divide_right_mono; simp)+
  show ?thesis
    unfolding exact_score_def using u R32_consts_unit
    by (intro round_mono add_mono mult_right_mono diff_mono order_refl fmt_ok_f32)
qed

text \<open>Products of values in \<open>[0, 1]\<close> and sums of values in \<open>[0, 2]\<close> stay finite.\<close>

lemma f32_small: "0 \<le> x \<Longrightarrow> x \<le> 4 \<Longrightarrow> f32 x = Fin (R32 x)"
  using pow2_mono [of 2 127] by (intro fround_Fin) (auto simp: pow2_def)

lemma mul32_unit:
  assumes "0 \<le> x" "x \<le> 1" "0 \<le> y" "y \<le> 1"
  shows "mul32 (Fin x) (Fin y) = Fin (R32 (x * y))" "0 \<le> R32 (x * y)" "R32 (x * y) \<le> 1"
proof -
  have "0 \<le> x * y" "x * y \<le> 1" using assms by (auto intro: mult_le_one)
  then show "mul32 (Fin x) (Fin y) = Fin (R32 (x * y))" "0 \<le> R32 (x * y)" "R32 (x * y) \<le> 1"
    using round_0_1 [of f32_fmt "x * y"] by (auto intro: f32_small)
qed

lemma add32_small:
  assumes "0 \<le> x" "x \<le> 2" "0 \<le> y" "y \<le> 2"
  shows "add32 (Fin x) (Fin y) = Fin (R32 (x + y))" "x + y \<le> 2 \<Longrightarrow> R32 (x + y) \<le> 2"
    "0 \<le> R32 (x + y)"
proof -
  show "add32 (Fin x) (Fin y) = Fin (R32 (x + y))" using assms by (simp add: f32_small)
  show "0 \<le> R32 (x + y)" using assms by (intro round_nonneg) simp
  show "R32 (x + y) \<le> 2" if "x + y \<le> 2"
    using round_abs_le_pow2 [of f32_fmt "x + y" 1] assms that
    by (simp add: pow2_def abs_le_iff)
qed

lemma score_term:
  assumes "0 \<le> x" "0 < c"
  shows "fmin (div32 (Fin x) (Fin c)) (f32 1) = Fin (unit_score (x / c))"
  using assms by (simp add: fmin_unit unit_score_def)

lemma penalty_term:
  assumes "0 \<le> x"
  shows "sub32 (f32 1) (Fin (unit_score x)) = Fin (R32 (1 - unit_score x))"
    "0 \<le> R32 (1 - unit_score x)" "R32 (1 - unit_score x) \<le> 1"
  using unit_score_bounds [OF assms] round_0_1 [of f32_fmt "1 - unit_score x"]
  by (auto simp: fround_1 f32_small)

lemma total_score_eq:
  assumes b: "0 \<le> b" and m: "nat_as_f32 (as_millis rtt) = Fin m" "0 \<le> m" and l: "0 \<le> l"
  shows "total_score (Fin b) rtt (Fin l) = Fin (exact_score b m l)"
proof -
  note bnd = unit_score_bounds [of "b / 50"] penalty_term [of "m / 200"] penalty_term [of "l / 10"]
    R32_consts_unit
  note m1 = mul32_unit [of "unit_score (b / 50)" "R32 (1 / 2)"]
    and m2 = mul32_unit [of "R32 (1 - unit_score (m / 200))" "R32 (3 / 10)"]
    and m3 = mul32_unit [of "R32 (1 - unit_score (l / 10))" "R32 (1 / 5)"]
  let ?p = "R32 (unit_score (b / 50) * R32 (1 / 2))"
    and ?q = "R32 (R32 (1 - unit_score (m / 200)) * R32 (3 / 10))"
    and ?r = "R32 (R32 (1 - unit_score (l / 10)) * R32 (1 / 5))"
  have pq: "add32 (Fin ?p) (Fin ?q) = Fin (R32 (?p + ?q))" "R32 (?p + ?q) \<le> 2" "0 \<le> R32 (?p + ?q)"
    using add32_small [of ?p ?q] m1 m2 bnd assms by auto
  have pqr: "add32 (Fin (R32 (?p + ?q))) (Fin ?r) = Fin (R32 (R32 (?p + ?q) + ?r))"
    using add32_small [of "R32 (?p + ?q)" ?r] pq m3 bnd assms by auto
  have c: "f32 (1 / 2) = Fin (R32 (1 / 2))" "f32 (3 / 10) = Fin (R32 (3 / 10))"
    "f32 (1 / 5) = Fin (R32 (1 / 5))"
    by (simp_all add: f32_small)
  show ?thesis
    unfolding total_score_def Let_def f32_consts m(1) exact_score_def
    using assms bnd m1 m2 m3 pq pqr
    by (simp add: score_term c del: fadd.simps fmul.simps fdiv.simps fsub_Fin)
qed

text \<open>A duration has at most \<open>u64::MAX\<close> seconds, so its milliseconds never overflow an \<open>f32\<close>.\<close>

definition Duration_ok :: "Duration \<Rightarrow> bool" where
  "Duration_ok d \<longleftrightarrow> d < 2 ^ 64 * 10 ^ 9"

lemma millis_f32:
  assumes "Duration_ok d"
  shows "nat_as_f32 (as_millis d) = Fin (R32 (of_nat (as_millis d)))"
proof (rule fround_Fin)
  have "as_millis d < 2 ^ 74" using assms by (simp add: as_millis_def Duration_ok_def)
  then have "(of_nat (as_millis d) :: rat) < of_nat (2 ^ 74)" by (simp only: of_nat_less_iff)
  also have "\<dots> \<le> pow2 (emax f32_fmt)" by (simp add: pow2_def)
  finally show "\<bar>of_nat (as_millis d)\<bar> \<le> pow2 (emax f32_fmt)" by simp
qed simp

lemma quality_of_score_mono: "x \<le> y \<Longrightarrow> quality_of_score (Fin x) \<le> quality_of_score (Fin y)"
proof -
  assume "x \<le> y"
  moreover have "f32 (4 / 5) = Fin (R32 (4 / 5))" "f32 (3 / 5) = Fin (R32 (3 / 5))"
    "f32 (2 / 5) = Fin (R32 (2 / 5))" "f32 (1 / 5) = Fin (R32 (1 / 5))"
    by (simp_all add: f32_small)
  ultimately show ?thesis by (auto simp: quality_of_score_def less_eq_QualityMode_def)
qed

lemma calculate_quality_mono:
  assumes "0 \<le> b" "b \<le> b'" "rtt' \<le> rtt" "0 \<le> l'" "l' \<le> l" "Duration_ok rtt"
  shows "calculate_quality (Fin b) rtt (Fin l) \<le> calculate_quality (Fin b') rtt' (Fin l')"
proof -
  have ok: "Duration_ok rtt'" using assms by (simp add: Duration_ok_def)
  have m: "as_millis rtt' \<le> as_millis rtt" using assms(3) by (simp add: as_millis_def div_le_mono)
  have nn: "0 \<le> R32 (of_nat n)" for n :: nat by (rule round_nonneg) simp
  have "exact_score b (R32 (of_nat (as_millis rtt))) l \<le> exact_score b' (R32 (of_nat (as_millis rtt'))) l'"
    using assms m nn by (intro exact_score_mono round_mono) auto
  then show ?thesis
    using assms ok nn by (simp add: calculate_quality_def total_score_eq millis_f32 quality_of_score_mono)
qed

section \<open>The loss estimate\<close>

lemma nat_f32_Fin:
  assumes "n < 2 ^ 100"
  shows "nat_as_f32 n = Fin (R32 (of_nat n))"
proof (rule fround_Fin)
  have "(of_nat n :: rat) < of_nat (2 ^ 100)" using assms by (simp only: of_nat_less_iff)
  also have "\<dots> \<le> pow2 (emax f32_fmt)" by (simp add: pow2_def)
  finally show "\<bar>of_nat n\<bar> \<le> pow2 (emax f32_fmt)" by simp
qed simp

lemma as_secs_f32_Fin:
  assumes "Duration_ok d"
  shows "\<exists>r. as_secs_f32 d = Fin r"
proof -
  let ?s = "R32 (of_nat (d div 10 ^ 9))" and ?n = "R32 (of_nat (d mod 10 ^ 9))"
    and ?g = "R32 (of_nat (10 ^ 9))"
  have s: "d div 10 ^ 9 < 2 ^ 64" using assms by (simp add: Duration_ok_def less_mult_imp_div_less)
  then have fs: "nat_as_f32 (d div 10 ^ 9) = Fin ?s" by (intro nat_f32_Fin) simp
  have n: "d mod 10 ^ 9 < 10 ^ 9" by simp
  then have fn: "nat_as_f32 (d mod 10 ^ 9) = Fin ?n" by (intro nat_f32_Fin) simp
  have "f32 1000000000 = Fin 1000000000" "R32 1000000000 = 1000000000" by code_simp+
  then have fg: "nat_as_f32 (10 ^ 9) = Fin (10 ^ 9)" and g: "?g = 10 ^ 9" by simp_all
  have "?n \<le> ?g" using n by (intro round_mono) (simp_all del: of_nat_power add: less_imp_le)
  moreover have "0 \<le> ?n" by (intro round_nonneg) simp
  ultimately have q: "0 \<le> ?n / 10 ^ 9" "?n / 10 ^ 9 \<le> 1" using g by (simp_all add: field_simps)
  have "\<bar>(of_nat (d div 10 ^ 9) :: rat)\<bar> \<le> pow2 64"
    using s by (simp add: pow2_def)
  then have "\<bar>?s\<bar> \<le> pow2 64" by (intro round_abs_le_pow2) auto
  moreover have "0 \<le> R32 (?n / 10 ^ 9)" "R32 (?n / 10 ^ 9) \<le> 1" using q round_0_1 by auto
  ultimately have "\<bar>?s + R32 (?n / 10 ^ 9)\<bar> \<le> pow2 64 + 1" by linarith
  also have "\<dots> \<le> pow2 (emax f32_fmt)" by (simp add: pow2_def)
  finally show ?thesis using q
    unfolding as_secs_f32_def fs fn fg by (simp add: f32_small fround_Fin)
qed

lemma average_rtt_ok: "get_average_rtt m = Some d \<Longrightarrow> Duration_ok d"
proof -
  have "unat (w :: u64) * 10 ^ 6 < 2 ^ 64 * 10 ^ 9" for w
    using unsigned_less [of w, where ?'a = nat] by simp
  then show "get_average_rtt m = Some d \<Longrightarrow> Duration_ok d"
    by (auto simp: get_average_rtt_def Let_def Duration_ok_def from_millis_def split: if_splits)
qed

lemma nat_f32_exact:
  assumes "n < 2 ^ 24"
  shows "nat_as_f32 n = Fin (of_nat n)"
  using fround_of_int [of f32_fmt "int n"] assms by simp

lemma square_nonneg:
  assumes "Duration_ok d" "Duration_ok e"
  shows "fp_nonneg (let diff = sub32 (as_secs_f32 d) (as_secs_f32 e) in mul32 diff diff)"
proof -
  obtain r a where "as_secs_f32 d = Fin r" "as_secs_f32 e = Fin a"
    using as_secs_f32_Fin assms by blast
  then show ?thesis by (cases "f32 (r - a)") auto
qed

lemma packet_loss_bounds:
  assumes "monitor_inv m" "\<And>s. s \<in> set (bm_samples m) \<Longrightarrow> Duration_ok (bs_rtt s)"
  shows "\<exists>r. get_packet_loss_rate m = Fin r \<and> 0 \<le> r \<and> r \<le> 20"
proof (cases "length (bm_samples m) < 5")
  case True
  then show ?thesis by (simp add: get_packet_loss_rate_def)
next
  case False
  let ?n = "length (bm_samples m)"
  obtain avg where avg: "get_average_rtt m = Some avg"
    using False by (cases "bm_samples m") (auto simp: get_average_rtt_def Let_def)
  let ?sq = "\<lambda>s. let diff = sub32 (as_secs_f32 (bs_rtt s)) (as_secs_f32 avg) in mul32 diff diff"
  let ?v = "div32 (foldl add32 (f32 0) (map ?sq (bm_samples m))) (nat_as_f32 ?n)"
  have "fp_nonneg (foldl add32 (f32 0) (map ?sq (bm_samples m)))"
    using assms(2) average_rtt_ok [OF avg]
    by (intro fp_nonneg_foldl) (auto simp: list_all_iff intro: square_nonneg)
  moreover have "nat_as_f32 ?n = Fin (of_nat ?n)" "0 < ?n"
    using assms(1) False by (auto simp: monitor_inv_def intro: nat_f32_exact)
  ultimately have "fp_nonneg ?v" by simp
  then have "fp_nonneg (mul32 ?v (f32 100))" by (simp add: f32_consts)
  then have "\<exists>r. fmin (mul32 ?v (f32 100)) (Fin 20) = Fin r \<and> 0 \<le> r \<and> r \<le> 20"
    by (rule fmin_bounded) simp
  then show ?thesis using False
    unfolding get_packet_loss_rate_def Let_def avg option.case f32_consts(5) by simp
qed

section \<open>Runs of the controller\<close>

text \<open>
  The calls a session makes of its controller: a recommendation (with its two clock readings), a
  measurement, or a mode forced by the client (\<open>Some\<close>) or released (\<open>None\<close>).
\<close>

datatype ctl_event =
    Recommend Instant Instant
  | Measure Instant Instant u64 Duration
  | Force "QualityMode option"

fun ctl_step :: "AdaptiveQualityController \<Rightarrow> ctl_event \<Rightarrow> AdaptiveQualityController" where
  "ctl_step c (Recommend now now') = fst (get_recommended_quality now now' c)"
| "ctl_step c (Measure now now' b rtt) = update_metrics now now' c b rtt"
| "ctl_step c (Force q) = force_quality c q"

fun is_Force :: "ctl_event \<Rightarrow> bool" where
  "is_Force (Force q) \<longleftrightarrow> True"
| "is_Force _ \<longleftrightarrow> False"

text \<open>The second clock reading of a call; a forced mode reads no clock.\<close>

fun event_time :: "ctl_event \<Rightarrow> Instant" where
  "event_time (Recommend now now') = now'"
| "event_time (Measure now now' b rtt) = now'"
| "event_time (Force q) = 0"

text \<open>The instants at which a run changes the mode by itself, that is, by a call that forces none.\<close>

fun change_times :: "AdaptiveQualityController \<Rightarrow> ctl_event list \<Rightarrow> Instant list" where
  "change_times c [] = []"
| "change_times c (e # es) =
     (let c' = ctl_step c e
      in (if qc_current_quality c' \<noteq> qc_current_quality c \<and> \<not> is_Force e then [event_time e] else [])
         @ change_times c' es)"

text \<open>Consecutive instants, the first one after \<open>t\<close>, are at least \<open>d\<close> apart.\<close>

fun spaced :: "nat \<Rightarrow> Instant \<Rightarrow> Instant list \<Rightarrow> bool" where
  "spaced d t [] \<longleftrightarrow> True"
| "spaced d t (u # us) \<longleftrightarrow> t + d \<le> u \<and> spaced d u us"

fun clock_ok :: "ctl_event \<Rightarrow> bool" where
  "clock_ok (Recommend now now') \<longleftrightarrow> now \<le> now'"
| "clock_ok (Measure _ _ _ _) \<longleftrightarrow> True"
| "clock_ok (Force _) \<longleftrightarrow> True"

lemma ctl_step_cooldown [simp]: "qc_quality_change_cooldown (ctl_step c e) = qc_quality_change_cooldown c"
  by (cases e; auto simp: get_recommended_quality_def update_metrics_def force_quality_def Let_def
      split: option.splits)

lemma ctl_step_forced: "\<not> is_Force e \<Longrightarrow> qc_forced_quality (ctl_step c e) = qc_forced_quality c"
  by (cases e; auto simp: get_recommended_quality_def update_metrics_def Let_def split: option.splits)

lemma ctl_step_change:
  assumes "clock_ok e" "0 < qc_quality_change_cooldown c"
  shows "if qc_current_quality (ctl_step c e) \<noteq> qc_current_quality c \<and> \<not> is_Force e
    then qc_last_quality_change (ctl_step c e) = event_time e
      \<and> qc_last_quality_change c + qc_quality_change_cooldown c \<le> event_time e
    else qc_last_quality_change (ctl_step c e) = qc_last_quality_change c"
  using assms
  by (cases e) (auto simp: get_recommended_quality_def update_metrics_def force_quality_def Let_def elapsed_def
      duration_since_def split: option.splits)

lemma change_times_spaced:
  assumes "list_all clock_ok es" "0 < qc_quality_change_cooldown c"
  shows "spaced (qc_quality_change_cooldown c) (qc_last_quality_change c) (change_times c es)"
  using assms
proof (induction es arbitrary: c)
  case (Cons e es)
  note step = ctl_step_change [of e c]
  have "spaced (qc_quality_change_cooldown c) (qc_last_quality_change (ctl_step c e))
      (change_times (ctl_step c e) es)"
    using Cons.IH [of "ctl_step c e"] Cons.prems by simp
  then show ?case using step Cons.prems by (auto simp: Let_def split: if_splits)
qed simp

lemma forced_recommend:
  "qc_forced_quality c = Some q \<Longrightarrow> get_recommended_quality now now' c = (c, q)"
  by (simp add: get_recommended_quality_def)

lemma forced_run:
  "list_all (\<lambda>e. \<not> is_Force e) es \<Longrightarrow> qc_forced_quality (foldl ctl_step c es) = qc_forced_quality c"
  by (induction es arbitrary: c) (simp_all add: ctl_step_forced)

lemma forced_mode_is_kept:
  assumes "list_all (\<lambda>e. \<not> is_Force e) es"
  shows "snd (get_recommended_quality now now' (foldl ctl_step (force_quality c (Some q)) es)) = q"
proof -
  have "qc_forced_quality (foldl ctl_step (force_quality c (Some q)) es) = Some q"
    using assms by (simp add: forced_run force_quality_def Let_def)
  then show ?thesis by (simp add: forced_recommend)
qed

section \<open>Properties\<close>

text \<open>C20: The mode chosen from a measurement never gets worse when the network gets better: more
  bandwidth, a shorter round trip and less loss give the same or a higher mode, for every input,
  in the rounded \<open>f32\<close> arithmetic of the code.\<close>

theorem better_network_no_worse_mode:
  assumes "0 \<le> b" "b \<le> b'" "rtt' \<le> rtt" "0 \<le> l'" "l' \<le> l" "Duration_ok rtt"
  shows "calculate_quality (Fin b) rtt (Fin l) \<le> calculate_quality (Fin b') rtt' (Fin l')"
  by (rule calculate_quality_mono [OF assms])

theorem better_network_no_worse_mode_witness:
  "calculate_quality (Fin 5) (from_millis 150) (Fin 4)
     \<le> calculate_quality (Fin 30) (from_millis 20) (Fin 0)"
  by (rule better_network_no_worse_mode) (simp_all add: from_millis_def Duration_ok_def)

text \<open>C21: Whatever is measured, asked for and forced, the changes of mode that a controller makes by
  itself are at least two seconds apart, and the first one is that far from the creation: the client's
  forced modes, which take effect at once and are not counted, do not shorten the pause. And a forced
  mode is what the controller recommends from then on, until the client forces another or releases it.\<close>

theorem mode_changes_two_seconds_apart:
  assumes "list_all clock_ok es"
  shows "spaced (from_secs 2) t' (change_times (AdaptiveQualityController_new t t') es)
    \<and> (\<forall>q es' now now'. list_all (\<lambda>e. \<not> is_Force e) es' \<longrightarrow>
         snd (get_recommended_quality now now'
           (foldl ctl_step (AdaptiveQualityController_new t t') (es @ Force (Some q) # es'))) = q)"
proof
  show "spaced (from_secs 2) t' (change_times (AdaptiveQualityController_new t t') es)"
    using change_times_spaced [OF assms, of "AdaptiveQualityController_new t t'"]
    by (simp add: AdaptiveQualityController_new_def from_secs_def)
qed (simp add: forced_mode_is_kept)

theorem mode_changes_two_seconds_apart_witness:
  "spaced (from_secs 2) 0
     (change_times (AdaptiveQualityController_new 0 0)
        [Recommend 1000000000 1000000001, Measure 1500000000 1500000001 9 3, Force (Some Low), Force None,
         Recommend 2500000000 2500000001])
   \<and> snd (get_recommended_quality 3 4 (foldl ctl_step (AdaptiveQualityController_new 0 0)
        ([Recommend 1000000000 1000000001, Measure 1500000000 1500000001 9 3, Force (Some Low), Force None,
          Recommend 2500000000 2500000001] @ Force (Some Low) # [Recommend 2500000003 2500000004]))) = Low"
proof -
  let ?es = "[Recommend 1000000000 1000000001, Measure 1500000000 1500000001 9 3, Force (Some Low),
    Force None, Recommend 2500000000 2500000001]"
  have "list_all clock_ok ?es" by simp
  note both = mode_changes_two_seconds_apart [OF this, of 0 0]
  have "list_all (\<lambda>e. \<not> is_Force e) [Recommend 2500000003 2500000004]" by simp
  then show ?thesis using both by blast
qed

text \<open>C29: The estimated packet loss of a monitor that has received any samples is a finite number
  between 0 and 20 percent; no measurement makes it infinite or \<open>NaN\<close>.\<close>

theorem loss_estimate_bounded:
  assumes "list_all (\<lambda>s. Duration_ok (bs_rtt s)) ss"
  shows "\<exists>r. get_packet_loss_rate
      (fold (\<lambda>s. monitor_push (s, upd)) ss (BandwidthMonitor_new now)) = Fin r \<and> 0 \<le> r \<and> r \<le> 20"
proof (rule packet_loss_bounds)
  let ?m = "fold (\<lambda>s. monitor_push (s, upd)) ss (BandwidthMonitor_new now)"
  show "monitor_inv ?m" by (rule mon.invar_fold) simp
  have "bm_samples ?m = lastn 30 ss"
    using mon.contents_fold [of "BandwidthMonitor_new now" "[]" upd ss]
    by (simp add: BandwidthMonitor_new_def monitor_inv_def)
  then have "set (bm_samples ?m) \<subseteq> set ss" by (simp add: lastn_def set_drop_subset)
  then show "Duration_ok (bs_rtt s)" if "s \<in> set (bm_samples ?m)" for s
    using that assms by (auto simp: list_all_iff)
qed

theorem loss_estimate_bounded_witness:
  "\<exists>r. get_packet_loss_rate
      (fold (\<lambda>s. monitor_push (s, 9))
        (map (\<lambda>i. \<lparr>bs_timestamp = i, bs_bytes_sent = 5, bs_rtt = i * 1000\<rparr>) [0, 1, 2, 3, 4, 5])
        (BandwidthMonitor_new 0)) = Fin r
    \<and> 0 \<le> r \<and> r \<le> 20"
  by (rule loss_estimate_bounded) (simp add: Duration_ok_def)

text \<open>Without a single measurement the controller starts at \<open>High\<close> and leaves it after the
  cooldown: the assumed 10 Mbit/s and 50 ms score as \<open>Medium\<close>.\<close>

theorem unmeasured_controller_drops_to_medium:
  assumes "t' + from_secs 2 \<le> now"
  shows "get_current_quality (AdaptiveQualityController_new t t') = High
    \<and> snd (get_recommended_quality now now' (AdaptiveQualityController_new t t')) = Medium"
proof -
  have "calculate_quality (f32 10) (from_millis 50) (f32 0) = Medium"
    unfolding calculate_quality_def total_score_def as_millis_from_millis by code_simp
  then show ?thesis using assms
    by (simp add: get_recommended_quality_def AdaptiveQualityController_new_def
        BandwidthMonitor_new_def get_bandwidth_mbps_def get_average_rtt_def get_packet_loss_rate_def
        get_current_quality_def elapsed_def duration_since_def Let_def)
qed

theorem unmeasured_controller_drops_to_medium_witness:
  "snd (get_recommended_quality 3000000000 3000000000 (AdaptiveQualityController_new 0 0)) = Medium"
  using unmeasured_controller_drops_to_medium [of 0 3000000000 0 3000000000]
  by (simp add: from_secs_def)

text \<open>The monitor keeps exactly the last thirty samples it was given, oldest first.\<close>

theorem monitor_keeps_last_thirty:
  "bm_samples (fold (\<lambda>s. monitor_push (s, upd)) ss (BandwidthMonitor_new now)) = lastn 30 ss"
  using mon.contents_fold [of "BandwidthMonitor_new now" "[]" upd ss]
  by (simp add: BandwidthMonitor_new_def monitor_inv_def)

end
