(* ===== verification/Frame_Processor.thy ===== *)
theory Frame_Processor
  imports Prelude
begin

text \<open>
  \<open>src/common/frame_processor.rs\<close>: key frames and delta frames over 64 by 64 tiles. All the
  coordinate arithmetic is the source's \<open>u32\<close> arithmetic, wrap-around included; offsets become
  \<open>usize\<close> (\<open>nat\<close>) where the source casts them. The \<open>Arc<RwLock<_>>\<close> around the last frame is
  held for the whole of \<open>process_frame\<close>, so the operation is a function on the processor.
\<close>

definition TILE_SIZE :: nat where
  "TILE_SIZE = 64"

record FrameProcessor =
  fp_last_frame :: "bytes option"
  fp_width :: u32
  fp_height :: u32
  fp_tile_width :: u32
  fp_tile_height :: u32

datatype FrameType = KeyFrame | DeltaFrame

record TileData =
  td_x :: u32
  td_y :: u32
  td_width :: u32
  td_height :: u32
  td_data :: bytes

record ProcessedFrame =
  pf_frame_type :: FrameType
  pf_data :: bytes
  pf_width :: u32
  pf_height :: u32
  pf_tiles :: "TileData list option"

definition FrameProcessor_new :: "u32 \<Rightarrow> u32 \<Rightarrow> FrameProcessor" where
  "FrameProcessor_new width height =
     \<lparr>fp_last_frame = None, fp_width = width, fp_height = height,
      fp_tile_width = (width + word_of_nat TILE_SIZE - 1) div word_of_nat TILE_SIZE,
      fp_tile_height = (height + word_of_nat TILE_SIZE - 1) div word_of_nat TILE_SIZE\<rparr>"

definition pixel_offset :: "FrameProcessor \<Rightarrow> u32 \<Rightarrow> u32 \<Rightarrow> nat \<Rightarrow> nat" where
  "pixel_offset self px py bpp = unat ((py * fp_width self + px) * word_of_nat bpp)"

definition sample_differs ::
  "FrameProcessor \<Rightarrow> bytes \<Rightarrow> bytes \<Rightarrow> u32 \<Rightarrow> u32 \<Rightarrow> nat \<Rightarrow> u32 \<times> u32 \<Rightarrow> bool" where
  "sample_differs self prev cur x y bpp p =
     (case p of (sx, sy) \<Rightarrow>
        let px = x + sx; py = y + sy
        in if px \<ge> fp_width self \<or> py \<ge> fp_height self then False
           else let offset = pixel_offset self px py bpp
                in offset + bpp \<le> length prev \<and> offset + bpp \<le> length cur
                   \<and> subvec offset (offset + bpp) prev \<noteq> subvec offset (offset + bpp) cur)"

definition is_tile_changed ::
  "FrameProcessor \<Rightarrow> bytes \<Rightarrow> bytes \<Rightarrow> u32 \<Rightarrow> u32 \<Rightarrow> u32 \<Rightarrow> u32 \<Rightarrow> nat \<Rightarrow> bool" where
  "is_tile_changed self prev cur x y w h bpp =
     list_ex (sample_differs self prev cur x y bpp)
       [(0, 0), (w - 1, 0), (0, h - 1), (w - 1, h - 1), (w div 2, h div 2)]"

fun extract_rows ::
  "FrameProcessor \<Rightarrow> bytes \<Rightarrow> u32 \<Rightarrow> u32 \<Rightarrow> u32 \<Rightarrow> nat \<Rightarrow> u32 list \<Rightarrow> bytes" where
  "extract_rows self frame x y w bpp [] = []"
| "extract_rows self frame x y w bpp (ty # tys) =
     (let py = y + ty
      in if py \<ge> fp_height self then []
         else let row_start = pixel_offset self x py bpp;
                  row_end = row_start + unat (w * word_of_nat bpp)
              in (if row_end \<le> length frame then subvec row_start row_end frame else [])
                 @ extract_rows self frame x y w bpp tys)"

definition extract_tile ::
  "FrameProcessor \<Rightarrow> bytes \<Rightarrow> u32 \<Rightarrow> u32 \<Rightarrow> u32 \<Rightarrow> u32 \<Rightarrow> nat \<Rightarrow> bytes" where
  "extract_tile self frame x y w h bpp = extract_rows self frame x y w bpp (u32_range h)"

text \<open>One iteration of the two loops of \<open>find_changed_tiles\<close>.\<close>

definition tile_at ::
  "FrameProcessor \<Rightarrow> bytes \<Rightarrow> bytes \<Rightarrow> u32 \<Rightarrow> u32 \<Rightarrow> TileData list" where
  "tile_at self previous current tile_x tile_y =
     (let bytes_per_pixel = 3;
          x = tile_x * word_of_nat TILE_SIZE;
          y = tile_y * word_of_nat TILE_SIZE;
          w = word_of_nat (min TILE_SIZE (unat (fp_width self - x)));
          h = word_of_nat (min TILE_SIZE (unat (fp_height self - y)))
      in if is_tile_changed self previous current x y w h bytes_per_pixel
         then [\<lparr>td_x = x, td_y = y, td_width = w, td_height = h,
                td_data = extract_tile self current x y w h bytes_per_pixel\<rparr>]
         else [])"

definition find_changed_tiles ::
  "FrameProcessor \<Rightarrow> bytes \<Rightarrow> bytes \<Rightarrow> TileData list" where
  "find_changed_tiles self previous current =
     concat (map (\<lambda>tile_y. concat (map (\<lambda>tile_x. tile_at self previous current tile_x tile_y)
                                       (u32_range (fp_tile_width self))))
                 (u32_range (fp_tile_height self)))"

fun copy_rows ::
  "FrameProcessor \<Rightarrow> TileData \<Rightarrow> nat \<Rightarrow> bytes \<Rightarrow> u32 list \<Rightarrow> bytes" where
  "copy_rows self tile tile_offset frame [] = frame"
| "copy_rows self tile tile_offset frame (ty # tys) =
     (let py = td_y tile + ty
      in if py \<ge> fp_height self then frame
         else let frame_offset = pixel_offset self (td_x tile) py 3;
                  copy_len = unat (td_width tile * 3);
                  frame' = (if frame_offset + copy_len \<le> length frame
                               \<and> tile_offset + copy_len \<le> length (td_data tile)
                            then blit frame_offset
                                   (subvec tile_offset (tile_offset + copy_len) (td_data tile)) frame
                            else frame)
              in copy_rows self tile (tile_offset + copy_len) frame' tys)"

definition copy_tile_to_frame :: "FrameProcessor \<Rightarrow> bytes \<Rightarrow> TileData \<Rightarrow> bytes" where
  "copy_tile_to_frame self frame tile = copy_rows self tile 0 frame (u32_range (td_height tile))"

definition key_frame :: "FrameProcessor \<Rightarrow> bytes \<Rightarrow> ProcessedFrame" where
  "key_frame self frame =
     \<lparr>pf_frame_type = KeyFrame, pf_data = frame, pf_width = fp_width self,
      pf_height = fp_height self, pf_tiles = None\<rparr>"

definition process_frame ::
  "FrameProcessor \<Rightarrow> bytes \<Rightarrow> bool \<Rightarrow> (FrameProcessor \<times> ProcessedFrame) result" where
  "process_frame self frame force_keyframe =
     (case (fp_last_frame self, force_keyframe) of
        (Some previous, False) \<Rightarrow>
          let changed_tiles = find_changed_tiles self previous frame;
              total_tiles = unat (fp_tile_width self * fp_tile_height self)
          in if length changed_tiles > total_tiles * 6 div 10
             then Inr (self\<lparr>fp_last_frame := Some frame\<rparr>, key_frame self frame)
             else let new_frame = foldl (copy_tile_to_frame self) previous changed_tiles
                  in Inr (self\<lparr>fp_last_frame := Some new_frame\<rparr>,
                          \<lparr>pf_frame_type = DeltaFrame, pf_data = [], pf_width = fp_width self,
                           pf_height = fp_height self, pf_tiles = Some changed_tiles\<rparr>)
      | _ \<Rightarrow> Inr (self\<lparr>fp_last_frame := Some frame\<rparr>, key_frame self frame))"

definition apply_delta :: "FrameProcessor \<Rightarrow> bytes \<Rightarrow> ProcessedFrame \<Rightarrow> bytes result" where
  "apply_delta self base_frame delta =
     (case pf_tiles delta of
        Some tiles \<Rightarrow> Inr (foldl (copy_tile_to_frame self) base_frame tiles)
      | None \<Rightarrow> Inr base_frame)"

section \<open>Well-formed processors: the \<open>u32\<close> arithmetic does not wrap\<close>

abbreviation width_of :: "FrameProcessor \<Rightarrow> nat" where "width_of self \<equiv> unat (fp_width self)"
abbreviation height_of :: "FrameProcessor \<Rightarrow> nat" where "height_of self \<equiv> unat (fp_height self)"
abbreviation frame_bytes :: "FrameProcessor \<Rightarrow> nat" where
  "frame_bytes self \<equiv> width_of self * height_of self * 3"

definition processor_ok :: "FrameProcessor \<Rightarrow> bool" where
  "processor_ok self \<longleftrightarrow>
     0 < width_of self \<and> 0 < height_of self \<and> frame_bytes self < 2 ^ 32
     \<and> unat (fp_tile_width self) = (width_of self + 63) div 64
     \<and> unat (fp_tile_height self) = (height_of self + 63) div 64"

lemma processor_ok_new:
  assumes "0 < unat w" "0 < unat h" "unat w * unat h * 3 < 2 ^ 32"
  shows "processor_ok (FrameProcessor_new w h)"
proof -
  have le: "unat w * 1 \<le> unat w * unat h" "1 * unat h \<le> unat w * unat h"
    using assms by (intro mult_le_mono; simp)+
  have "unat (v + 64 - 1) = unat v + 63" if "unat v * 3 < 2 ^ 32" for v :: u32
  proof -
    have "unat (v + 63) = unat v + 63" using that by (subst unat_add_small) simp_all
    then show ?thesis by (simp add: add_diff_eq [symmetric])
  qed
  moreover have "unat w * 3 < 2 ^ 32" "unat h * 3 < 2 ^ 32" using le assms(3) by linarith+
  ultimately show ?thesis using assms
    by (simp add: processor_ok_def FrameProcessor_new_def TILE_SIZE_def unat_div)
qed

section \<open>Pixels, rows and tiles\<close>

text \<open>Byte \<open>k\<close> of a frame of width \<open>W\<close> belongs to the pixel in row \<open>row W k\<close>, column \<open>col W k\<close>.\<close>

definition row :: "nat \<Rightarrow> nat \<Rightarrow> nat" where "row W k = k div 3 div W"
definition col :: "nat \<Rightarrow> nat \<Rightarrow> nat" where "col W k = k div 3 mod W"

definition in_tile :: "FrameProcessor \<Rightarrow> TileData \<Rightarrow> nat \<Rightarrow> bool" where
  "in_tile self t k \<longleftrightarrow>
     unat (td_y t) \<le> row (width_of self) k \<and> row (width_of self) k < unat (td_y t) + unat (td_height t)
     \<and> unat (td_x t) \<le> col (width_of self) k \<and> col (width_of self) k < unat (td_x t) + unat (td_width t)"

lemma row_range:
  assumes "x + w \<le> W" "0 < W"
  shows "(r * W + x) * 3 \<le> k \<and> k < (r * W + x) * 3 + w * 3
    \<longleftrightarrow> row W k = r \<and> x \<le> col W k \<and> col W k < x + w"
proof -
  let ?p = "k div 3"
  have "m * 3 \<le> k \<and> k < m * 3 + w * 3 \<longleftrightarrow> m \<le> ?p \<and> ?p < m + w" for m
    by (simp add: less_eq_div_iff_mult_less_eq div_less_iff_less_mult algebra_simps)
  then have "(r * W + x) * 3 \<le> k \<and> k < (r * W + x) * 3 + w * 3
      \<longleftrightarrow> r * W + x \<le> ?p \<and> ?p < r * W + x + w" .
  also have "\<dots> \<longleftrightarrow> ?p div W = r \<and> x \<le> ?p mod W \<and> ?p mod W < x + w"
  proof
    assume b: "r * W + x \<le> ?p \<and> ?p < r * W + x + w"
    then have "?p div W = r" using assms by (intro div_nat_eqI) (auto simp: algebra_simps)
    moreover have "?p = ?p div W * W + ?p mod W" by simp
    ultimately show "?p div W = r \<and> x \<le> ?p mod W \<and> ?p mod W < x + w" using b by auto
  next
    assume b: "?p div W = r \<and> x \<le> ?p mod W \<and> ?p mod W < x + w"
    moreover have "?p = ?p div W * W + ?p mod W" by simp
    ultimately show "r * W + x \<le> ?p \<and> ?p < r * W + x + w" by auto
  qed
  finally show ?thesis by (simp add: row_def col_def)
qed

definition tile_ok :: "FrameProcessor \<Rightarrow> TileData \<Rightarrow> bool" where
  "tile_ok self t \<longleftrightarrow>
     unat (td_x t) + unat (td_width t) \<le> width_of self \<and> 0 < unat (td_width t)
     \<and> unat (td_y t) + unat (td_height t) \<le> height_of self"

lemma pixel_offset_eq:
  assumes "processor_ok self" "unat px < width_of self" "unat py < height_of self"
  shows "pixel_offset self px py 3 = (unat py * width_of self + unat px) * 3"
proof -
  have "unat py * width_of self + unat px < Suc (unat py) * width_of self" using assms(2) by simp
  also have "\<dots> \<le> height_of self * width_of self" using assms(3) by (intro mult_le_mono1) simp
  finally have "unat py * width_of self + unat px < height_of self * width_of self" .
  then have b: "(unat py * width_of self + unat px) * 3 < 2 ^ 32"
    using assms(1) by (simp add: processor_ok_def mult.commute)
  then have "unat (py * fp_width self) = unat py * width_of self"
    by (subst unat_mult_small) auto
  then have "unat (py * fp_width self + px) = unat py * width_of self + unat px"
    using b by (subst unat_add_small) auto
  then have "unat ((py * fp_width self + px) * word_of_nat 3) = (unat py * width_of self + unat px) * 3"
    using b by (subst unat_mult_small) (simp_all del: distrib_right_numeral)
  then show ?thesis by (simp only: pixel_offset_def)
qed

lemma row_in_frame:
  assumes "r < H" "x + w \<le> W"
  shows "(r * W + x) * 3 + w * 3 \<le> W * H * (3 :: nat)"
proof -
  have "r * W + x + w \<le> Suc r * W" using assms by simp
  also have "\<dots> \<le> H * W" using assms by (intro mult_le_mono1) simp
  finally have "(r * W + x + w) * 3 \<le> H * W * 3" by (rule mult_le_mono1)
  then show ?thesis by (simp add: algebra_simps)
qed

text \<open>What the tile's data must be: row \<open>i\<close> of the tile is the row of \<open>cur\<close> it covers.\<close>

definition tile_rows_of :: "FrameProcessor \<Rightarrow> TileData \<Rightarrow> bytes \<Rightarrow> bool" where
  "tile_rows_of self t cur \<longleftrightarrow>
     (let W = width_of self; w = unat (td_width t)
      in length (td_data t) = unat (td_height t) * (w * 3)
         \<and> (\<forall>i < unat (td_height t).
              subvec (i * (w * 3)) (i * (w * 3) + w * 3) (td_data t) =
              (let o' = ((unat (td_y t) + i) * W + unat (td_x t)) * 3 in subvec o' (o' + w * 3) cur)))"

lemma unat_add_row:
  assumes "processor_ok self" "tile_ok self t" "i < unat (td_height t)"
  shows "unat (td_y t + word_of_nat i) = unat (td_y t) + i"
proof -
  have "i < 2 ^ 32" using assms(3) unsigned_less [of "td_height t", where ?'a = nat] by simp
  moreover have "unat (td_y t) + i < 2 ^ 32"
    using assms unsigned_less [of "fp_height self", where ?'a = nat] by (simp add: tile_ok_def)
  ultimately show ?thesis by (subst unat_add_small) auto
qed

lemma unat_row_bytes:
  assumes "processor_ok self" "unat w \<le> width_of self"
  shows "unat (w * 3 :: u32) = unat w * 3"
proof -
  have "width_of self * 1 \<le> width_of self * height_of self"
    using assms(1) by (intro mult_le_mono) (auto simp: processor_ok_def)
  then have "unat w * 3 < 2 ^ 32" using assms unfolding processor_ok_def by linarith
  then show ?thesis by (subst unat_mult_small) auto
qed

lemma copy_rows_nth:
  assumes ok: "processor_ok self" "tile_ok self t" "tile_rows_of self t cur"
    and len: "length cur = frame_bytes self" "length frame = frame_bytes self"
    and i: "i \<le> unat (td_height t)"
  shows "length (copy_rows self t (i * (unat (td_width t) * 3)) frame
      (map word_of_nat [i..<unat (td_height t)])) = frame_bytes self
    \<and> (\<forall>k < frame_bytes self.
      copy_rows self t (i * (unat (td_width t) * 3)) frame (map word_of_nat [i..<unat (td_height t)]) ! k
      = (if in_tile self t k \<and> unat (td_y t) + i \<le> row (width_of self) k then cur ! k else frame ! k))"
  using i len(2)
proof (induction "unat (td_height t) - i" arbitrary: i frame)
  case 0
  then have "i = unat (td_height t)" by simp
  then show ?case using 0 by (auto simp: in_tile_def)
next
  case (Suc n)
  let ?W = "width_of self" and ?w = "unat (td_width t)" and ?h = "unat (td_height t)"
  let ?o = "((unat (td_y t) + i) * ?W + unat (td_x t)) * 3"
  have ih: "i < ?h" using Suc.hyps(2) by simp
  have x: "unat (td_x t) + ?w \<le> ?W" "0 < ?w" "unat (td_y t) + i < height_of self"
    using ok(2) ih by (auto simp: tile_ok_def)
  have py: "unat (td_y t + word_of_nat i) = unat (td_y t) + i" using ok ih by (intro unat_add_row)
  have off: "pixel_offset self (td_x t) (td_y t + word_of_nat i) 3 = ?o"
    using pixel_offset_eq [OF ok(1), of "td_x t" "td_y t + word_of_nat i"] x py by simp
  have wl: "unat (td_width t * 3) = ?w * 3" using ok x by (intro unat_row_bytes) auto
  have inF: "?o + ?w * 3 \<le> frame_bytes self" using row_in_frame x by blast
  have dat: "i * (?w * 3) + ?w * 3 \<le> length (td_data t)"
    using ok(3) mult_le_mono1 [of "Suc i" ?h "?w * 3"] ih by (simp add: tile_rows_of_def Let_def)
  let ?src = "subvec (i * (?w * 3)) (i * (?w * 3) + ?w * 3) (td_data t)"
  let ?f = "blit ?o ?src frame"
  have src: "length ?src = ?w * 3" "?src = subvec ?o (?o + ?w * 3) cur"
    using dat apply simp
    using ok(3) ih unfolding tile_rows_of_def Let_def by blast
  have lf: "length ?f = frame_bytes self" using src inF Suc.prems by (subst length_blit) auto
  have nf: "?f ! k = (if row ?W k = unat (td_y t) + i \<and> unat (td_x t) \<le> col ?W k
      \<and> col ?W k < unat (td_x t) + ?w then cur ! k else frame ! k)" if "k < frame_bytes self" for k
  proof -
    have "?f ! k = (if ?o \<le> k \<and> k < ?o + ?w * 3 then ?src ! (k - ?o) else frame ! k)"
      using src inF Suc.prems that by (subst nth_blit) auto
    also have "\<dots> = (if ?o \<le> k \<and> k < ?o + ?w * 3 then cur ! k else frame ! k)"
      unfolding src(2) using inF len(1) by (auto simp: nth_subvec)
    finally show ?thesis using row_range [OF x(1)] x by auto
  qed
  have step: "copy_rows self t (i * (?w * 3)) frame (map word_of_nat [i..<?h])
      = copy_rows self t (Suc i * (?w * 3)) ?f (map word_of_nat [Suc i..<?h])"
    using ih off wl inF dat Suc.prems x py
    by (subst upt_conv_Cons) (auto simp: Let_def word_le_nat_alt add.commute)
  have "n = ?h - Suc i" "Suc i \<le> ?h" using Suc.hyps(2) by auto
  note IH = Suc.hyps(1) [OF this lf]
  have "copy_rows self t (i * (?w * 3)) frame (map word_of_nat [i..<?h]) ! k
      = (if in_tile self t k \<and> unat (td_y t) + i \<le> row ?W k then cur ! k else frame ! k)"
    if "k < frame_bytes self" for k
    using IH nf [OF that] that ih unfolding step by (auto simp: in_tile_def)
  then show ?case using IH unfolding step by blast
qed

lemma copy_tile_nth:
  assumes "processor_ok self" "tile_ok self t" "tile_rows_of self t cur"
    and "length cur = frame_bytes self" "length frame = frame_bytes self"
  shows "length (copy_tile_to_frame self frame t) = frame_bytes self"
    and "k < frame_bytes self \<Longrightarrow>
      copy_tile_to_frame self frame t ! k = (if in_tile self t k then cur ! k else frame ! k)"
  using copy_rows_nth [OF assms, of 0]
  by (auto simp: copy_tile_to_frame_def u32_range_def in_tile_def)

section \<open>Extracting a tile\<close>

lemma extract_rows_concat:
  assumes ok: "processor_ok self" "tile_ok self t" and len: "length cur = frame_bytes self"
    and i: "i \<le> unat (td_height t)"
  shows "extract_rows self cur (td_x t) (td_y t) (td_width t) 3
      (map word_of_nat [i..<unat (td_height t)])
    = concat (map (\<lambda>j. let o' = ((unat (td_y t) + j) * width_of self + unat (td_x t)) * 3
                        in subvec o' (o' + unat (td_width t) * 3) cur) [i..<unat (td_height t)])"
  using i
proof (induction "unat (td_height t) - i" arbitrary: i)
  case (Suc n)
  let ?W = "width_of self" and ?h = "unat (td_height t)"
  have ih: "i < ?h" using Suc.hyps(2) by simp
  have x: "unat (td_x t) + unat (td_width t) \<le> ?W" "unat (td_x t) < ?W"
    "unat (td_y t) + i < height_of self"
    using ok(2) ih by (auto simp: tile_ok_def)
  have py: "unat (td_y t + word_of_nat i) = unat (td_y t) + i" using ok ih by (intro unat_add_row)
  have off: "pixel_offset self (td_x t) (td_y t + word_of_nat i) 3
      = ((unat (td_y t) + i) * ?W + unat (td_x t)) * 3"
    using pixel_offset_eq [OF ok(1), of "td_x t" "td_y t + word_of_nat i"] x py by simp
  have wl: "unat (td_width t * word_of_nat 3) = unat (td_width t) * 3"
    using unat_row_bytes [OF ok(1), of "td_width t"] x by simp
  have inF: "((unat (td_y t) + i) * ?W + unat (td_x t)) * 3 + unat (td_width t) * 3 \<le> frame_bytes self"
    using row_in_frame x by blast
  have "n = ?h - Suc i" "Suc i \<le> ?h" using Suc.hyps(2) by auto
  note IH = Suc.hyps(1) [OF this]
  show ?case
    unfolding upt_conv_Cons [OF ih] list.map extract_rows.simps Let_def off wl IH
    using inF len x py by (simp add: word_le_nat_alt Let_def)
qed simp

lemma extract_tile_rows:
  assumes "processor_ok self" "tile_ok self t" "length cur = frame_bytes self"
    and "td_data t = extract_tile self cur (td_x t) (td_y t) (td_width t) (td_height t) 3"
  shows "tile_rows_of self t cur"
proof -
  let ?f = "\<lambda>j. let o' = ((unat (td_y t) + j) * width_of self + unat (td_x t)) * 3
                in subvec o' (o' + unat (td_width t) * 3) cur"
  have data: "td_data t = concat (map ?f [0..<unat (td_height t)])"
    using extract_rows_concat [OF assms(1-3), of 0] assms(4)
    by (simp add: extract_tile_def u32_range_def)
  have "length (?f j) = unat (td_width t) * 3" if "j < unat (td_height t)" for j
  proof -
    have "unat (td_y t) + j < height_of self" "unat (td_x t) + unat (td_width t) \<le> width_of self"
      using assms(2) that by (auto simp: tile_ok_def)
    from row_in_frame [OF this] show ?thesis using assms(3) by (simp add: Let_def)
  qed
  then have eq: "\<And>j. j \<in> set [0..<unat (td_height t)] \<Longrightarrow> length (?f j) = unat (td_width t) * 3"
    by simp
  have "length (concat (map ?f [0..<unat (td_height t)])) = unat (td_height t) * (unat (td_width t) * 3)"
    using length_concat_equal [of "[0..<unat (td_height t)]" ?f "unat (td_width t) * 3"] eq by simp
  moreover have "subvec (i * (unat (td_width t) * 3)) (i * (unat (td_width t) * 3) + unat (td_width t) * 3)
      (concat (map ?f [0..<unat (td_height t)])) = ?f i" if "i < unat (td_height t)" for i
    using subvec_concat_equal [of "[0..<unat (td_height t)]" ?f "unat (td_width t) * 3" i] eq that
    by simp
  ultimately show ?thesis unfolding tile_rows_of_def data by (simp add: Let_def)
qed

section \<open>The grid of tiles\<close>

definition tile_box :: "FrameProcessor \<Rightarrow> nat \<Rightarrow> nat \<Rightarrow> TileData" where
  "tile_box self tx ty =
     \<lparr>td_x = word_of_nat (tx * 64), td_y = word_of_nat (ty * 64),
      td_width = word_of_nat (min 64 (width_of self - tx * 64)),
      td_height = word_of_nat (min 64 (height_of self - ty * 64)), td_data = []\<rparr>"

lemma grid_coord:
  fixes v :: u32
  assumes "t < (unat v + 63) div 64"
  shows "t * 64 < unat v" "t * 64 < 2 ^ 32" "t < 2 ^ 32"
    "unat (v - word_of_nat (t * 64)) = unat v - t * 64"
proof -
  have "Suc t * 64 \<le> unat v + 63" using assms by (simp add: Suc_le_eq less_eq_div_iff_mult_less_eq
      flip: Suc_le_eq)
  then show t: "t * 64 < unat v" by simp
  then show "t * 64 < 2 ^ 32" "t < 2 ^ 32" using unsigned_less [of v, where ?'a = nat] by simp_all
  then have "unat (word_of_nat (t * 64) :: u32) = t * 64" by (intro unat_of_nat_small) simp
  then show "unat (v - word_of_nat (t * 64)) = unat v - t * 64"
    using t by (subst unat_diff_small) (simp_all only: less_imp_le)
qed

lemma tile_at_box:
  assumes "processor_ok self" "tx < unat (fp_tile_width self)" "ty < unat (fp_tile_height self)"
  shows "tile_at self prev cur (word_of_nat tx) (word_of_nat ty) =
    (let t = tile_box self tx ty
     in if is_tile_changed self prev cur (td_x t) (td_y t) (td_width t) (td_height t) 3
        then [t\<lparr>td_data := extract_tile self cur (td_x t) (td_y t) (td_width t) (td_height t) 3\<rparr>]
        else [])"
  using grid_coord [of tx "fp_width self"] grid_coord [of ty "fp_height self"] assms
  by (simp add: tile_at_def tile_box_def TILE_SIZE_def processor_ok_def Let_def)

lemma tile_box_geometry:
  assumes "processor_ok self" "tx < unat (fp_tile_width self)" "ty < unat (fp_tile_height self)"
  shows "unat (td_x (tile_box self tx ty)) = tx * 64" "unat (td_y (tile_box self tx ty)) = ty * 64"
    "unat (td_width (tile_box self tx ty)) = min 64 (width_of self - tx * 64)"
    "unat (td_height (tile_box self tx ty)) = min 64 (height_of self - ty * 64)"
    "tile_ok self (tile_box self tx ty)"
proof -
  have "tx < (width_of self + 63) div 64" "ty < (height_of self + 63) div 64"
    using assms by (auto simp: processor_ok_def)
  note c = grid_coord [OF this(1)] grid_coord [OF this(2)]
  have m: "min 64 n < 2 ^ 32" for n :: nat by (simp add: min_def)
  show g: "unat (td_x (tile_box self tx ty)) = tx * 64" "unat (td_y (tile_box self tx ty)) = ty * 64"
    "unat (td_width (tile_box self tx ty)) = min 64 (width_of self - tx * 64)"
    "unat (td_height (tile_box self tx ty)) = min 64 (height_of self - ty * 64)"
    using c m by (simp_all add: tile_box_def del: of_nat_mult)
  show "tile_ok self (tile_box self tx ty)" unfolding tile_ok_def g using c by auto
qed

lemma in_tile_box:
  assumes "processor_ok self" "tx < unat (fp_tile_width self)" "ty < unat (fp_tile_height self)"
    "k < frame_bytes self"
  shows "in_tile self (tile_box self tx ty) k
    \<longleftrightarrow> row (width_of self) k div 64 = ty \<and> col (width_of self) k div 64 = tx"
proof -
  have W: "0 < width_of self" using assms(1) by (simp add: processor_ok_def)
  then have "col (width_of self) k < width_of self" by (simp add: col_def)
  moreover have "k div 3 < width_of self * height_of self"
    using assms(4) by (simp add: div_less_iff_less_mult)
  then have "row (width_of self) k < height_of self"
    using W by (simp add: row_def div_less_iff_less_mult mult.commute)
  moreover have "n div 64 = m \<longleftrightarrow> m * 64 \<le> n \<and> n < m * 64 + 64" for n m :: nat
    by (metis div_nat_eqI div_times_less_eq_dividend dividend_less_div_times mult.commute
        mult_Suc_right zero_less_numeral add.commute)
  ultimately show ?thesis
    unfolding in_tile_def tile_box_geometry [OF assms(1-3)] by auto
qed

lemma pixel_has_tile:
  assumes "processor_ok self" "k < frame_bytes self"
  shows "row (width_of self) k div 64 < unat (fp_tile_height self)"
    "col (width_of self) k div 64 < unat (fp_tile_width self)"
proof -
  have W: "0 < width_of self" using assms(1) by (simp add: processor_ok_def)
  have "k div 3 < width_of self * height_of self"
    using assms(2) by (simp add: div_less_iff_less_mult)
  then have "row (width_of self) k < height_of self" "col (width_of self) k < width_of self"
    using W by (simp_all add: row_def col_def div_less_iff_less_mult mult.commute)
  then show "row (width_of self) k div 64 < unat (fp_tile_height self)"
    "col (width_of self) k div 64 < unat (fp_tile_width self)"
    using assms(1) by (simp_all add: processor_ok_def)
qed

section \<open>What a delta frame changes\<close>

definition tile_flagged :: "FrameProcessor \<Rightarrow> bytes \<Rightarrow> bytes \<Rightarrow> nat \<Rightarrow> nat \<Rightarrow> bool" where
  "tile_flagged self prev cur tx ty =
     (let t = tile_box self tx ty
      in is_tile_changed self prev cur (td_x t) (td_y t) (td_width t) (td_height t) 3)"

definition changed_tile :: "FrameProcessor \<Rightarrow> bytes \<Rightarrow> nat \<Rightarrow> nat \<Rightarrow> TileData" where
  "changed_tile self cur tx ty =
     (let t = tile_box self tx ty
      in t\<lparr>td_data := extract_tile self cur (td_x t) (td_y t) (td_width t) (td_height t) 3\<rparr>)"

lemma in_find_changed_tiles:
  assumes "processor_ok self"
  shows "t \<in> set (find_changed_tiles self prev cur) \<longleftrightarrow>
    (\<exists>tx ty. tx < unat (fp_tile_width self) \<and> ty < unat (fp_tile_height self)
       \<and> tile_flagged self prev cur tx ty \<and> t = changed_tile self cur tx ty)"
proof -
  have "t \<in> set (tile_at self prev cur (word_of_nat tx) (word_of_nat ty)) \<longleftrightarrow>
      tile_flagged self prev cur tx ty \<and> t = changed_tile self cur tx ty"
    if "tx < unat (fp_tile_width self)" "ty < unat (fp_tile_height self)" for tx ty
    unfolding tile_at_box [OF assms that] tile_flagged_def changed_tile_def Let_def by auto
  moreover have "t \<in> set (find_changed_tiles self prev cur) \<longleftrightarrow>
    (\<exists>tx ty. tx < unat (fp_tile_width self) \<and> ty < unat (fp_tile_height self)
       \<and> t \<in> set (tile_at self prev cur (word_of_nat tx) (word_of_nat ty)))"
    by (simp add: find_changed_tiles_def u32_range_def Bex_def) blast
  ultimately show ?thesis by blast
qed

lemma in_tile_data [simp]: "in_tile self (t\<lparr>td_data := d\<rparr>) k = in_tile self t k"
  by (simp add: in_tile_def)

lemma changed_tiles_ok:
  assumes "processor_ok self" "length cur = frame_bytes self"
    "t \<in> set (find_changed_tiles self prev cur)"
  shows "tile_ok self t" "tile_rows_of self t cur"
proof -
  from assms(3) obtain tx ty where
    b: "tx < unat (fp_tile_width self)" "ty < unat (fp_tile_height self)"
    and t: "t = changed_tile self cur tx ty"
    using in_find_changed_tiles [OF assms(1)] by blast
  show ok: "tile_ok self t"
    using tile_box_geometry(5) [OF assms(1) b] by (simp add: t changed_tile_def Let_def tile_ok_def)
  show "tile_rows_of self t cur"
    using assms ok by (intro extract_tile_rows) (simp_all add: t changed_tile_def Let_def)
qed

lemma fold_copy_nth:
  assumes "processor_ok self" "length cur = frame_bytes self" "length frame = frame_bytes self"
    "\<forall>t \<in> set ts. tile_ok self t \<and> tile_rows_of self t cur"
  shows "length (foldl (copy_tile_to_frame self) frame ts) = frame_bytes self
    \<and> (\<forall>k < frame_bytes self. foldl (copy_tile_to_frame self) frame ts ! k =
        (if \<exists>t \<in> set ts. in_tile self t k then cur ! k else frame ! k))"
  using assms(3,4)
proof (induction ts arbitrary: frame)
  case (Cons t ts)
  note c = copy_tile_nth [OF assms(1) _ _ assms(2) Cons.prems(1), of t]
  have "length (copy_tile_to_frame self frame t) = frame_bytes self" using c Cons.prems by simp
  from Cons.IH [OF this] show ?case using c Cons.prems by auto
qed simp

lemma delta_frame_nth:
  assumes "processor_ok self" "length prev = frame_bytes self" "length cur = frame_bytes self"
    "k < frame_bytes self"
  shows "foldl (copy_tile_to_frame self) prev (find_changed_tiles self prev cur) ! k =
    (if tile_flagged self prev cur (col (width_of self) k div 64) (row (width_of self) k div 64)
     then cur ! k else prev ! k)"
proof -
  have box: "in_tile self (changed_tile self cur tx ty) k \<longleftrightarrow>
      row (width_of self) k div 64 = ty \<and> col (width_of self) k div 64 = tx"
    if "tx < unat (fp_tile_width self)" "ty < unat (fp_tile_height self)" for tx ty
    using in_tile_box [OF assms(1) that assms(4)] by (simp add: changed_tile_def Let_def)
  have "(\<exists>t \<in> set (find_changed_tiles self prev cur). in_tile self t k) \<longleftrightarrow>
    (\<exists>tx ty. tx < unat (fp_tile_width self) \<and> ty < unat (fp_tile_height self)
       \<and> tile_flagged self prev cur tx ty \<and> in_tile self (changed_tile self cur tx ty) k)"
    unfolding Bex_def in_find_changed_tiles [OF assms(1)] by blast
  also have "\<dots> \<longleftrightarrow>
    tile_flagged self prev cur (col (width_of self) k div 64) (row (width_of self) k div 64)"
    using box pixel_has_tile [OF assms(1,4)] by metis
  finally have "(\<exists>t \<in> set (find_changed_tiles self prev cur). in_tile self t k) \<longleftrightarrow>
    tile_flagged self prev cur (col (width_of self) k div 64) (row (width_of self) k div 64)" .
  then show ?thesis
    using fold_copy_nth [OF assms(1,3,2), of "find_changed_tiles self prev cur"]
      changed_tiles_ok [OF assms(1,3)] assms(4) by auto
qed

lemma length_delta_frame:
  assumes "processor_ok self" "length prev = frame_bytes self" "length cur = frame_bytes self"
  shows "length (foldl (copy_tile_to_frame self) prev (find_changed_tiles self prev cur))
    = frame_bytes self"
  using fold_copy_nth [OF assms(1,3,2), of "find_changed_tiles self prev cur"]
    changed_tiles_ok [OF assms(1,3)] by auto

section \<open>What sampling sees\<close>

text \<open>The specification, on natural numbers: the five pixels a tile is judged by, and frames all of
  whose changes lie in tiles where one of the five differs.\<close>

definition pixel_at :: "nat \<Rightarrow> bytes \<Rightarrow> nat \<times> nat \<Rightarrow> bytes" where
  "pixel_at W frame p = (case p of (x, y) \<Rightarrow> take 3 (drop ((y * W + x) * 3) frame))"

definition sample_points :: "nat \<Rightarrow> nat \<Rightarrow> nat \<Rightarrow> nat \<Rightarrow> (nat \<times> nat) list" where
  "sample_points W H tx ty =
     (let x = tx * 64; y = ty * 64; w = min 64 (W - x); h = min 64 (H - y)
      in [(x, y), (x + (w - 1), y), (x, y + (h - 1)), (x + (w - 1), y + (h - 1)),
          (x + w div 2, y + h div 2)])"

definition changes_sampled :: "nat \<Rightarrow> nat \<Rightarrow> bytes \<Rightarrow> bytes \<Rightarrow> bool" where
  "changes_sampled W H prev cur \<longleftrightarrow>
     (\<forall>k < W * H * 3. prev ! k \<noteq> cur ! k \<longrightarrow>
        (\<exists>p \<in> set (sample_points W H (col W k div 64) (row W k div 64)).
           pixel_at W prev p \<noteq> pixel_at W cur p))"

lemma sample_differs_iff:
  assumes "processor_ok self" "length prev = frame_bytes self" "length cur = frame_bytes self"
    and "unat x + unat sx < width_of self" "unat y + unat sy < height_of self"
  shows "sample_differs self prev cur x y 3 (sx, sy) \<longleftrightarrow>
    pixel_at (width_of self) prev (unat x + unat sx, unat y + unat sy)
      \<noteq> pixel_at (width_of self) cur (unat x + unat sx, unat y + unat sy)"
proof -
  have px: "unat (x + sx) = unat x + unat sx"
    using assms(4) unsigned_less [of "fp_width self", where ?'a = nat]
    by (subst unat_add_small) simp_all
  have py: "unat (y + sy) = unat y + unat sy"
    using assms(5) unsigned_less [of "fp_height self", where ?'a = nat]
    by (subst unat_add_small) simp_all
  let ?o = "((unat y + unat sy) * width_of self + (unat x + unat sx)) * 3"
  have o: "pixel_offset self (x + sx) (y + sy) 3 = ?o"
    using pixel_offset_eq [OF assms(1), of "x + sx" "y + sy"] assms(4,5) px py by simp
  have "?o + 1 * 3 \<le> width_of self * height_of self * 3"
    using assms(4,5) by (intro row_in_frame) auto
  then have "?o + 3 \<le> frame_bytes self" by simp
  then show ?thesis using assms px py
    by (simp add: sample_differs_def o Let_def pixel_at_def subvec_def word_le_nat_alt del: distrib_right_numeral)
qed

lemma is_tile_changed_iff:
  assumes "processor_ok self" "length prev = frame_bytes self" "length cur = frame_bytes self"
    and w: "0 < unat w" "unat x + unat w \<le> width_of self"
    and h: "0 < unat h" "unat y + unat h \<le> height_of self"
  shows "is_tile_changed self prev cur x y w h 3 \<longleftrightarrow>
    (\<exists>p \<in> {(unat x, unat y), (unat x + (unat w - 1), unat y), (unat x, unat y + (unat h - 1)),
          (unat x + (unat w - 1), unat y + (unat h - 1)), (unat x + unat w div 2, unat y + unat h div 2)}.
       pixel_at (width_of self) prev p \<noteq> pixel_at (width_of self) cur p)"
proof -
  have m: "unat (v - 1) = unat v - 1 \<and> unat (v div 2) = unat v div 2" if "0 < unat v" for v :: u32
  proof -
    have "unat (v - 1) = unat v - unat (1 :: u32)" using that by (intro unat_diff_small) simp
    then show ?thesis by (simp add: unat_div)
  qed
  note d = m [OF w(1)] m [OF h(1)]
  have b: "unat x < width_of self" "unat x + (unat w - 1) < width_of self"
    "unat x + unat w div 2 < width_of self" "unat y < height_of self"
    "unat y + (unat h - 1) < height_of self" "unat y + unat h div 2 < height_of self"
    using w h by linarith+
  note S = sample_differs_iff [OF assms(1-3), of x _ y]
  show ?thesis
    using S [of 0 0] S [of "w - 1" 0] S [of 0 "h - 1"] S [of "w - 1" "h - 1"]
      S [of "w div 2" "h div 2"] b
    by (simp add: d is_tile_changed_def)
qed

lemma tile_flagged_iff:
  assumes "processor_ok self" "length prev = frame_bytes self" "length cur = frame_bytes self"
    and "tx < unat (fp_tile_width self)" "ty < unat (fp_tile_height self)"
  shows "tile_flagged self prev cur tx ty \<longleftrightarrow>
    (\<exists>p \<in> set (sample_points (width_of self) (height_of self) tx ty).
       pixel_at (width_of self) prev p \<noteq> pixel_at (width_of self) cur p)"
proof -
  have g: "tx * 64 < width_of self" "tx * 64 < 2 ^ 32" "ty * 64 < height_of self" "ty * 64 < 2 ^ 32"
    using grid_coord [of tx "fp_width self"] grid_coord [of ty "fp_height self"] assms
    by (simp_all add: processor_ok_def)
  let ?t = "tile_box self tx ty"
  define w h where "w = min 64 (width_of self - tx * 64)" and "h = min 64 (height_of self - ty * 64)"
  have wh: "0 < w" "w < 2 ^ 32" "tx * 64 + w \<le> width_of self"
    "0 < h" "h < 2 ^ 32" "ty * 64 + h \<le> height_of self"
    using g(1,3) by (simp_all add: w_def h_def)
  have n: "unat (word_of_nat v :: u32) = v" if "v < 2 ^ 32" for v
    using that by (intro unat_of_nat_small) simp
  have u: "unat (td_x ?t) = tx * 64" "unat (td_y ?t) = ty * 64"
    "unat (td_width ?t) = w" "unat (td_height ?t) = h"
    using n [OF g(2)] n [OF g(4)] n [OF wh(2)] n [OF wh(5)]
    by (simp_all only: tile_box_def TileData.simps w_def h_def)
  show ?thesis
    using is_tile_changed_iff [OF assms(1-3), of "td_width ?t" "td_x ?t" "td_height ?t" "td_y ?t"] wh
    unfolding tile_flagged_def sample_points_def Let_def u w_def [symmetric] h_def [symmetric]
    by simp
qed

lemma delta_frame_exact_iff:
  assumes "processor_ok self" "length prev = frame_bytes self" "length cur = frame_bytes self"
  shows "foldl (copy_tile_to_frame self) prev (find_changed_tiles self prev cur) = cur
    \<longleftrightarrow> changes_sampled (width_of self) (height_of self) prev cur"
proof -
  let ?new = "foldl (copy_tile_to_frame self) prev (find_changed_tiles self prev cur)"
  let ?W = "width_of self" and ?H = "height_of self"
  have grid: "col ?W k div 64 < unat (fp_tile_width self) \<and> row ?W k div 64 < unat (fp_tile_height self)"
    if "k < frame_bytes self" for k
  proof -
    have "col ?W k < ?W" "row ?W k < ?H"
      using assms(1) that by (auto simp: col_def row_def processor_ok_def div_less_iff_less_mult mult.commute)
    then have "col ?W k div 64 < (?W + 63) div 64" "row ?W k div 64 < (?H + 63) div 64" by linarith+
    then show ?thesis using assms(1) by (simp add: processor_ok_def)
  qed
  have "?new = cur \<longleftrightarrow> (\<forall>k < frame_bytes self. ?new ! k = cur ! k)"
    using length_delta_frame [OF assms] assms(3) by (auto simp: list_eq_iff_nth_eq)
  also have "\<dots> \<longleftrightarrow> (\<forall>k < frame_bytes self. prev ! k \<noteq> cur ! k \<longrightarrow>
      tile_flagged self prev cur (col ?W k div 64) (row ?W k div 64))"
    using delta_frame_nth [OF assms] by auto
  also have "\<dots> \<longleftrightarrow> changes_sampled ?W ?H prev cur"
    using grid by (simp add: changes_sampled_def tile_flagged_iff [OF assms])
  finally show ?thesis .
qed

section \<open>Sender and receiver stay in step\<close>

text \<open>
  A receiver replaces its frame on a key frame and applies the tiles of a delta frame to the
  frame it has; its own processor has the sender's dimensions.
\<close>

definition receive :: "FrameProcessor \<Rightarrow> bytes option \<Rightarrow> ProcessedFrame \<Rightarrow> bytes option" where
  "receive self current pf =
     (case pf_frame_type pf of
        KeyFrame \<Rightarrow> Some (pf_data pf)
      | DeltaFrame \<Rightarrow>
          (case current of
             None \<Rightarrow> None
           | Some base \<Rightarrow> (case apply_delta self base pf of Inl _ \<Rightarrow> Some base | Inr f \<Rightarrow> Some f)))"

lemma process_frame_cases:
  assumes "process_frame self frame force = Inr (self', pf)"
  obtains (key) "self' = self\<lparr>fp_last_frame := Some frame\<rparr>" "pf = key_frame self frame"
  | (delta) prev where "fp_last_frame self = Some prev" "\<not> force"
      "self' = self\<lparr>fp_last_frame :=
         Some (foldl (copy_tile_to_frame self) prev (find_changed_tiles self prev frame))\<rparr>"
      "pf_frame_type pf = DeltaFrame" "pf_tiles pf = Some (find_changed_tiles self prev frame)"
      "length (find_changed_tiles self prev frame)
         \<le> unat (fp_tile_width self * fp_tile_height self) * 6 div 10"
  using assms
  by (auto simp: process_frame_def Let_def not_less split: option.splits bool.splits if_splits)

lemma process_frame_total: "\<exists>self' pf. process_frame self frame force = Inr (self', pf)"
  by (auto simp: process_frame_def Let_def split: option.split bool.split)

lemma process_frame_dims:
  assumes "process_frame self frame force = Inr (self', pf)"
  shows "fp_width self' = fp_width self" "fp_height self' = fp_height self"
    "fp_tile_width self' = fp_tile_width self" "fp_tile_height self' = fp_tile_height self"
  using assms by (auto elim!: process_frame_cases)

lemma copy_rows_cong:
  assumes "fp_width p = fp_width q" "fp_height p = fp_height q"
  shows "copy_rows p t n f tys = copy_rows q t n f tys"
  using assms by (induction tys arbitrary: n f) (simp_all add: Let_def pixel_offset_def)

lemma copy_tile_cong:
  assumes "fp_width p = fp_width q" "fp_height p = fp_height q"
  shows "copy_tile_to_frame p = copy_tile_to_frame q"
  using copy_rows_cong [OF assms] by (simp add: copy_tile_to_frame_def fun_eq_iff)

lemma receive_in_step:
  assumes "process_frame self frame force = Inr (self', pf)" "current = fp_last_frame self"
    and "fp_width rcv = fp_width self" "fp_height rcv = fp_height self"
  shows "receive rcv current pf = fp_last_frame self'"
  using assms(1)
proof (cases rule: process_frame_cases)
  case key
  then show ?thesis by (simp add: receive_def key_frame_def)
next
  case (delta prev)
  then show ?thesis
    using assms(2) copy_tile_cong [OF assms(3,4)] by (simp add: receive_def apply_delta_def)
qed

section \<open>Properties\<close>

text \<open>A sender that processes frames one after the other, and what it sends.\<close>

fun process_run ::
  "FrameProcessor \<Rightarrow> (bytes \<times> bool) list \<Rightarrow> (FrameProcessor \<times> ProcessedFrame list) result" where
  "process_run self [] = Inr (self, [])"
| "process_run self ((frame, force) # fs) =
     try_bind (process_frame self frame force) (\<lambda>(self1, pf).
     try_bind (process_run self1 fs) (\<lambda>(self2, pfs). Inr (self2, pf # pfs)))"

lemma process_run_step:
  assumes "process_run self (f # fs) = Inr (self', pfs)"
  obtains self1 pf pfs' where "process_frame self (fst f) (snd f) = Inr (self1, pf)"
    "process_run self1 fs = Inr (self', pfs')" "pfs = pf # pfs'"
  using assms by (cases f) (auto simp: try_bind_Inr_iff)

text \<open>C17: A receiver with the same dimensions that starts empty and applies every key frame and
  delta frame in order always holds the same picture as the sender's \<open>last_frame\<close>, whatever the
  frames are and whichever were forced to be key frames.\<close>

theorem delta_receiver_in_step:
  assumes "process_run (FrameProcessor_new w h) fs = Inr (self', pfs)"
  shows "foldl (receive (FrameProcessor_new w h)) None pfs = fp_last_frame self'"
proof -
  let ?rcv = "FrameProcessor_new w h"
  have "foldl (receive ?rcv) (fp_last_frame self) pfs = fp_last_frame self'"
    if "process_run self fs = Inr (self', pfs)" "fp_width self = fp_width ?rcv"
      "fp_height self = fp_height ?rcv" for self fs pfs
    using that
  proof (induction fs arbitrary: self pfs)
    case (Cons f fs)
    obtain self1 pf pfs' where 1: "process_frame self (fst f) (snd f) = Inr (self1, pf)"
      "process_run self1 fs = Inr (self', pfs')" "pfs = pf # pfs'"
      using process_run_step [OF Cons.prems(1)] .
    have "receive ?rcv (fp_last_frame self) pf = fp_last_frame self1"
      using receive_in_step [OF 1(1) refl, of ?rcv] Cons.prems(2,3) by simp
    then show ?case
      using Cons.IH [OF 1(2)] process_frame_dims [OF 1(1)] Cons.prems(2,3) 1(3) by simp
  qed simp
  from this [OF assms] show ?thesis by (simp add: FrameProcessor_new_def)
qed

theorem delta_receiver_in_step_witness:
  "\<exists>self' pfs. process_run (FrameProcessor_new 2 1) [([1, 2, 3, 4, 5, 6], False), ([1, 2, 3, 4, 5, 7], False)]
       = Inr (self', pfs)
     \<and> foldl (receive (FrameProcessor_new 2 1)) None pfs = fp_last_frame self'"
proof -
  obtain s1 p1 where 1: "process_frame (FrameProcessor_new 2 1) [1, 2, 3, 4, 5, 6] False = Inr (s1, p1)"
    using process_frame_total by blast
  obtain s2 p2 where 2: "process_frame s1 [1, 2, 3, 4, 5, 7] False = Inr (s2, p2)"
    using process_frame_total by blast
  have "process_run (FrameProcessor_new 2 1) [([1, 2, 3, 4, 5, 6], False), ([1, 2, 3, 4, 5, 7], False)]
      = Inr (s2, [p1, p2])"
    using 1 2 by simp
  then show ?thesis using delta_receiver_in_step by blast
qed

text \<open>C18: For a frame of any non-empty size whose bytes can be addressed in \<open>u32\<close>, rebuilding it
  from the previous one and the changed tiles gives exactly the new frame if and only if every
  changed byte lies in a tile one of whose five sampled pixels changed.\<close>

theorem delta_exact_iff_changes_sampled:
  assumes "0 < unat w" "0 < unat h" "unat w * unat h * 3 < 2 ^ 32"
    and "length prev = unat w * unat h * 3" "length cur = unat w * unat h * 3"
  shows "foldl (copy_tile_to_frame (FrameProcessor_new w h)) prev
      (find_changed_tiles (FrameProcessor_new w h) prev cur) = cur
    \<longleftrightarrow> changes_sampled (unat w) (unat h) prev cur"
  using delta_frame_exact_iff [OF processor_ok_new [OF assms(1-3)]] assms(4,5)
  by (simp add: FrameProcessor_new_def)

theorem delta_exact_iff_changes_sampled_witness:
  "foldl (copy_tile_to_frame (FrameProcessor_new 1 1)) [1, 2, 3]
      (find_changed_tiles (FrameProcessor_new 1 1) [1, 2, 3] [4, 5, 6]) = [4, 5, 6]
    \<longleftrightarrow> changes_sampled 1 1 [1, 2, 3] [4, 5, 6]"
  using delta_exact_iff_changes_sampled [of 1 1 "[1, 2, 3]" "[4, 5, 6]"] by simp

text \<open>The five samples of a tile can miss a change: in a frame of four pixels in a row a new
  second pixel is not noticed, the delta frame carries no tile, and the old picture stays.\<close>

theorem unsampled_change_is_lost:
  "process_frame
     ((FrameProcessor_new 4 1)\<lparr>fp_last_frame := Some [0, 0, 0, 0, 0, 0, 0, 0, 0, 0, 0, 0]\<rparr>)
     [0, 0, 0, 255, 255, 255, 0, 0, 0, 0, 0, 0] False
   = Inr ((FrameProcessor_new 4 1)\<lparr>fp_last_frame := Some [0, 0, 0, 0, 0, 0, 0, 0, 0, 0, 0, 0]\<rparr>,
          \<lparr>pf_frame_type = DeltaFrame, pf_data = [], pf_width = 4, pf_height = 1, pf_tiles = Some []\<rparr>)"
  by code_simp

end
