(* ===== verification/Protocol.thy ===== *)
theory Protocol
  imports Quality Frame_Processor
begin

text \<open>
  \<open>src/common/protocol.rs\<close>: the messages of the wire protocol. A constructor is the source's
  variant with the prefix \<open>Msg_\<close>, its arguments the variant's fields in order. \<open>i32\<close> coordinates
  are \<open>int\<close>s. \<open>bincode\<close> is a crate the code only calls: the two functions are the record
  \<open>bincode\<close>, and what the code relies on is \<open>codec_correct\<close>.
\<close>

datatype EncodingType = Raw | ZstdCompressed | H264 | WebP

datatype MouseButton = Left | Right | Middle

record Modifiers =
  mod_shift :: bool
  mod_ctrl :: bool
  mod_alt :: bool
  mod_meta :: bool

record Frame =
  fr_timestamp :: u64
  fr_width :: u32
  fr_height :: u32
  fr_data :: bytes

datatype Message =
    Msg_AuthRequest string
  | Msg_AuthResponse bool "string option"
  | Msg_KeyExchange bytes
  | Msg_KeyExchangeAck bytes
  | Msg_ScreenFrame u64 u32 u32 bytes EncodingType
  | Msg_DeltaFrame u64 "TileData list"
  | Msg_QualityChange QualityMode
  | Msg_QualityMetricsReport QualityMetrics
  | Msg_RequestQualityChange QualityMode
  | Msg_MouseMove int int
  | Msg_MouseClick MouseButton bool int int
  | Msg_MouseScroll f64 f64
  | Msg_KeyEvent string bool Modifiers
  | Msg_StartStream
  | Msg_StopStream
  | Msg_Ping u64
  | Msg_Pong u64
  | Msg_Disconnect
  | Msg_FrameAck u64 u64
  | Msg_NetworkStats u64 u64

record bincode =
  bc_serialize :: "Message \<Rightarrow> string + bytes"
  bc_deserialize :: "bytes \<Rightarrow> string + Message"

definition Message_serialize :: "bincode \<Rightarrow> Message \<Rightarrow> bytes result" where
  "Message_serialize bc self =
     (case bc_serialize bc self of Inl e \<Rightarrow> Inl (External e) | Inr d \<Rightarrow> Inr d)"

definition Message_deserialize :: "bincode \<Rightarrow> bytes \<Rightarrow> Message result" where
  "Message_deserialize bc data =
     (case bc_deserialize bc data of Inl e \<Rightarrow> Inl (External e) | Inr m \<Rightarrow> Inr m)"

text \<open>What serialization produces, deserialization reads back.\<close>

definition codec_correct :: "bincode \<Rightarrow> bool" where
  "codec_correct bc \<longleftrightarrow>
     (\<forall>m d. bc_serialize bc m = Inr d \<longrightarrow> bc_deserialize bc d = Inr m)"

lemma deserialize_serialize:
  "codec_correct bc \<Longrightarrow> Message_serialize bc m = Inr d \<Longrightarrow> Message_deserialize bc d = Inr m"
  by (auto simp: codec_correct_def Message_serialize_def Message_deserialize_def split: sum.splits)

section \<open>A concrete codec for the witnesses\<close>

text \<open>A message is its position in a table, one byte.\<close>

fun index_of :: "'a \<Rightarrow> 'a list \<Rightarrow> nat option" where
  "index_of x [] = None"
| "index_of x (y # ys) = (if x = y then Some 0 else map_option Suc (index_of x ys))"

definition table_bincode :: "Message list \<Rightarrow> bincode" where
  "table_bincode ms =
     \<lparr>bc_serialize = (\<lambda>m. case index_of m ms of
        Some i \<Rightarrow> if i < 256 then Inr [word_of_nat i] else Inl ''unsupported''
      | None \<Rightarrow> Inl ''unsupported''),
      bc_deserialize = (\<lambda>bs. case bs of
        [b] \<Rightarrow> if unat b < length ms then Inr (ms ! unat b) else Inl ''invalid tag''
      | _ \<Rightarrow> Inl ''unexpected end of file'')\<rparr>"

lemma index_of_SomeD: "index_of x xs = Some i \<Longrightarrow> i < length xs \<and> xs ! i = x"
  by (induction xs arbitrary: i) (auto split: if_splits)

lemma table_bincode_correct: "codec_correct (table_bincode ms)"
  by (auto simp: codec_correct_def table_bincode_def split: option.splits if_splits
      dest!: index_of_SomeD)

end
