(* ===== verification/Input_Handler.thy ===== *)
theory Input_Handler
  imports Protocol
begin

text \<open>
  \<open>src/server/input_handler.rs\<close>: remote input is replayed through the \<open>enigo\<close> crate. The crate
  is the argument \<open>enigo\<close>, which says for each call whether it fails and with which text; an
  operation returns the calls it makes, in order, and its result.
\<close>

datatype EnigoKey =
    K_Return | K_Tab | K_Space | K_Escape | K_Backspace
  | K_UpArrow | K_DownArrow | K_LeftArrow | K_RightArrow
  | K_Unicode char

datatype EnigoButton = EB_Left | EB_Right | EB_Middle

datatype Direction = Press | Release

datatype enigo_call =
    MoveMouseAbs int int
  | ButtonEvent EnigoButton Direction
  | KeyEvent EnigoKey Direction

type_synonym enigo = "enigo_call \<Rightarrow> string option"

text \<open>\<open>Enigo::new\<close> may fail: \<open>Some\<close> is the error it gives.\<close>

definition InputHandler_new :: "string option \<Rightarrow> unit result" where
  "InputHandler_new enigo_new =
     (case enigo_new of Some e \<Rightarrow> Inl (External e) | None \<Rightarrow> Inr ())"

text \<open>Consecutive calls, each followed by \<open>?\<close>.\<close>

fun run_calls :: "enigo \<Rightarrow> enigo_call list \<Rightarrow> enigo_call list \<times> unit result" where
  "run_calls enigo [] = ([], Inr ())"
| "run_calls enigo (c # cs) =
     (case enigo c of
        Some e \<Rightarrow> ([c], Inl (External e))
      | None \<Rightarrow> (case run_calls enigo cs of (done', r) \<Rightarrow> (c # done', r)))"

definition direction_of :: "bool \<Rightarrow> Direction" where
  "direction_of pressed = (if pressed then Press else Release)"

definition mouse_move :: "enigo \<Rightarrow> int \<Rightarrow> int \<Rightarrow> enigo_call list \<times> unit result" where
  "mouse_move enigo x y = run_calls enigo [MoveMouseAbs x y]"

fun enigo_button :: "MouseButton \<Rightarrow> EnigoButton" where
  "enigo_button Left = EB_Left"
| "enigo_button Right = EB_Right"
| "enigo_button Middle = EB_Middle"

definition mouse_click ::
  "enigo \<Rightarrow> MouseButton \<Rightarrow> bool \<Rightarrow> int \<Rightarrow> int \<Rightarrow> enigo_call list \<times> unit result" where
  "mouse_click enigo button pressed x y =
     run_calls enigo [MoveMouseAbs x y, ButtonEvent (enigo_button button) (direction_of pressed)]"

text \<open>The key table of \<open>key_event\<close>; \<open>None\<close> for the empty name.\<close>

definition enigo_key :: "string \<Rightarrow> EnigoKey option" where
  "enigo_key key_str =
     (if key_str = ''Return'' \<or> key_str = ''Enter'' then Some K_Return
      else if key_str = ''Tab'' then Some K_Tab
      else if key_str = ''Space'' \<or> key_str = '' '' then Some K_Space
      else if key_str = ''Escape'' then Some K_Escape
      else if key_str = ''BackSpace'' then Some K_Backspace
      else if key_str = ''Up'' then Some K_UpArrow
      else if key_str = ''Down'' then Some K_DownArrow
      else if key_str = ''Left'' then Some K_LeftArrow
      else if key_str = ''Right'' then Some K_RightArrow
      else case key_str of ch # _ \<Rightarrow> Some (K_Unicode ch) | [] \<Rightarrow> None)"

definition key_event ::
  "enigo \<Rightarrow> string \<Rightarrow> bool \<Rightarrow> Modifiers \<Rightarrow> enigo_call list \<times> unit result" where
  "key_event enigo key_str pressed modifiers =
     (case enigo_key key_str of
        None \<Rightarrow> ([], Inr ())
      | Some key \<Rightarrow> run_calls enigo [KeyEvent key (direction_of pressed)])"

section \<open>Lemmas\<close>

lemma run_calls_ok:
  "(\<And>c. c \<in> set cs \<Longrightarrow> enigo c = None) \<Longrightarrow> run_calls enigo cs = (cs, Inr ())"
  by (induction cs) auto

lemma run_calls_prefix: "\<exists>rest. cs = fst (run_calls enigo cs) @ rest"
  by (induction cs) (auto split: option.splits prod.splits)

lemma mouse_click_moves_first:
  "fst (mouse_click enigo b p x y) \<in>
    {[MoveMouseAbs x y], [MoveMouseAbs x y, ButtonEvent (enigo_button b) (direction_of p)]}"
  by (auto simp: mouse_click_def split: option.splits)

end
