(* ===== verification/Encoder.thy ===== *)
theory Encoder
  imports Rust_Time
begin

text \<open>
  \<open>src/common/encoder.rs\<close>: the encoder settings, the software encoder and the contract of the
  \<open>VideoEncoder\<close> trait as the locale \<open>video_encoder\<close>; also
  \<open>src/platform/macos/video_toolbox_fixed.rs\<close>, which wraps the software encoder. The WebP encoder
  is the parameter \<open>webp\<close> (\<open>None\<close>: it panics). \<open>encode_frame\<close> mutates its encoder also when it
  fails, so it returns the new encoder next to the result. The factory, which needs the FFmpeg
  encoder, is in the theory of that encoder.
\<close>

datatype EncoderType = Software | Hardware

record EncoderSettings =
  es_width :: u32
  es_height :: u32
  es_fps :: u32
  es_bitrate :: u32
  es_keyframe_interval :: u32

record EncodedFrame =
  ef_data :: bytes
  ef_is_keyframe :: bool
  ef_timestamp :: u64

type_synonym webp = "bytes \<Rightarrow> u32 \<Rightarrow> u32 \<Rightarrow> bytes option"

section \<open>The software encoder\<close>

record SoftwareEncoder =
  se_settings :: EncoderSettings
  se_frame_count :: u64

definition SoftwareEncoder_new :: "EncoderSettings \<Rightarrow> SoftwareEncoder result" where
  "SoftwareEncoder_new settings = Inr \<lparr>se_settings = settings, se_frame_count = 0\<rparr>"

text \<open>\<open>force_keyframe || frame_count % interval == 0\<close>: the remainder is not computed when a key
  frame is forced, and panics for the interval 0.\<close>

definition keyframe_due :: "SoftwareEncoder \<Rightarrow> bool \<Rightarrow> bool result" where
  "keyframe_due self force_keyframe =
     (if force_keyframe then Inr True
      else let interval = (ucast (es_keyframe_interval (se_settings self)) :: u64)
           in if interval = 0
              then Inl (Panicked ''attempt to calculate the remainder with a divisor of zero'')
              else Inr (se_frame_count self mod interval = 0))"

definition SoftwareEncoder_encode_frame ::
  "webp \<Rightarrow> SystemTime \<Rightarrow> SoftwareEncoder \<Rightarrow> bytes \<Rightarrow> bool \<Rightarrow> SoftwareEncoder \<times> EncodedFrame result" where
  "SoftwareEncoder_encode_frame webp clock self rgb_data force_keyframe =
     and_then (self, keyframe_due self force_keyframe) (\<lambda>self is_keyframe.
       let self' = self\<lparr>se_frame_count := se_frame_count self + 1\<rparr>
       in case webp rgb_data (es_width (se_settings self)) (es_height (se_settings self)) of
            None \<Rightarrow> (self', Inl (Panicked ''webp''))
          | Some encoded \<Rightarrow>
              (self', try_bind (unix_millis clock) (\<lambda>timestamp.
                 Inr \<lparr>ef_data = encoded, ef_is_keyframe = is_keyframe, ef_timestamp = timestamp\<rparr>)))"

definition SoftwareEncoder_get_type :: "SoftwareEncoder \<Rightarrow> EncoderType" where
  "SoftwareEncoder_get_type self = Software"

definition SoftwareEncoder_update_settings ::
  "SoftwareEncoder \<Rightarrow> EncoderSettings \<Rightarrow> SoftwareEncoder \<times> unit result" where
  "SoftwareEncoder_update_settings self settings = (self\<lparr>se_settings := settings\<rparr>, Inr ())"

section \<open>The wrapper of \<open>video_toolbox_fixed.rs\<close>\<close>

record VideoToolboxFixed =
  vtf_settings :: EncoderSettings
  vtf_fallback_encoder :: SoftwareEncoder

definition VideoToolboxFixed_new :: "EncoderSettings \<Rightarrow> VideoToolboxFixed result" where
  "VideoToolboxFixed_new settings =
     try_bind (SoftwareEncoder_new settings) (\<lambda>fallback_encoder.
       Inr \<lparr>vtf_settings = settings, vtf_fallback_encoder = fallback_encoder\<rparr>)"

definition VideoToolboxFixed_encode_frame ::
  "webp \<Rightarrow> SystemTime \<Rightarrow> VideoToolboxFixed \<Rightarrow> bytes \<Rightarrow> bool \<Rightarrow> VideoToolboxFixed \<times> EncodedFrame result" where
  "VideoToolboxFixed_encode_frame webp clock self rgb_data force_keyframe =
     (case SoftwareEncoder_encode_frame webp clock (vtf_fallback_encoder self) rgb_data force_keyframe of
        (enc, r) \<Rightarrow> (self\<lparr>vtf_fallback_encoder := enc\<rparr>, r))"

definition VideoToolboxFixed_get_type :: "VideoToolboxFixed \<Rightarrow> EncoderType" where
  "VideoToolboxFixed_get_type self = Hardware"

definition VideoToolboxFixed_update_settings ::
  "VideoToolboxFixed \<Rightarrow> EncoderSettings \<Rightarrow> VideoToolboxFixed \<times> unit result" where
  "VideoToolboxFixed_update_settings self settings =
     (let self1 = self\<lparr>vtf_settings := settings\<rparr>
      in case SoftwareEncoder_update_settings (vtf_fallback_encoder self1) settings of
           (enc, r) \<Rightarrow> (self1\<lparr>vtf_fallback_encoder := enc\<rparr>, r))"

section \<open>The contract of the trait\<close>

text \<open>
  What every \<open>VideoEncoder\<close> of the program promises of an encoding that returns: it keeps the
  type and the settings, new settings are taken over, and the timestamp of a frame is the clock
  in milliseconds. \<open>None\<close> is an encoding that does not return. An encoder that does not have to be
  opened again for new settings is a \<open>steady_encoder\<close>: it also accepts them all.
\<close>

fun panicked :: "'a result \<Rightarrow> bool" where
  "panicked (Inl (Panicked e)) \<longleftrightarrow> True"
| "panicked r \<longleftrightarrow> False"

locale video_encoder =
  fixes encode_frame :: "SystemTime \<Rightarrow> 'e \<Rightarrow> bytes \<Rightarrow> bool \<Rightarrow> ('e \<times> EncodedFrame result) option"
    and get_type :: "'e \<Rightarrow> EncoderType"
    and update_settings :: "'e \<Rightarrow> EncoderSettings \<Rightarrow> 'e \<times> unit result"
    and settings_of :: "'e \<Rightarrow> EncoderSettings"
  assumes encode_type: "encode_frame t e d f = Some (e', r) \<Longrightarrow> get_type e' = get_type e"
    and encode_settings: "encode_frame t e d f = Some (e', r) \<Longrightarrow> settings_of e' = settings_of e"
    and encode_timestamp:
      "encode_frame t e d f = Some (e', Inr ef) \<Longrightarrow> unix_millis t = Inr (ef_timestamp ef)"
    and update_type: "update_settings e st = (e', u) \<Longrightarrow> get_type e' = get_type e"
    and update_taken: "update_settings e st = (e', u) \<Longrightarrow> settings_of e' = st"
begin

text \<open>A run: frames with the clock readings they are encoded at. A panic unwinds through the caller, so
  no frame after it is encoded: the run ends with the result of that frame.\<close>

fun encode_run ::
  "'e \<Rightarrow> (SystemTime \<times> bytes \<times> bool) list \<Rightarrow> ('e \<times> EncodedFrame result list) option" where
  "encode_run e [] = Some (e, [])"
| "encode_run e ((t, d, f) # fs) =
     (case encode_frame t e d f of
        None \<Rightarrow> None
      | Some (e1, r) \<Rightarrow>
          if panicked r then Some (e1, [r])
          else map_option (\<lambda>(e2, rs). (e2, r # rs)) (encode_run e1 fs))"

lemma run_step:
  assumes "encode_run e ((t, d, f) # fs) = Some (e', rs)"
  obtains (panic) r where "encode_frame t e d f = Some (e', r)" "panicked r" "rs = [r]"
  | (on) e1 r rs' where "encode_frame t e d f = Some (e1, r)" "\<not> panicked r"
      "encode_run e1 fs = Some (e', rs')" "rs = r # rs'"
  using assms by (auto split: option.splits if_splits)

lemma run_frame:
  "encode_run e fs = Some (e', rs) \<Longrightarrow>
   get_type e' = get_type e \<and> settings_of e' = settings_of e \<and> length rs \<le> length fs
   \<and> (list_all (\<lambda>r. \<not> panicked r) rs \<longrightarrow> length rs = length fs)"
proof (induction fs arbitrary: e rs)
  case (Cons a fs)
  obtain t d f where a: "a = (t, d, f)" by (cases a)
  from Cons.prems [unfolded a] show ?case
  proof (cases rule: run_step)
    case (panic r)
    then show ?thesis using encode_type [OF panic(1)] encode_settings [OF panic(1)] by simp
  next
    case (on e1 r rs')
    then show ?thesis using Cons.IH [OF on(3)] encode_type [OF on(1)] encode_settings [OF on(1)] by simp
  qed
qed simp

lemma run_returns:
  assumes "\<And>t e d f. encode_frame t e d f \<noteq> None"
  shows "\<exists>e' rs. encode_run e fs = Some (e', rs)"
proof (induction fs arbitrary: e)
  case (Cons a fs)
  obtain t d f where a: "a = (t, d, f)" by (cases a)
  obtain e1 r where 1: "encode_frame t e d f = Some (e1, r)" using assms by fastforce
  obtain e' rs where "encode_run e1 fs = Some (e', rs)" using Cons.IH by blast
  then show ?case by (simp add: a 1)
qed simp

end

locale steady_encoder = video_encoder +
  assumes update_ok: "update_settings e st = (e', u) \<Longrightarrow> u = Inr ()"
begin

lemma update_then_run:
  assumes "update_settings e st = (e1, u)" "encode_run e1 fs = Some (e', rs)"
  shows "u = Inr () \<and> settings_of e' = st \<and> get_type e' = get_type e"
  using update_ok [OF assms(1)] update_taken [OF assms(1)] update_type [OF assms(1)] run_frame [OF assms(2)]
  by simp

end

lemma soft_encode_fields:
  assumes "SoftwareEncoder_encode_frame webp t e d f = (e', r)"
  shows "se_settings e' = se_settings e" "r = Inr ef \<Longrightarrow> unix_millis t = Inr (ef_timestamp ef)"
  using assms
  by (auto simp: SoftwareEncoder_encode_frame_def Let_def try_bind_Inr_iff and_then_def
      split: option.splits sum.splits)

interpretation soft: steady_encoder
  "\<lambda>t e d f. Some (SoftwareEncoder_encode_frame webp t e d f)"
  SoftwareEncoder_get_type SoftwareEncoder_update_settings se_settings for webp
  by unfold_locales
    (auto simp: SoftwareEncoder_get_type_def SoftwareEncoder_update_settings_def
      dest: soft_encode_fields)

interpretation vtf: steady_encoder
  "\<lambda>t e d f. Some (VideoToolboxFixed_encode_frame webp t e d f)"
  VideoToolboxFixed_get_type VideoToolboxFixed_update_settings vtf_settings for webp
  by unfold_locales
    (auto simp: VideoToolboxFixed_encode_frame_def VideoToolboxFixed_get_type_def
      VideoToolboxFixed_update_settings_def SoftwareEncoder_update_settings_def
      split: prod.splits dest: soft_encode_fields(2))

section \<open>The key frame schedule of the software encoder\<close>

lemma soft_encode_ok:
  assumes "es_keyframe_interval (se_settings e) \<noteq> 0" "0 \<le> t"
    "webp d (es_width (se_settings e)) (es_height (se_settings e)) = Some enc"
  shows "SoftwareEncoder_encode_frame webp t e d f =
    (e\<lparr>se_frame_count := se_frame_count e + 1\<rparr>,
     Inr \<lparr>ef_data = enc,
          ef_is_keyframe = (f \<or> unat (se_frame_count e) mod unat (es_keyframe_interval (se_settings e)) = 0),
          ef_timestamp = word_of_nat (as_millis (nat t))\<rparr>)"
proof -
  have z: "(ucast (es_keyframe_interval (se_settings e)) :: u64) \<noteq> 0"
    using assms(1) by (simp add: word_unat_eq_iff)
  have "se_frame_count e mod ucast (es_keyframe_interval (se_settings e)) = 0
      \<longleftrightarrow> unat (se_frame_count e) mod unat (es_keyframe_interval (se_settings e)) = 0"
    by (simp add: word_unat_eq_iff unat_mod)
  then show ?thesis using z assms
    by (simp add: SoftwareEncoder_encode_frame_def keyframe_due_def Let_def unix_millis_def
        unix_duration_def)
qed

section \<open>Properties\<close>

text \<open>A sequence of calls of the software encoder, each with its clock, data and \<open>force_keyframe\<close>.\<close>

fun software_run ::
  "webp \<Rightarrow> SoftwareEncoder \<Rightarrow> (SystemTime \<times> bytes \<times> bool) list \<Rightarrow> EncodedFrame result list" where
  "software_run webp e [] = []"
| "software_run webp e ((t, d, f) # fs) =
     (case SoftwareEncoder_encode_frame webp t e d f of
        (e', r) \<Rightarrow> r # software_run webp e' fs)"

text \<open>As long as WebP succeeds, the software encoder encodes every frame, and the \<open>i\<close>-th frame
  of a new encoder is a key frame exactly if it was forced or \<open>i\<close> is a multiple of the key frame
  interval.\<close>

theorem software_keyframe_schedule:
  assumes "SoftwareEncoder_new settings = Inr e" "es_keyframe_interval settings \<noteq> 0"
    and "\<And>d. webp d (es_width settings) (es_height settings) \<noteq> None"
    and "list_all (\<lambda>(t, d, f). 0 \<le> t) fs" "i < length fs" "length fs \<le> 2 ^ 64"
  shows "\<exists>ef. software_run webp e fs ! i = Inr ef
    \<and> (ef_is_keyframe ef \<longleftrightarrow> snd (snd (fs ! i)) \<or> i mod unat (es_keyframe_interval settings) = 0)"
proof -
  have "\<exists>ef. software_run webp e fs ! i = Inr ef
    \<and> (ef_is_keyframe ef \<longleftrightarrow>
        snd (snd (fs ! i)) \<or> (unat (se_frame_count e) + i) mod unat (es_keyframe_interval settings) = 0)"
    if "se_settings e = settings" "list_all (\<lambda>(t, d, f). 0 \<le> t) fs" "i < length fs"
      "unat (se_frame_count e) + length fs \<le> 2 ^ 64" for e fs
    using that
  proof (induction fs arbitrary: e i)
    case (Cons a fs)
    obtain t d f where a: "a = (t, d, f)" by (cases a)
    obtain enc where "webp d (es_width settings) (es_height settings) = Some enc"
      using assms(3) by auto
    then have step: "SoftwareEncoder_encode_frame webp t e d f =
        (e\<lparr>se_frame_count := se_frame_count e + 1\<rparr>,
         Inr \<lparr>ef_data = enc,
              ef_is_keyframe = (f \<or> unat (se_frame_count e) mod unat (es_keyframe_interval settings) = 0),
              ef_timestamp = word_of_nat (as_millis (nat t))\<rparr>)"
      using soft_encode_ok [of e t webp d enc f] Cons.prems(1,2) assms(2) a by simp
    show ?case
    proof (cases i)
      case 0
      then show ?thesis using step a by simp
    next
      case (Suc j)
      have "unat (se_frame_count e) + 1 < 2 ^ 64" using Cons.prems(3,4) Suc by simp
      then have "unat (se_frame_count e + 1) = unat (se_frame_count e) + 1" by (simp add: unat_add_small)
      then show ?thesis
        using Cons.IH [of "e\<lparr>se_frame_count := se_frame_count e + 1\<rparr>" j] Cons.prems step a Suc by simp
    qed
  qed simp
  moreover have "se_settings e = settings" "se_frame_count e = 0"
    using assms(1) by (auto simp: SoftwareEncoder_new_def)
  ultimately show ?thesis using assms(4-6) by fastforce
qed

theorem software_keyframe_schedule_witness:
  "\<exists>ef. software_run (\<lambda>d w h. Some d)
       \<lparr>se_settings = \<lparr>es_width = 2, es_height = 2, es_fps = 30, es_bitrate = 1, es_keyframe_interval = 2\<rparr>,
        se_frame_count = 0\<rparr>
       [(0, [1], False), (1, [2], False), (2, [3], True)] ! 1 = Inr ef
     \<and> \<not> ef_is_keyframe ef"
  using software_keyframe_schedule
    [of "\<lparr>es_width = 2, es_height = 2, es_fps = 30, es_bitrate = 1, es_keyframe_interval = 2\<rparr>"
      "\<lparr>se_settings = \<lparr>es_width = 2, es_height = 2, es_fps = 30, es_bitrate = 1, es_keyframe_interval = 2\<rparr>,
        se_frame_count = 0\<rparr>"
      "\<lambda>d w h. Some d" "[(0, [1], False), (1, [2], False), (2, [3], True)]" 1]
  by (simp add: SoftwareEncoder_new_def)

end
