(* ===== verification/Ffmpeg_Encoder.thy ===== *)
theory Ffmpeg_Encoder
  imports Encoder
begin

text \<open>
  \<open>src/common/ffmpeg_encoder.rs\<close>: the hardware encoder on top of FFmpeg, and the encoder factory
  of \<open>src/common/encoder.rs\<close>. FFmpeg is a crate the code only calls: the record \<open>ffmpeg\<close> has its
  functions as fields, \<open>'e\<close> is the state of an open encoder. A function that may fail returns
  \<open>Inl\<close> of the library's text. The colour conversion is the source's \<open>f32\<close> arithmetic.
\<close>

section \<open>Video frames\<close>

text \<open>A planar frame: plane \<open>i\<close> is the bytes \<open>data(i)\<close> with rows \<open>stride(i)\<close> apart.\<close>

record VideoFrame =
  vf_width :: u32
  vf_height :: u32
  vf_planes :: "bytes list"
  vf_strides :: "nat list"
  vf_pts :: "int option"

text \<open>\<open>frame.data(i)\<close> and \<open>frame.stride(i)\<close> panic for a plane the frame does not have.\<close>

definition plane_of :: "VideoFrame \<Rightarrow> nat \<Rightarrow> bytes result" where
  "plane_of frame i = index_vec (vf_planes frame) i"

definition stride_of :: "VideoFrame \<Rightarrow> nat \<Rightarrow> nat result" where
  "stride_of frame i = index_vec (vf_strides frame) i"

section \<open>The library\<close>

datatype platform = MacOS | Windows | OtherOS

record EncoderConfig =
  ec_codec :: string
  ec_width :: u32
  ec_height :: u32
  ec_time_base :: "int \<times> int"
  ec_frame_rate :: "int \<times> int"
  ec_bit_rate :: nat
  ec_max_b_frames :: nat
  ec_gop :: u32

record Packet =
  pk_data :: "bytes option"
  pk_is_key :: bool

record 'e ffmpeg =
  ff_init :: "string option"
  ff_find_by_name :: "string \<Rightarrow> string option"
  ff_find_h264 :: "string option"
  ff_video :: "string \<Rightarrow> string option"
  ff_open :: "EncoderConfig \<Rightarrow> string + 'e"
  ff_new_frame :: "u32 \<Rightarrow> u32 \<Rightarrow> VideoFrame"
  ff_send_frame :: "'e \<Rightarrow> VideoFrame \<Rightarrow> 'e \<times> string option"
  ff_receive_packet :: "'e \<Rightarrow> 'e \<times> Packet option"
  ff_send_eof :: "'e \<Rightarrow> 'e"

section \<open>Opening the encoder\<close>

record 'e FFmpegHardwareEncoder =
  fe_encoder :: 'e
  fe_frame :: VideoFrame
  fe_settings :: EncoderSettings
  fe_frame_count :: u64
  fe_pts :: int

fun or_else :: "'a option \<Rightarrow> 'a option \<Rightarrow> 'a option" where
  "or_else (Some x) _ = Some x"
| "or_else None y = y"

fun find_codec :: "platform \<Rightarrow> 'e ffmpeg \<Rightarrow> string option" where
  "find_codec MacOS ff =
     or_else (or_else (ff_find_by_name ff ''h264_videotoolbox'')
                      (ff_find_by_name ff ''hevc_videotoolbox'')) (ff_find_h264 ff)"
| "find_codec Windows ff =
     or_else (or_else (or_else (ff_find_by_name ff ''h264_nvenc'')
                               (ff_find_by_name ff ''h264_qsv''))
                      (ff_find_by_name ff ''h264_amf'')) (ff_find_h264 ff)"
| "find_codec OtherOS ff =
     or_else (or_else (ff_find_by_name ff ''h264_vaapi'')
                      (ff_find_by_name ff ''h264_nvenc'')) (ff_find_h264 ff)"

definition encoder_config :: "string \<Rightarrow> EncoderSettings \<Rightarrow> EncoderConfig" where
  "encoder_config codec settings =
     \<lparr>ec_codec = codec, ec_width = es_width settings, ec_height = es_height settings,
      ec_time_base = (1, sint (es_fps settings)), ec_frame_rate = (sint (es_fps settings), 1),
      ec_bit_rate = unat (es_bitrate settings), ec_max_b_frames = 0,
      ec_gop = es_keyframe_interval settings\<rparr>"

definition FFmpegHardwareEncoder_new ::
  "platform \<Rightarrow> 'e ffmpeg \<Rightarrow> EncoderSettings \<Rightarrow> 'e FFmpegHardwareEncoder result" where
  "FFmpegHardwareEncoder_new os ff settings =
     (case ff_init ff of
        Some _ \<Rightarrow> Inl (Anyhow ''Failed to initialize FFmpeg'')
      | None \<Rightarrow>
          try_bind (ok_or ''Failed to find H.264 encoder'' (find_codec os ff)) (\<lambda>codec.
            case ff_video ff codec of
              Some e \<Rightarrow> Inl (External e)
            | None \<Rightarrow>
                (case ff_open ff (encoder_config codec settings) of
                   Inl e \<Rightarrow> Inl (External e)
                 | Inr enc \<Rightarrow>
                     Inr \<lparr>fe_encoder = enc,
                          fe_frame = (ff_new_frame ff (es_width settings) (es_height settings))
                                       \<lparr>vf_pts := Some 0\<rparr>,
                          fe_settings = settings, fe_frame_count = 0, fe_pts = 0\<rparr>)))"

section \<open>Colour conversion\<close>

abbreviation u8_as_f32 :: "u8 \<Rightarrow> f32" where "u8_as_f32 b \<equiv> nat_as_f32 (unat b)"

definition luma :: "u8 \<Rightarrow> u8 \<Rightarrow> u8 \<Rightarrow> u8" where
  "luma r g b =
     fp_as_u8 (add32 (add32 (mul32 (f32 (299 / 1000)) (u8_as_f32 r))
                            (mul32 (f32 (587 / 1000)) (u8_as_f32 g)))
                     (mul32 (f32 (114 / 1000)) (u8_as_f32 b)))"

definition chroma_u :: "u8 \<Rightarrow> u8 \<Rightarrow> u8 \<Rightarrow> u8" where
  "chroma_u r g b =
     fp_as_u8 (add32 (add32 (sub32 (mul32 (fneg (f32 (169 / 1000))) (u8_as_f32 r))
                                   (mul32 (f32 (331 / 1000)) (u8_as_f32 g)))
                            (mul32 (f32 (1 / 2)) (u8_as_f32 b)))
                     (f32 128))"

definition chroma_v :: "u8 \<Rightarrow> u8 \<Rightarrow> u8 \<Rightarrow> u8" where
  "chroma_v r g b =
     fp_as_u8 (add32 (sub32 (sub32 (mul32 (f32 (1 / 2)) (u8_as_f32 r))
                                   (mul32 (f32 (419 / 1000)) (u8_as_f32 g)))
                            (mul32 (f32 (81 / 1000)) (u8_as_f32 b)))
                     (f32 128))"

text \<open>The pixel \<open>(x, y)\<close> of an RGB frame of the given width, with the index panics.\<close>

definition rgb_at :: "bytes \<Rightarrow> nat \<Rightarrow> nat \<Rightarrow> nat \<Rightarrow> (u8 \<times> u8 \<times> u8) result" where
  "rgb_at rgb_data width x y =
     (let rgb_idx = (y * width + x) * 3
      in try_bind (index_vec rgb_data rgb_idx) (\<lambda>r.
         try_bind (index_vec rgb_data (rgb_idx + 1)) (\<lambda>g.
         try_bind (index_vec rgb_data (rgb_idx + 2)) (\<lambda>b. Inr (r, g, b)))))"

text \<open>\<open>for y in (0..height).step_by(k) { for x in (0..width).step_by(k) }\<close>\<close>

definition raster :: "nat \<Rightarrow> nat \<Rightarrow> nat \<Rightarrow> (nat \<times> nat) list" where
  "raster k width height =
     concat (map (\<lambda>y. map (\<lambda>x. (x, y)) (filter (\<lambda>x. x mod k = 0) [0..<width]))
                 (filter (\<lambda>y. y mod k = 0) [0..<height]))"

text \<open>One pass over a plane: every pixel of the raster is converted and stored at
  \<open>(y / k) * stride + x / k\<close>.\<close>

definition fill_plane ::
  "nat \<Rightarrow> (u8 \<Rightarrow> u8 \<Rightarrow> u8 \<Rightarrow> u8) \<Rightarrow> nat \<Rightarrow> nat \<Rightarrow> bytes \<Rightarrow> nat \<Rightarrow> bytes \<Rightarrow> bytes result" where
  "fill_plane k conv width height rgb_data stride plane =
     fold_result (\<lambda>(x, y) p.
         try_bind (rgb_at rgb_data width x y) (\<lambda>(r, g, b).
           set_vec p (y div k * stride + x div k) (conv r g b)))
       (raster k width height) plane"

definition rgb_to_yuv420p ::
  "'e FFmpegHardwareEncoder \<Rightarrow> bytes \<Rightarrow> 'e FFmpegHardwareEncoder result" where
  "rgb_to_yuv420p self rgb_data =
     (let width = unat (es_width (fe_settings self));
          height = unat (es_height (fe_settings self));
          frame = fe_frame self
      in try_bind (stride_of frame 0) (\<lambda>y_stride.
         try_bind (stride_of frame 1) (\<lambda>u_stride.
         try_bind (stride_of frame 2) (\<lambda>v_stride.
         try_bind (plane_of frame 0) (\<lambda>y_plane.
         try_bind (fill_plane 1 luma width height rgb_data y_stride y_plane) (\<lambda>y_plane'.
         try_bind (plane_of frame 1) (\<lambda>u_plane.
         try_bind (fill_plane 2 chroma_u width height rgb_data u_stride u_plane) (\<lambda>u_plane'.
         try_bind (plane_of frame 2) (\<lambda>v_plane.
         try_bind (fill_plane 2 chroma_v width height rgb_data v_stride v_plane) (\<lambda>v_plane'.
           Inr (self\<lparr>fe_frame := frame\<lparr>vf_planes :=
                  (vf_planes frame)[0 := y_plane', 1 := u_plane', 2 := v_plane']\<rparr>\<rparr>)))))))))))"

section \<open>Encoding\<close>

text \<open>
  The loop that collects packets ends when \<open>receive_packet\<close> fails; nothing in the code bounds it,
  so it is a partial function: \<open>None\<close> is a loop that never ends.
\<close>

partial_function (option) collect_packets ::
  "('e \<Rightarrow> 'e \<times> Packet option) \<Rightarrow> 'e \<Rightarrow> bytes \<Rightarrow> bool \<Rightarrow> ('e \<times> (bytes \<times> bool) result) option" where
  "collect_packets recv e encoded_data is_keyframe =
     (case recv e of
        (e', None) \<Rightarrow> Some (e', Inr (encoded_data, is_keyframe))
      | (e', Some p) \<Rightarrow>
          (case pk_data p of
             None \<Rightarrow> Some (e', Inl (Panicked ''called Option::unwrap() on a None value''))
           | Some d \<Rightarrow> collect_packets recv e' (encoded_data @ d) (pk_is_key p)))"

declare collect_packets.simps [code]

definition encoded_frame :: "SystemTime \<Rightarrow> bytes \<Rightarrow> bool \<Rightarrow> EncodedFrame result" where
  "encoded_frame clock encoded_data is_keyframe =
     try_bind (unix_millis clock) (\<lambda>timestamp.
       if encoded_data = []
       then Inr \<lparr>ef_data = [], ef_is_keyframe = False, ef_timestamp = timestamp\<rparr>
       else Inr \<lparr>ef_data = encoded_data, ef_is_keyframe = is_keyframe, ef_timestamp = timestamp\<rparr>)"

definition FFmpeg_encode_frame ::
  "'e ffmpeg \<Rightarrow> SystemTime \<Rightarrow> 'e FFmpegHardwareEncoder \<Rightarrow> bytes \<Rightarrow> bool \<Rightarrow>
   ('e FFmpegHardwareEncoder \<times> EncodedFrame result) option" where
  "FFmpeg_encode_frame ff clock self rgb_data force_keyframe =
     (case rgb_to_yuv420p self rgb_data of
        Inl e \<Rightarrow> Some (self, Inl e)
      | Inr self1 \<Rightarrow>
          let self2 = self1\<lparr>fe_frame := (fe_frame self1)\<lparr>vf_pts := Some (fe_pts self1)\<rparr>,
                            fe_pts := fe_pts self1 + 1\<rparr>
          in case ff_send_frame ff (fe_encoder self2) (fe_frame self2) of
               (e1, Some err) \<Rightarrow> Some (self2\<lparr>fe_encoder := e1\<rparr>, Inl (External err))
             | (e1, None) \<Rightarrow>
                 map_option (\<lambda>(e2, r).
                     let self3 = self2\<lparr>fe_encoder := e2\<rparr>
                     in and_then (self3, r) (\<lambda>self (encoded_data, is_keyframe).
                          (self\<lparr>fe_frame_count := fe_frame_count self + 1\<rparr>,
                           encoded_frame clock encoded_data is_keyframe)))
                   (collect_packets (ff_receive_packet ff) e1 [] False))"

definition FFmpeg_get_type :: "'e FFmpegHardwareEncoder \<Rightarrow> EncoderType" where
  "FFmpeg_get_type self = Hardware"

definition FFmpeg_update_settings ::
  "'e FFmpegHardwareEncoder \<Rightarrow> EncoderSettings \<Rightarrow> 'e FFmpegHardwareEncoder \<times> unit result" where
  "FFmpeg_update_settings self settings = (self\<lparr>fe_settings := settings\<rparr>, Inr ())"

text \<open>\<open>Drop\<close>: end of stream, then the packets are discarded.\<close>

partial_function (option) drain_packets :: "('e \<Rightarrow> 'e \<times> Packet option) \<Rightarrow> 'e \<Rightarrow> 'e option" where
  "drain_packets recv e =
     (case recv e of (e', None) \<Rightarrow> Some e' | (e', Some p) \<Rightarrow> drain_packets recv e')"

declare drain_packets.simps [code]

definition FFmpeg_drop :: "'e ffmpeg \<Rightarrow> 'e FFmpegHardwareEncoder \<Rightarrow> 'e option" where
  "FFmpeg_drop ff self = drain_packets (ff_receive_packet ff) (ff_send_eof ff (fe_encoder self))"

section \<open>The factory\<close>

text \<open>\<open>Box<dyn VideoEncoder>\<close>: the two encoders of the program.\<close>

datatype 'e dyn_encoder = SoftwareBox SoftwareEncoder | HardwareBox "'e FFmpegHardwareEncoder"

definition create_encoder ::
  "platform \<Rightarrow> 'e ffmpeg \<Rightarrow> EncoderType \<Rightarrow> EncoderSettings \<Rightarrow> 'e dyn_encoder result" where
  "create_encoder os ff encoder_type settings =
     (case encoder_type of
        Software \<Rightarrow> try_bind (SoftwareEncoder_new settings) (\<lambda>e. Inr (SoftwareBox e))
      | Hardware \<Rightarrow>
          (case FFmpegHardwareEncoder_new os ff settings of
             Inr e \<Rightarrow> Inr (HardwareBox e)
           | Inl _ \<Rightarrow> try_bind (SoftwareEncoder_new settings) (\<lambda>e. Inr (SoftwareBox e))))"

definition is_hardware_available :: "platform \<Rightarrow> 'e ffmpeg \<Rightarrow> bool" where
  "is_hardware_available os ff =
     (if os = MacOS \<or> os = Windows
      then is_ok (FFmpegHardwareEncoder_new os ff
             \<lparr>es_width = 1920, es_height = 1080, es_fps = 30, es_bitrate = 5000000,
              es_keyframe_interval = 60\<rparr>)
      else False)"

fun dyn_encode_frame ::
  "webp \<Rightarrow> 'e ffmpeg \<Rightarrow> SystemTime \<Rightarrow> 'e dyn_encoder \<Rightarrow> bytes \<Rightarrow> bool \<Rightarrow>
   ('e dyn_encoder \<times> EncodedFrame result) option" where
  "dyn_encode_frame webp ff clock (SoftwareBox e) rgb_data force_keyframe =
     Some (case SoftwareEncoder_encode_frame webp clock e rgb_data force_keyframe of
             (e', r) \<Rightarrow> (SoftwareBox e', r))"
| "dyn_encode_frame webp ff clock (HardwareBox e) rgb_data force_keyframe =
     map_option (\<lambda>(e', r). (HardwareBox e', r))
       (FFmpeg_encode_frame ff clock e rgb_data force_keyframe)"

fun dyn_get_type :: "'e dyn_encoder \<Rightarrow> EncoderType" where
  "dyn_get_type (SoftwareBox e) = SoftwareEncoder_get_type e"
| "dyn_get_type (HardwareBox e) = FFmpeg_get_type e"

fun dyn_update_settings ::
  "'e dyn_encoder \<Rightarrow> EncoderSettings \<Rightarrow> 'e dyn_encoder \<times> unit result" where
  "dyn_update_settings (SoftwareBox e) settings =
     (case SoftwareEncoder_update_settings e settings of (e', r) \<Rightarrow> (SoftwareBox e', r))"
| "dyn_update_settings (HardwareBox e) settings =
     (case FFmpeg_update_settings e settings of (e', r) \<Rightarrow> (HardwareBox e', r))"

section \<open>The two encoders keep the contract\<close>

lemma rgb_to_yuv420p_settings: "rgb_to_yuv420p e d = Inr e' \<Longrightarrow> fe_settings e' = fe_settings e"
  by (auto simp: rgb_to_yuv420p_def Let_def try_bind_Inr_iff)

lemma encoded_frame_timestamp:
  "encoded_frame t d k = Inr ef \<Longrightarrow> unix_millis t = Inr (ef_timestamp ef)"
  by (auto simp: encoded_frame_def try_bind_Inr_iff split: if_splits)

text \<open>How an encoding ends: in the conversion, at \<open>send_frame\<close>, in a panic of the loop, or with a
  frame.\<close>

lemma ffmpeg_encode_cases:
  assumes "FFmpeg_encode_frame ff t e d f = Some (e', r)"
  obtains (conversion) err where "rgb_to_yuv420p e d = Inl err" "e' = e" "r = Inl err"
  | (failed) e1 err where "rgb_to_yuv420p e d = Inr e1" "fe_settings e' = fe_settings e1" "r = Inl err"
  | (frame) e1 c enc k c' where "rgb_to_yuv420p e d = Inr e1" "fe_settings e' = fe_settings e1"
      "collect_packets (ff_receive_packet ff) c [] False = Some (c', Inr (enc, k))"
      "r = encoded_frame t enc k"
proof (cases "rgb_to_yuv420p e d")
  case (Inl err)
  have "e' = e" "r = Inl err" using assms Inl by (simp_all add: FFmpeg_encode_frame_def)
  then show ?thesis using Inl by (intro conversion)
next
  case (Inr e1)
  define e2 where "e2 = e1\<lparr>fe_frame := (fe_frame e1)\<lparr>vf_pts := Some (fe_pts e1)\<rparr>, fe_pts := fe_pts e1 + 1\<rparr>"
  have e2: "fe_settings e2 = fe_settings e1" by (simp add: e2_def)
  obtain c m where send: "ff_send_frame ff (fe_encoder e2) (fe_frame e2) = (c, m)" by force
  have run: "(case m of
      Some err \<Rightarrow> Some (e2\<lparr>fe_encoder := c\<rparr>, Inl (External err))
    | None \<Rightarrow> map_option (\<lambda>(c', r). and_then (e2\<lparr>fe_encoder := c'\<rparr>, r) (\<lambda>self (enc, k).
        (self\<lparr>fe_frame_count := fe_frame_count self + 1\<rparr>, encoded_frame t enc k)))
      (collect_packets (ff_receive_packet ff) c [] False)) = Some (e', r)"
    using assms unfolding FFmpeg_encode_frame_def Inr sum.case Let_def e2_def [symmetric] send prod.case .
  show ?thesis
  proof (cases m)
    case (Some err)
    have "e' = e2\<lparr>fe_encoder := c\<rparr>" "r = Inl (External err)" using run Some by simp_all
    then show ?thesis using e2 by (intro failed [OF Inr]) simp_all
  next
    case None
    then obtain c' q where q: "collect_packets (ff_receive_packet ff) c [] False = Some (c', q)"
      and r: "and_then (e2\<lparr>fe_encoder := c'\<rparr>, q) (\<lambda>self (enc, k).
        (self\<lparr>fe_frame_count := fe_frame_count self + 1\<rparr>, encoded_frame t enc k)) = (e', r)"
      using run by (cases "collect_packets (ff_receive_packet ff) c [] False") auto
    show ?thesis
    proof (cases q)
      case q': (Inl err)
      have "e' = e2\<lparr>fe_encoder := c'\<rparr>" "r = Inl err" using r q' by simp_all
      then show ?thesis using e2 by (intro failed [OF Inr]) simp_all
    next
      case q': (Inr p)
      obtain enc k where p: "p = (enc, k)" by force
      have "e' = e2\<lparr>fe_encoder := c', fe_frame_count := fe_frame_count e2 + 1\<rparr>"
        "r = encoded_frame t enc k"
        using r q' p by simp_all
      then show ?thesis using e2 q q' p by (intro frame [OF Inr]) simp_all
    qed
  qed
qed

lemma ffmpeg_encode_fields:
  assumes "FFmpeg_encode_frame ff t e d f = Some (e', r)"
  shows "fe_settings e' = fe_settings e" "r = Inr ef \<Longrightarrow> unix_millis t = Inr (ef_timestamp ef)"
  using assms
  by (cases rule: ffmpeg_encode_cases;
      auto dest: rgb_to_yuv420p_settings encoded_frame_timestamp)+

interpretation ffm: steady_encoder
  "FFmpeg_encode_frame ff" FFmpeg_get_type FFmpeg_update_settings fe_settings for ff
  by unfold_locales
    (auto simp: FFmpeg_get_type_def FFmpeg_update_settings_def dest: ffmpeg_encode_fields)

fun dyn_settings :: "'e dyn_encoder \<Rightarrow> EncoderSettings" where
  "dyn_settings (SoftwareBox e) = se_settings e"
| "dyn_settings (HardwareBox e) = fe_settings e"

lemma dyn_encode_cases:
  assumes "dyn_encode_frame webp ff t e d f = Some (e', r)"
  obtains (soft) s s' where "e = SoftwareBox s" "e' = SoftwareBox s'"
      "SoftwareEncoder_encode_frame webp t s d f = (s', r)"
  | (hard) h h' where "e = HardwareBox h" "e' = HardwareBox h'"
      "FFmpeg_encode_frame ff t h d f = Some (h', r)"
  using assms by (cases e) (auto split: prod.splits)

interpretation dyn: steady_encoder
  "dyn_encode_frame webp ff" dyn_get_type dyn_update_settings dyn_settings for webp ff
proof
  fix t e d f e' r ef
  assume 1: "dyn_encode_frame webp ff t e d f = Some (e', r)"
  then show "dyn_get_type e' = dyn_get_type e"
    by (cases rule: dyn_encode_cases) (simp_all add: SoftwareEncoder_get_type_def FFmpeg_get_type_def)
  from 1 show "dyn_settings e' = dyn_settings e"
    by (cases rule: dyn_encode_cases) (auto dest: soft_encode_fields ffmpeg_encode_fields)
next
  fix t e d f e' ef
  assume "dyn_encode_frame webp ff t e d f = Some (e', Inr ef)"
  then show "unix_millis t = Inr (ef_timestamp ef)"
    by (cases rule: dyn_encode_cases) (auto dest: soft_encode_fields(2) ffmpeg_encode_fields(2))
next
  fix e st e' r
  assume 1: "dyn_update_settings e st = (e', r)"
  then show "r = Inr ()" "dyn_get_type e' = dyn_get_type e" "dyn_settings e' = st"
    by (cases e; auto simp: SoftwareEncoder_update_settings_def FFmpeg_update_settings_def
        SoftwareEncoder_get_type_def FFmpeg_get_type_def)+
qed

section \<open>The conversion fills the planes\<close>

lemma set_raster:
  "set (raster k w h) = {(x, y). x < w \<and> y < h \<and> x mod k = 0 \<and> y mod k = 0}"
  by (auto simp: raster_def)

lemma distinct_raster: "distinct (raster k w h)"
proof -
  have "distinct (concat (map (\<lambda>y. map (\<lambda>x. (x, y)) xs) ys))"
    if "distinct xs" "distinct ys" for xs ys :: "nat list"
    using that(2) by (induction ys) (auto simp: distinct_map inj_on_def that(1))
  then show ?thesis unfolding raster_def by simp
qed

definition pixel_of :: "bytes \<Rightarrow> nat \<Rightarrow> nat \<Rightarrow> nat \<Rightarrow> u8 \<times> u8 \<times> u8" where
  "pixel_of rgb w x y =
     (rgb ! ((y * w + x) * 3), rgb ! ((y * w + x) * 3 + 1), rgb ! ((y * w + x) * 3 + 2))"

lemma pixel_index_bound:
  fixes x w y h :: nat
  assumes "x < w" "y < h"
  shows "(y * w + x) * 3 + 2 < w * h * 3"
proof -
  have "y * w + x + 1 \<le> Suc y * w" using assms(1) by simp
  also have "\<dots> \<le> h * w" using assms(2) by (intro mult_le_mono1) simp
  finally show ?thesis by (simp add: mult.commute)
qed

lemma rgb_at_ok:
  assumes "w * h * 3 \<le> length rgb" "x < w" "y < h"
  shows "rgb_at rgb w x y = Inr (pixel_of rgb w x y)"
  using pixel_index_bound [OF assms(2,3)] assms(1)
  by (simp add: rgb_at_def pixel_of_def Let_def)

lemma fold_update_nth:
  assumes "distinct (map i xs)" "\<forall>x \<in> set xs. i x < length p"
  shows "length (fold (\<lambda>x p. p[i x := v x]) xs p) = length p
    \<and> (\<forall>x \<in> set xs. fold (\<lambda>x p. p[i x := v x]) xs p ! i x = v x)
    \<and> (\<forall>j. j \<notin> i ` set xs \<longrightarrow> fold (\<lambda>x p. p[i x := v x]) xs p ! j = p ! j)"
  using assms
proof (induction xs arbitrary: p)
  case (Cons a xs)
  have "i a \<notin> i ` set xs" using Cons.prems(1) by simp
  then show ?case using Cons.IH [of "p[i a := v a]"] Cons.prems by auto
qed simp

lemma plane_index_inj:
  assumes "0 < k" "\<And>x. x < w \<Longrightarrow> x div k < s"
  shows "inj_on (\<lambda>(x, y). y div k * s + x div k) (set (raster k w h))"
proof (rule inj_onI)
  fix p q assume p: "p \<in> set (raster k w h)" and q: "q \<in> set (raster k w h)"
    and eq: "(\<lambda>(x, y). y div k * s + x div k) p = (\<lambda>(x, y). y div k * s + x div k) q"
  obtain x y x' y' where pq: "p = (x, y)" "q = (x', y')" by force
  have b: "x div k < s" "x' div k < s" using assms(2) p q pq by (auto simp: set_raster)
  have e: "y div k * s + x div k = y' div k * s + x' div k" using eq pq by simp
  have "y div k = y' div k"
    using arg_cong [OF e, where f = "\<lambda>n. n div s"] b by simp
  moreover have "x div k = x' div k"
    using arg_cong [OF e, where f = "\<lambda>n. n mod s"] b by simp
  moreover have "x mod k = 0" "x' mod k = 0" "y mod k = 0" "y' mod k = 0"
    using p q pq by (auto simp: set_raster)
  ultimately show "p = q" using pq by (metis div_mult_mod_eq)
qed

definition plane_ok :: "nat \<Rightarrow> nat \<Rightarrow> nat \<Rightarrow> nat \<Rightarrow> bytes \<Rightarrow> bool" where
  "plane_ok k w h stride p \<longleftrightarrow>
     (w + k - 1) div k \<le> stride \<and> stride * ((h + k - 1) div k) \<le> length p"

lemma ceil_div:
  fixes x k w :: nat
  assumes "0 < k" "x < w"
  shows "x div k < (w + k - 1) div k"
proof -
  have "Suc (x div k) = (x + k) div k" using assms(1) by simp
  also have "\<dots> \<le> (w + k - 1) div k" using assms by (intro div_le_mono) simp
  finally show ?thesis by simp
qed

lemma plane_index_bound:
  assumes "0 < k" "plane_ok k w h s p" "x < w" "y < h"
  shows "y div k * s + x div k < length p"
proof -
  have "x div k < s" using ceil_div [OF assms(1,3)] assms(2) by (simp add: plane_ok_def)
  then have "y div k * s + x div k < Suc (y div k) * s" by simp
  also have "\<dots> \<le> (h + k - 1) div k * s"
    using ceil_div [OF assms(1,4)] by (intro mult_le_mono1) simp
  finally show ?thesis using assms(2) by (simp add: plane_ok_def mult.commute)
qed

lemma fill_plane_ok:
  assumes k: "0 < k" and p: "plane_ok k w h s p" and rgb: "w * h * 3 \<le> length rgb"
  obtains p' where "fill_plane k conv w h rgb s p = Inr p'" "length p' = length p"
    "\<And>x y. x < w \<Longrightarrow> y < h \<Longrightarrow> x mod k = 0 \<Longrightarrow> y mod k = 0 \<Longrightarrow>
       p' ! (y div k * s + x div k) = (case pixel_of rgb w x y of (r, g, b) \<Rightarrow> conv r g b)"
proof -
  let ?i = "\<lambda>(x, y). y div k * s + x div k"
    and ?v = "\<lambda>(x, y). case pixel_of rgb w x y of (r, g, b) \<Rightarrow> conv r g b"
  let ?f = "fold (\<lambda>q p. p[?i q := ?v q])"
  have bound: "\<forall>q \<in> set (raster k w h). ?i q < length p"
    using plane_index_bound [OF k p] by (auto simp: set_raster)
  have "fold_result (\<lambda>(x, y) p. try_bind (rgb_at rgb w x y)
        (\<lambda>(r, g, b). set_vec p (y div k * s + x div k) (conv r g b))) qs p' = Inr (?f qs p')"
    if "set qs \<subseteq> set (raster k w h)" "length p' = length p" for qs p'
    using that
  proof (induction qs arbitrary: p')
    case (Cons q qs)
    obtain x y where q: "q = (x, y)" by force
    then have "x < w" "y < h" "?i q < length p'" using Cons.prems bound by (auto simp: set_raster)
    then show ?case using Cons q rgb_at_ok [OF rgb]
      by (simp add: set_raster split: prod.splits)
  qed simp
  then have run: "fill_plane k conv w h rgb s p = Inr (?f (raster k w h) p)"
    by (simp add: fill_plane_def)
  have "distinct (map ?i (raster k w h))"
    unfolding distinct_map
    using distinct_raster plane_index_inj [OF k, of w s h] ceil_div [OF k] p
    by (fastforce simp: plane_ok_def)
  note fu = fold_update_nth [OF this bound, where v = ?v]
  show ?thesis
  proof (rule that [OF run])
    show "length (?f (raster k w h) p) = length p" using fu by blast
    fix x y assume "x < w" "y < h" "x mod k = 0" "y mod k = 0"
    then have "(x, y) \<in> set (raster k w h)" by (simp add: set_raster)
    then have "?f (raster k w h) p ! ?i (x, y) = ?v (x, y)" using fu by blast
    then show "?f (raster k w h) p ! (y div k * s + x div k)
        = (case pixel_of rgb w x y of (r, g, b) \<Rightarrow> conv r g b)" by simp
  qed
qed

text \<open>What FFmpeg guarantees of a frame allocated for YUV420P: three planes with room for every
  row, the two chroma planes at half resolution (rounded up).\<close>

definition yuv420p_ok :: "nat \<Rightarrow> nat \<Rightarrow> VideoFrame \<Rightarrow> bool" where
  "yuv420p_ok w h fr \<longleftrightarrow>
     length (vf_planes fr) = 3 \<and> length (vf_strides fr) = 3
     \<and> plane_ok 1 w h (vf_strides fr ! 0) (vf_planes fr ! 0)
     \<and> plane_ok 2 w h (vf_strides fr ! 1) (vf_planes fr ! 1)
     \<and> plane_ok 2 w h (vf_strides fr ! 2) (vf_planes fr ! 2)"

definition plane_holds ::
  "nat \<Rightarrow> (u8 \<Rightarrow> u8 \<Rightarrow> u8 \<Rightarrow> u8) \<Rightarrow> nat \<Rightarrow> nat \<Rightarrow> bytes \<Rightarrow> VideoFrame \<Rightarrow> nat \<Rightarrow> bool" where
  "plane_holds k conv w h rgb fr i \<longleftrightarrow>
     (\<forall>y < h. \<forall>x < w. x mod k = 0 \<longrightarrow> y mod k = 0 \<longrightarrow>
        vf_planes fr ! i ! (y div k * (vf_strides fr ! i) + x div k)
          = (case pixel_of rgb w x y of (r, g, b) \<Rightarrow> conv r g b))"

lemma rgb_to_yuv420p_ok:
  assumes "yuv420p_ok w h (fe_frame e)" "w * h * 3 \<le> length rgb"
    and "w = unat (es_width (fe_settings e))" "h = unat (es_height (fe_settings e))"
  obtains e' where "rgb_to_yuv420p e rgb = Inr e'" "yuv420p_ok w h (fe_frame e')"
    "plane_holds 1 luma w h rgb (fe_frame e') 0"
    "plane_holds 2 chroma_u w h rgb (fe_frame e') 1"
    "plane_holds 2 chroma_v w h rgb (fe_frame e') 2"
proof -
  let ?p = "vf_planes (fe_frame e)" and ?s = "vf_strides (fe_frame e)"
  have len: "length ?p = 3" "length ?s = 3" using assms(1) by (simp_all add: yuv420p_ok_def)
  note pok = assms(1) [unfolded yuv420p_ok_def]
  obtain py where y: "fill_plane 1 luma w h rgb (?s ! 0) (?p ! 0) = Inr py" "length py = length (?p ! 0)"
    "\<And>x y. x < w \<Longrightarrow> y < h \<Longrightarrow> x mod 1 = 0 \<Longrightarrow> y mod 1 = 0 \<Longrightarrow>
       py ! (y div 1 * (?s ! 0) + x div 1) = (case pixel_of rgb w x y of (r, g, b) \<Rightarrow> luma r g b)"
    using fill_plane_ok [of 1 w h "?s ! 0" "?p ! 0" rgb luma] pok assms(2) by auto
  obtain pu where u: "fill_plane 2 chroma_u w h rgb (?s ! 1) (?p ! 1) = Inr pu" "length pu = length (?p ! 1)"
    "\<And>x y. x < w \<Longrightarrow> y < h \<Longrightarrow> x mod 2 = 0 \<Longrightarrow> y mod 2 = 0 \<Longrightarrow>
       pu ! (y div 2 * (?s ! 1) + x div 2) = (case pixel_of rgb w x y of (r, g, b) \<Rightarrow> chroma_u r g b)"
    using fill_plane_ok [of 2 w h "?s ! 1" "?p ! 1" rgb chroma_u] pok assms(2) by auto
  obtain pv where v: "fill_plane 2 chroma_v w h rgb (?s ! 2) (?p ! 2) = Inr pv" "length pv = length (?p ! 2)"
    "\<And>x y. x < w \<Longrightarrow> y < h \<Longrightarrow> x mod 2 = 0 \<Longrightarrow> y mod 2 = 0 \<Longrightarrow>
       pv ! (y div 2 * (?s ! 2) + x div 2) = (case pixel_of rgb w x y of (r, g, b) \<Rightarrow> chroma_v r g b)"
    using fill_plane_ok [of 2 w h "?s ! 2" "?p ! 2" rgb chroma_v] pok assms(2) by auto
  let ?fr = "(fe_frame e)\<lparr>vf_planes := ?p[0 := py, 1 := pu, 2 := pv]\<rparr>"
  have "rgb_to_yuv420p e rgb = Inr (e\<lparr>fe_frame := ?fr\<rparr>)"
    using y(1) u(1) v(1) len assms(3,4)
    by (simp add: rgb_to_yuv420p_def stride_of_def plane_of_def Let_def)
  moreover have "yuv420p_ok w h ?fr" using pok y(2) u(2) v(2) by (simp add: yuv420p_ok_def plane_ok_def)
  moreover have "plane_holds 1 luma w h rgb ?fr 0" "plane_holds 2 chroma_u w h rgb ?fr 1"
    "plane_holds 2 chroma_v w h rgb ?fr 2"
    using y(3) u(3) v(3) len by (simp_all add: plane_holds_def)
  ultimately show ?thesis using that by simp
qed

section \<open>The packet loop\<close>

text \<open>\<open>drains recv n e\<close>: after at most \<open>n\<close> packets the encoder asks for more input.\<close>

fun drains :: "('e \<Rightarrow> 'e \<times> Packet option) \<Rightarrow> nat \<Rightarrow> 'e \<Rightarrow> bool" where
  "drains recv 0 e \<longleftrightarrow> snd (recv e) = None"
| "drains recv (Suc n) e \<longleftrightarrow> snd (recv e) = None \<or> drains recv n (fst (recv e))"

lemma collect_packets_returns:
  "drains recv n e \<Longrightarrow> \<exists>r. collect_packets recv e enc k = Some r"
proof (induction n arbitrary: e enc k)
  case 0
  then show ?case by (subst collect_packets.simps) (auto split: prod.splits)
next
  case (Suc n)
  show ?case
  proof (cases "recv e")
    case (Pair e' po)
    then show ?thesis using Suc
      by (subst collect_packets.simps) (auto split: option.splits)
  qed
qed

lemma drain_packets_returns: "drains recv n e \<Longrightarrow> \<exists>e'. drain_packets recv e = Some e'"
proof (induction n arbitrary: e)
  case 0
  then show ?case by (subst drain_packets.simps) (auto split: prod.splits)
next
  case (Suc n)
  then show ?case by (cases "recv e"; subst drain_packets.simps) (auto split: option.splits)
qed

text \<open>\<open>emits recv e ps e'\<close>: the encoder \<open>e\<close> hands out exactly the packets \<open>ps\<close>, in this order, and is
  then \<open>e'\<close>, asking for more input.\<close>

fun emits :: "('e \<Rightarrow> 'e \<times> Packet option) \<Rightarrow> 'e \<Rightarrow> Packet list \<Rightarrow> 'e \<Rightarrow> bool" where
  "emits recv e [] e' \<longleftrightarrow> recv e = (e', None)"
| "emits recv e (p # ps) e' \<longleftrightarrow> snd (recv e) = Some p \<and> emits recv (fst (recv e)) ps e'"

lemma drains_emits: "drains recv n e \<Longrightarrow> \<exists>ps e'. emits recv e ps e'"
proof (induction n arbitrary: e)
  case 0
  then show ?case by (intro exI [of _ "[]"] exI [of _ "fst (recv e)"]) (simp add: prod_eq_iff)
next
  case (Suc n)
  show ?case
  proof (cases "snd (recv e)")
    case None
    then show ?thesis by (intro exI [of _ "[]"] exI [of _ "fst (recv e)"]) (simp add: prod_eq_iff)
  next
    case (Some p)
    then have "drains recv n (fst (recv e))" using Suc.prems by simp
    then obtain ps e' where "emits recv (fst (recv e)) ps e'" using Suc.IH by blast
    then show ?thesis using Some by (intro exI [of _ "p # ps"] exI [of _ e']) simp
  qed
qed

definition packet_data :: "Packet list \<Rightarrow> bytes" where
  "packet_data ps = concat (map (\<lambda>p. the (pk_data p)) ps)"

definition packets_have_data :: "('e \<Rightarrow> 'e \<times> Packet option) \<Rightarrow> bool" where
  "packets_have_data recv \<longleftrightarrow> (\<forall>c p. snd (recv c) = Some p \<longrightarrow> pk_data p \<noteq> None)"

lemma collect_packets_emitted:
  assumes "emits recv e ps e'" "packets_have_data recv"
  shows "collect_packets recv e enc k
    = Some (e', Inr (enc @ packet_data ps, if ps = [] then k else pk_is_key (last ps)))"
  using assms(1)
proof (induction ps arbitrary: e enc k)
  case Nil
  then show ?case by (subst collect_packets.simps) (simp add: packet_data_def)
next
  case (Cons p ps)
  then obtain e1 where r: "recv e = (e1, Some p)" "emits recv e1 ps e'" by (cases "recv e") auto
  then have "pk_data p \<noteq> None" using assms(2) unfolding packets_have_data_def by (metis snd_conv)
  then obtain d where "pk_data p = Some d" by blast
  then show ?case using Cons.IH [OF r(2)] r(1)
    by (subst collect_packets.simps) (simp add: packet_data_def)
qed

section \<open>What encoding a frame means\<close>

text \<open>
  \<open>encodes ff w h c n t rgb c' r\<close>: FFmpeg's encoder \<open>c\<close> is given a YUV420P frame of the pixels \<open>rgb\<close>, with
  the presentation time \<open>n\<close>. If it refuses the frame, the result \<open>r\<close> is its error. Otherwise the result
  has the data of all packets that are ready, up to the one where the encoder asks for more input, in
  order; it is a key frame if it has data and the last of the packets is one; its timestamp is the clock
  \<open>t\<close> in milliseconds.
\<close>

definition encodes ::
  "'e ffmpeg \<Rightarrow> nat \<Rightarrow> nat \<Rightarrow> 'e \<Rightarrow> int \<Rightarrow> SystemTime \<Rightarrow> bytes \<Rightarrow> 'e \<Rightarrow> EncodedFrame result \<Rightarrow> bool" where
  "encodes ff w h c n t rgb c' r \<longleftrightarrow>
     (\<exists>fr. vf_pts fr = Some n \<and> plane_holds 1 luma w h rgb fr 0 \<and> plane_holds 2 chroma_u w h rgb fr 1
        \<and> plane_holds 2 chroma_v w h rgb fr 2
        \<and> (case ff_send_frame ff c fr of
             (c1, Some err) \<Rightarrow> c' = c1 \<and> r = Inl (External err)
           | (c1, None) \<Rightarrow>
               \<exists>ps. emits (ff_receive_packet ff) c1 ps c'
                 \<and> r = Inr \<lparr>ef_data = packet_data ps,
                           ef_is_keyframe = (packet_data ps \<noteq> [] \<and> pk_is_key (last ps)),
                           ef_timestamp = word_of_nat (as_millis (nat t))\<rparr>))"

fun encodes_all ::
  "'e ffmpeg \<Rightarrow> nat \<Rightarrow> nat \<Rightarrow> 'e \<Rightarrow> int \<Rightarrow> (SystemTime \<times> bytes \<times> bool) list \<Rightarrow> EncodedFrame result list \<Rightarrow>
   'e \<Rightarrow> bool" where
  "encodes_all ff w h c n [] rs c' \<longleftrightarrow> rs = [] \<and> c' = c"
| "encodes_all ff w h c n ((t, rgb, force) # fs) rs c' \<longleftrightarrow>
     (\<exists>r rs' c1. rs = r # rs' \<and> encodes ff w h c n t rgb c1 r \<and> encodes_all ff w h c1 (n + 1) fs rs' c')"

definition encoder_ok :: "nat \<Rightarrow> nat \<Rightarrow> 'e FFmpegHardwareEncoder \<Rightarrow> bool" where
  "encoder_ok w h e \<longleftrightarrow> yuv420p_ok w h (fe_frame e)
     \<and> w = unat (es_width (fe_settings e)) \<and> h = unat (es_height (fe_settings e))"

lemma encoded_frame_emitted:
  "0 \<le> t \<Longrightarrow> encoded_frame t (packet_data ps) (if ps = [] then k else pk_is_key (last ps))
    = Inr \<lparr>ef_data = packet_data ps, ef_is_keyframe = (packet_data ps \<noteq> [] \<and> pk_is_key (last ps)),
           ef_timestamp = word_of_nat (as_millis (nat t))\<rparr>"
  by (auto simp: encoded_frame_def unix_millis_def unix_duration_def packet_data_def)

lemma yuv420p_conversion_fields:
  "rgb_to_yuv420p e rgb = Inr e' \<Longrightarrow>
   fe_pts e' = fe_pts e \<and> fe_encoder e' = fe_encoder e \<and> fe_settings e' = fe_settings e"
  by (auto simp: rgb_to_yuv420p_def Let_def try_bind_Inr_iff)

lemma ffmpeg_encodes:
  assumes drains: "\<And>c fr. \<exists>n. drains (ff_receive_packet ff) n (fst (ff_send_frame ff c fr))"
    and data: "packets_have_data (ff_receive_packet ff)"
    and "encoder_ok w h e" "w * h * 3 \<le> length rgb" "0 \<le> t"
  obtains e' r where "FFmpeg_encode_frame ff t e rgb force = Some (e', r)" "\<not> panicked r" "encoder_ok w h e'"
    "fe_pts e' = fe_pts e + 1" "encodes ff w h (fe_encoder e) (fe_pts e) t rgb (fe_encoder e') r"
proof -
  have ok: "yuv420p_ok w h (fe_frame e)" "w = unat (es_width (fe_settings e))" "h = unat (es_height (fe_settings e))"
    using assms(3) by (auto simp: encoder_ok_def)
  obtain e1 where e1: "rgb_to_yuv420p e rgb = Inr e1" "yuv420p_ok w h (fe_frame e1)"
    "plane_holds 1 luma w h rgb (fe_frame e1) 0" "plane_holds 2 chroma_u w h rgb (fe_frame e1) 1"
    "plane_holds 2 chroma_v w h rgb (fe_frame e1) 2"
    using rgb_to_yuv420p_ok [OF ok(1) assms(4) ok(2,3)] .
  note same = yuv420p_conversion_fields [OF e1(1)]
  define fr where "fr = (fe_frame e1)\<lparr>vf_pts := Some (fe_pts e)\<rparr>"
  define e2 where "e2 = e1\<lparr>fe_frame := fr, fe_pts := fe_pts e + 1\<rparr>"
  have fr: "vf_pts fr = Some (fe_pts e)" "plane_holds 1 luma w h rgb fr 0" "plane_holds 2 chroma_u w h rgb fr 1"
    "plane_holds 2 chroma_v w h rgb fr 2"
    using e1(3-5) by (simp_all add: fr_def plane_holds_def)
  have e2: "encoder_ok w h (e2\<lparr>fe_encoder := c\<rparr>)" "encoder_ok w h (e2\<lparr>fe_encoder := c, fe_frame_count := k\<rparr>)" for c k
    using e1(2) ok same by (simp_all add: encoder_ok_def e2_def fr_def yuv420p_ok_def)
  obtain c m where send: "ff_send_frame ff (fe_encoder e) fr = (c, m)" by force
  obtain ps c' where em: "emits (ff_receive_packet ff) c ps c'"
    using drains [of "fe_encoder e" fr] drains_emits send by (metis fst_conv)
  note run = collect_packets_emitted [OF em data, of "[]" False]
  show ?thesis
  proof (cases m)
    case (Some err)
    have "FFmpeg_encode_frame ff t e rgb force = Some (e2\<lparr>fe_encoder := c\<rparr>, Inl (External err))"
      using e1(1) send same Some by (simp add: FFmpeg_encode_frame_def Let_def e2_def fr_def)
    moreover have "encodes ff w h (fe_encoder e) (fe_pts e) t rgb c (Inl (External err))"
      unfolding encodes_def using fr send Some by (intro exI [of _ fr]) simp
    ultimately show ?thesis using that e2(1) [of c] by (simp add: e2_def)
  next
    case None
    have "FFmpeg_encode_frame ff t e rgb force = Some (e2\<lparr>fe_encoder := c', fe_frame_count := fe_frame_count e2 + 1\<rparr>,
        encoded_frame t (packet_data ps) (if ps = [] then False else pk_is_key (last ps)))"
      using e1(1) send same None run by (simp add: FFmpeg_encode_frame_def Let_def e2_def fr_def)
    moreover have "encodes ff w h (fe_encoder e) (fe_pts e) t rgb c'
        (encoded_frame t (packet_data ps) (if ps = [] then False else pk_is_key (last ps)))"
      unfolding encodes_def encoded_frame_emitted [OF assms(5)]
      using fr send None em by (intro exI [of _ fr]) auto
    ultimately show ?thesis
      using that e2(2) [of "fe_frame_count e2 + 1" c'] encoded_frame_emitted [OF assms(5), of ps False]
      by (simp add: e2_def)
  qed
qed

section \<open>Properties\<close>

text \<open>C27: If FFmpeg hands out finitely many packets after each frame, and packets that have data, the
  hardware encoder gets through every sequence of frames of the announced size: each \<open>encode_frame\<close>
  returns without a panic. Every frame reaches FFmpeg converted to YUV420P, with consecutive presentation
  times, and the result of each is FFmpeg's refusal or the data of exactly the packets that are ready
  then, none lost and none kept for later, with the clock in milliseconds.\<close>

theorem hardware_encoding_returns:
  assumes "\<And>c fr. \<exists>n. drains (ff_receive_packet ff) n (fst (ff_send_frame ff c fr))"
    and "packets_have_data (ff_receive_packet ff)"
    and "encoder_ok w h e" "list_all (\<lambda>(t, rgb, force). 0 \<le> t \<and> w * h * 3 \<le> length rgb) fs"
  shows "\<exists>e' rs. ffm.encode_run ff e fs = Some (e', rs) \<and> length rs = length fs
    \<and> list_all (\<lambda>r. \<not> panicked r) rs \<and> encoder_ok w h e'
    \<and> encodes_all ff w h (fe_encoder e) (fe_pts e) fs rs (fe_encoder e')"
  using assms(3,4)
proof (induction fs arbitrary: e)
  case (Cons a fs)
  obtain t rgb f where a: "a = (t, rgb, f)" by (cases a)
  obtain e1 r where 1: "FFmpeg_encode_frame ff t e rgb f = Some (e1, r)" "\<not> panicked r" "encoder_ok w h e1"
    "fe_pts e1 = fe_pts e + 1" "encodes ff w h (fe_encoder e) (fe_pts e) t rgb (fe_encoder e1) r"
    using ffmpeg_encodes [OF assms(1,2) Cons.prems(1), where rgb = rgb and t = t and force = f] Cons.prems(2) a by auto
  obtain e' rs where "ffm.encode_run ff e1 fs = Some (e', rs)" "length rs = length fs"
    "list_all (\<lambda>r. \<not> panicked r) rs" "encoder_ok w h e'"
    "encodes_all ff w h (fe_encoder e1) (fe_pts e1) fs rs (fe_encoder e')"
    using Cons.IH [OF 1(3)] Cons.prems(2) by auto
  then show ?case using 1 by (intro exI [of _ e'] exI [of _ "r # rs"]) (auto simp: a)
qed simp

text \<open>A library for the witnesses: an encoder is a queue of data, a frame of \<open>w\<close> by \<open>h\<close> has its
  planes without padding, and every frame yields one packet with its first plane.\<close>

definition demo_ffmpeg :: "bytes list ffmpeg" where
  "demo_ffmpeg =
     \<lparr>ff_init = None, ff_find_by_name = (\<lambda>n. Some n), ff_find_h264 = Some ''libx264'',
      ff_video = (\<lambda>c. None),
      ff_open = (\<lambda>c. if ec_width c = 1920 then Inr [] else Inl ''unsupported size''),
      ff_new_frame = (\<lambda>w h. \<lparr>vf_width = w, vf_height = h,
        vf_planes = [replicate (unat w * unat h) 0,
                     replicate ((unat w + 1) div 2 * ((unat h + 1) div 2)) 0,
                     replicate ((unat w + 1) div 2 * ((unat h + 1) div 2)) 0],
        vf_strides = [unat w, (unat w + 1) div 2, (unat w + 1) div 2], vf_pts = None\<rparr>),
      ff_send_frame = (\<lambda>e fr. (e @ [hd (vf_planes fr)], None)),
      ff_receive_packet = (\<lambda>e. case e of [] \<Rightarrow> ([], None) | d # ds \<Rightarrow> (ds, Some \<lparr>pk_data = Some d, pk_is_key = False\<rparr>)),
      ff_send_eof = (\<lambda>e. e)\<rparr>"

lemma demo_drains: "drains (ff_receive_packet demo_ffmpeg) (length e) e"
  by (induction e) (simp_all add: demo_ffmpeg_def)

theorem hardware_encoding_returns_witness:
  "\<exists>e' rs. ffm.encode_run demo_ffmpeg
     \<lparr>fe_encoder = [], fe_frame = ff_new_frame demo_ffmpeg 1 1,
      fe_settings = \<lparr>es_width = 1, es_height = 1, es_fps = 30, es_bitrate = 1, es_keyframe_interval = 2\<rparr>,
      fe_frame_count = 0, fe_pts = 0\<rparr> [(5, [10, 20, 30], True), (6, [7, 8, 9], False)] = Some (e', rs)
    \<and> length rs = 2 \<and> encodes_all demo_ffmpeg 1 1 [] 0 [(5, [10, 20, 30], True), (6, [7, 8, 9], False)] rs
        (fe_encoder e')"
proof -
  let ?e = "\<lparr>fe_encoder = [], fe_frame = ff_new_frame demo_ffmpeg 1 1,
      fe_settings = \<lparr>es_width = 1, es_height = 1, es_fps = 30, es_bitrate = 1, es_keyframe_interval = 2\<rparr>,
      fe_frame_count = 0, fe_pts = 0\<rparr>"
    and ?fs = "[(5, [10, 20, 30], True), (6, [7, 8, 9], False)]"
  have "encoder_ok 1 1 ?e" by (simp add: encoder_ok_def yuv420p_ok_def plane_ok_def demo_ffmpeg_def)
  moreover have "packets_have_data (ff_receive_packet demo_ffmpeg)"
    by (auto simp: packets_have_data_def demo_ffmpeg_def split: list.splits)
  ultimately show ?thesis
    using hardware_encoding_returns [of demo_ffmpeg 1 1 ?e ?fs] demo_drains by fastforce
qed

end
