(* ===== verification/Screen_Capture.thy ===== *)
theory Screen_Capture
  imports Quality Frame_Processor Protocol Ffmpeg_Encoder
begin

text \<open>
  \<open>src/server/screen_capture.rs\<close>: capturing the screen, converting it to RGB, and encoding it
  with the hardware encoder or, without one, with the frame processor and Zstandard. The
  \<open>scrap\<close> capturer is the argument \<open>ev\<close> (what its \<open>frame\<close> call returned) and the display size it
  reports; \<open>zstd\<close> stands for \<open>encode_all\<close>. The three clock readings of a capture are arguments.
\<close>

unbundle bit_operations_syntax

record CapturedFrame =
  cf_width :: u32
  cf_height :: u32
  cf_data :: bytes
  cf_timestamp :: u64
  cf_frame_type :: FrameType
  cf_tiles :: "TileData list option"
  cf_encoding :: EncodingType

record 'e ScreenCapture =
  sc_width :: nat
  sc_height :: nat
  sc_last_frame_time :: Instant
  sc_frame_interval :: Duration
  sc_quality_mode :: QualityMode
  sc_frame_processor :: FrameProcessor
  sc_frame_count :: u64
  sc_video_encoder :: "'e dyn_encoder option"
  sc_use_hardware_encoding :: bool

datatype capture_event = FrameReady bytes | WouldBlock | CaptureError string

type_synonym zstd = "bytes \<Rightarrow> int \<Rightarrow> string + bytes"

section \<open>Construction\<close>

text \<open>\<open>v & !1\<close>\<close>

definition make_even :: "u32 \<Rightarrow> u32" where
  "make_even v = v AND NOT 1"

definition encoder_settings :: "nat \<Rightarrow> nat \<Rightarrow> u32 \<Rightarrow> EncoderSettings" where
  "encoder_settings width height fps =
     \<lparr>es_width = make_even (word_of_nat width), es_height = make_even (word_of_nat height),
      es_fps = fps, es_bitrate = 5000000, es_keyframe_interval = fps * 2\<rparr>"

text \<open>\<open>Duration::from_millis(1000 / fps as u64)\<close>\<close>

definition interval_of :: "u32 \<Rightarrow> Duration result" where
  "interval_of fps =
     (if fps = 0 then Inl (Panicked ''attempt to divide by zero'')
      else Inr (from_millis (1000 div ucast fps)))"

text \<open>\<open>primary\<close> says whether there is a display, \<open>capturer\<close> the size of its capturer.\<close>

definition ScreenCapture_new ::
  "platform \<Rightarrow> 'e ffmpeg \<Rightarrow> bool \<Rightarrow> (nat \<times> nat) option \<Rightarrow> Instant \<Rightarrow> u32 \<Rightarrow> 'e ScreenCapture result" where
  "ScreenCapture_new os ff primary capturer now fps =
     (if \<not> primary then Inl (Anyhow ''Failed to get primary display'')
      else try_bind (ok_or ''Failed to create screen capturer'' capturer) (\<lambda>(width, height).
        let settings = encoder_settings width height fps;
            (video_encoder, use_hardware) =
              (if is_hardware_available os ff
               then (case create_encoder os ff Hardware settings of
                       Inr encoder \<Rightarrow> (Some encoder, True)
                     | Inl _ \<Rightarrow> (None, False))
               else (None, False))
        in try_bind (interval_of fps) (\<lambda>frame_interval.
           Inr \<lparr>sc_width = width, sc_height = height, sc_last_frame_time = now,
                sc_frame_interval = frame_interval, sc_quality_mode = High,
                sc_frame_processor = FrameProcessor_new (word_of_nat width) (word_of_nat height),
                sc_frame_count = 0, sc_video_encoder = video_encoder,
                sc_use_hardware_encoding = use_hardware\<rparr>)))"

definition set_quality :: "'e ScreenCapture \<Rightarrow> QualityMode \<Rightarrow> 'e ScreenCapture" where
  "set_quality self quality =
     self\<lparr>sc_quality_mode := quality,
          sc_frame_interval := from_millis (1000 div ucast (target_fps quality))\<rparr>"

section \<open>Pixels\<close>

definition bgra_to_rgb :: "bytes \<Rightarrow> nat \<Rightarrow> nat \<Rightarrow> bytes" where
  "bgra_to_rgb bgra width height =
     concat (map (\<lambda>chunk. [chunk ! 2, chunk ! 1, chunk ! 0]) (chunks_exact 4 bgra))"

text \<open>The crop to the encoder's even dimensions.\<close>

definition crop_rgb :: "'e ScreenCapture \<Rightarrow> bytes \<Rightarrow> bytes result" where
  "crop_rgb self rgb_data =
     (let encoder_width = make_even (word_of_nat (sc_width self));
          encoder_height = make_even (word_of_nat (sc_height self))
      in if word_of_nat (sc_width self) \<noteq> encoder_width \<or> word_of_nat (sc_height self) \<noteq> encoder_height
         then fold_result (\<lambda>y cropped.
                let src_offset = y * sc_width self * 3;
                    src_end = src_offset + unat encoder_width * 3
                in try_bind (slice_vec rgb_data src_offset src_end) (\<lambda>row. Inr (cropped @ row)))
              [0..<unat encoder_height] []
         else Inr rgb_data)"

definition scale_frame :: "'e ScreenCapture \<Rightarrow> bytes \<Rightarrow> f32 \<Rightarrow> bytes result" where
  "scale_frame self rgb_data scale =
     (let new_width = fp_as_u32 (mul32 (nat_as_f32 (sc_width self)) scale);
          new_height = fp_as_u32 (mul32 (nat_as_f32 (sc_height self)) scale);
          scaled = replicate (unat (new_width * new_height * 3)) 0
      in Inr (foldl (\<lambda>scaled y. foldl (\<lambda>scaled x.
             let src_x = fp_as_usize (div32 (nat_as_f32 (unat x)) scale);
                 src_y = fp_as_usize (div32 (nat_as_f32 (unat y)) scale)
             in if src_x < sc_width self \<and> src_y < sc_height self
                then let src_idx = (src_y * sc_width self + src_x) * 3;
                         dst_idx = unat ((y * new_width + x) * 3)
                     in if src_idx + 3 \<le> length rgb_data \<and> dst_idx + 3 \<le> length scaled
                        then blit dst_idx (subvec src_idx (src_idx + 3) rgb_data) scaled
                        else scaled
                else scaled) scaled (u32_range new_width)) scaled (u32_range new_height)))"

section \<open>Capturing\<close>

definition encode_all :: "zstd \<Rightarrow> bytes \<Rightarrow> int \<Rightarrow> bytes result" where
  "encode_all zstd data level =
     (case zstd data level of Inl e \<Rightarrow> Inl (External e) | Inr d \<Rightarrow> Inr d)"

definition compress_tiles :: "zstd \<Rightarrow> int \<Rightarrow> TileData list \<Rightarrow> TileData list result" where
  "compress_tiles zstd level tiles =
     fold_result (\<lambda>tile done'.
         try_bind (encode_all zstd (td_data tile) level) (\<lambda>compressed.
           Inr (done' @ [tile\<lparr>td_data := compressed\<rparr>]))) tiles []"

text \<open>The software path: frame processor, then compression.\<close>

definition capture_software ::
  "zstd \<Rightarrow> SystemTime \<Rightarrow> 'e ScreenCapture \<Rightarrow> bytes \<Rightarrow> bool \<Rightarrow>
   'e ScreenCapture \<times> CapturedFrame option result" where
  "capture_software zstd clock self rgb_data force_keyframe =
     and_then (self, process_frame (sc_frame_processor self) rgb_data force_keyframe)
       (\<lambda>self (fp, processed).
          let self' = self\<lparr>sc_frame_processor := fp\<rparr>;
              level = compression_level (sc_quality_mode self);
              finish = (\<lambda>data tiles.
                try_bind (unix_millis clock) (\<lambda>timestamp.
                  Inr (Some \<lparr>cf_width = pf_width processed, cf_height = pf_height processed,
                             cf_data = data, cf_timestamp = timestamp,
                             cf_frame_type = pf_frame_type processed, cf_tiles = tiles,
                             cf_encoding = ZstdCompressed\<rparr>)))
          in (self',
              case pf_frame_type processed of
                KeyFrame \<Rightarrow>
                  try_bind (encode_all zstd (pf_data processed) level) (\<lambda>d. finish d None)
              | DeltaFrame \<Rightarrow>
                  (case pf_tiles processed of
                     Some tiles \<Rightarrow>
                       try_bind (compress_tiles zstd level tiles) (\<lambda>ts. finish [] (Some ts))
                   | None \<Rightarrow> finish [] None)))"

text \<open>What a frame of the video encoder is sent as.\<close>

definition hardware_frame :: "'e ScreenCapture \<Rightarrow> EncodedFrame \<Rightarrow> CapturedFrame" where
  "hardware_frame self ef =
     \<lparr>cf_width = word_of_nat (sc_width self), cf_height = word_of_nat (sc_height self),
      cf_data = ef_data ef, cf_timestamp = ef_timestamp ef,
      cf_frame_type = (if ef_is_keyframe ef then KeyFrame else DeltaFrame),
      cf_tiles = None, cf_encoding = H264\<rparr>"

text \<open>What follows the call of the encoder: its frame, or the software path after an error. A panic
  of the encoder is not an error value, so it does not lead to the software path.\<close>

definition after_encode ::
  "zstd \<Rightarrow> SystemTime \<Rightarrow> 'e ScreenCapture \<Rightarrow> bytes \<Rightarrow> bool \<Rightarrow> 'e dyn_encoder \<times> EncodedFrame result \<Rightarrow>
   'e ScreenCapture \<times> CapturedFrame option result" where
  "after_encode zstd clock self rgb_data force_keyframe outcome =
     (case outcome of (encoder', r) \<Rightarrow>
        let self2 = self\<lparr>sc_video_encoder := Some encoder'\<rparr>
        in case r of
             Inr ef \<Rightarrow> (self2, Inr (Some (hardware_frame self2 ef)))
           | Inl (Panicked p) \<Rightarrow> (self2, Inl (Panicked p))
           | Inl _ \<Rightarrow>
               capture_software zstd clock
                 (self2\<lparr>sc_video_encoder := None, sc_use_hardware_encoding := False\<rparr>)
                 rgb_data force_keyframe)"

text \<open>
  \<open>capture_frame\<close>: \<open>now\<close> is read for the elapsed time, \<open>now'\<close> when a frame has arrived, \<open>clock\<close>
  for the timestamps. The outer \<open>None\<close> is an encoder loop that does not end.
\<close>

definition capture_frame ::
  "webp \<Rightarrow> 'e ffmpeg \<Rightarrow> zstd \<Rightarrow> Instant \<Rightarrow> Instant \<Rightarrow> SystemTime \<Rightarrow> capture_event \<Rightarrow> 'e ScreenCapture \<Rightarrow>
   ('e ScreenCapture \<times> CapturedFrame option result) option" where
  "capture_frame webp ff zstd now now' clock ev self =
     (if elapsed (sc_last_frame_time self) now < sc_frame_interval self then Some (self, Inr None)
      else case ev of
        WouldBlock \<Rightarrow> Some (self, Inr None)
      | CaptureError e \<Rightarrow> Some (self, Inl (External e))
      | FrameReady frame_data \<Rightarrow>
          let self1 = self\<lparr>sc_last_frame_time := now', sc_frame_count := sc_frame_count self + 1\<rparr>;
              rgb_data = bgra_to_rgb frame_data (sc_width self1) (sc_height self1);
              scale = resolution_scale (sc_quality_mode self1);
              force_keyframe = True
          in (case (if flt scale (f32 1) \<and> False then scale_frame self1 rgb_data scale
                    else Inr rgb_data) of
                Inl e \<Rightarrow> Some (self1, Inl e)
              | Inr rgb_data \<Rightarrow>
                  (case sc_video_encoder self1 of
                     None \<Rightarrow> Some (capture_software zstd clock self1 rgb_data force_keyframe)
                   | Some encoder \<Rightarrow>
                       (case crop_rgb self1 rgb_data of
                          Inl e \<Rightarrow> Some (self1, Inl e)
                        | Inr rgb_for_encoder \<Rightarrow>
                            map_option
                              (after_encode zstd clock self1 rgb_data force_keyframe)
                              (dyn_encode_frame webp ff clock encoder rgb_for_encoder
                                 force_keyframe)))))"

definition ScreenCapture_dimensions :: "'e ScreenCapture \<Rightarrow> u32 \<times> u32" where
  "ScreenCapture_dimensions self = (word_of_nat (sc_width self), word_of_nat (sc_height self))"

section \<open>Even dimensions and the crop\<close>

lemma make_even_eq: "unat (make_even v) = unat v - unat v mod 2"
proof -
  have "v AND NOT (mask n) = push_bit n (drop_bit n v)" for n
    by (rule bit_eqI) (auto simp: bit_simps)
  from this [of 1] have "make_even v = v div 2 * 2"
    by (simp add: make_even_def drop_bit_eq_div push_bit_eq_mult)
  moreover have "unat (v div 2) * unat (2 :: u32) < 2 ^ LENGTH(32)"
    using unsigned_less [of v, where ?'a = nat] by (simp add: unat_div)
  ultimately have "unat (make_even v) = unat v div 2 * 2"
    by (simp add: unat_mult_small unat_div)
  then show ?thesis by (simp add: minus_mod_eq_div_mult)
qed

lemma make_even_even: "even (unat (make_even v))"
  by (simp add: make_even_eq minus_mod_eq_div_mult)

lemma make_even_bounds: "unat (make_even v) \<le> unat v" "unat v \<le> unat (make_even v) + 1"
  by (simp_all add: make_even_eq)

text \<open>A screen whose sizes fit in \<open>u32\<close>.\<close>

definition screen_ok :: "'e ScreenCapture \<Rightarrow> bool" where
  "screen_ok self \<longleftrightarrow> sc_width self < 2 ^ 32 \<and> sc_height self < 2 ^ 32"

lemma crop_rgb_ok:
  assumes "screen_ok self" "length rgb = sc_width self * sc_height self * 3"
  defines "w \<equiv> unat (make_even (word_of_nat (sc_width self)))"
    and "h \<equiv> unat (make_even (word_of_nat (sc_height self)))"
  obtains c where "crop_rgb self rgb = Inr c" "length c = w * h * 3"
    "\<And>x y. x < w \<Longrightarrow> y < h \<Longrightarrow> pixel_of c w x y = pixel_of rgb (sc_width self) x y"
proof -
  let ?W = "sc_width self" and ?H = "sc_height self"
  have wh: "w \<le> ?W" "h \<le> ?H"
    using make_even_bounds(1) [of "word_of_nat ?W"] make_even_bounds(1) [of "word_of_nat ?H"] assms(1)
    by (simp_all add: w_def h_def screen_ok_def)
  show ?thesis
  proof (cases "word_of_nat ?W \<noteq> make_even (word_of_nat ?W) \<or> word_of_nat ?H \<noteq> make_even (word_of_nat ?H)")
    case False
    then have "w = ?W" "h = ?H" using assms(1) by (simp_all add: w_def h_def screen_ok_def)
    then show ?thesis using False assms(2) by (intro that [of rgb]) (simp_all add: crop_rgb_def Let_def)
  next
    case True
    let ?row = "\<lambda>y. subvec (y * ?W * 3) (y * ?W * 3 + w * 3) rgb"
    have rows: "y * ?W * 3 + w * 3 \<le> length rgb" if "y < h" for y
    proof -
      have "Suc y * ?W \<le> ?H * ?W" using that wh(2) by (intro mult_le_mono1) simp
      then have "y * ?W + w \<le> ?W * ?H" using wh(1) by (simp add: mult.commute)
      then show ?thesis unfolding assms(2) by linarith
    qed
    have loop: "fold_result (\<lambda>y cropped. let src_offset = y * ?W * 3; src_end = src_offset + w * 3
           in try_bind (slice_vec rgb src_offset src_end) (\<lambda>row. Inr (cropped @ row))) ys acc
        = Inr (acc @ concat (map ?row ys))" if "set ys \<subseteq> {..<h}" for ys acc
      using that by (induction ys arbitrary: acc) (auto simp: Let_def rows)
    have "crop_rgb self rgb = fold_result (\<lambda>y cropped. let src_offset = y * ?W * 3; src_end = src_offset + w * 3
           in try_bind (slice_vec rgb src_offset src_end) (\<lambda>row. Inr (cropped @ row))) [0..<h] []"
      using True by (simp add: crop_rgb_def Let_def w_def h_def)
    then have run: "crop_rgb self rgb = Inr (concat (map ?row [0..<h]))"
      using loop [of "[0..<h]" "[]"] by (simp add: atLeast0LessThan)
    have rl: "length (?row y) = w * 3" if "y \<in> set [0..<h]" for y using rows that by simp
    have len: "length (concat (map ?row [0..<h])) = w * h * 3"
      using length_concat_equal [of "[0..<h]" ?row "w * 3"] rl by simp
    have px: "concat (map ?row [0..<h]) ! ((y * w + x) * 3 + i) = rgb ! ((y * ?W + x) * 3 + i)"
      if "x < w" "y < h" "i < 3" for x y i
    proof -
      have sub: "subvec (y * (w * 3)) (y * (w * 3) + w * 3) (concat (map ?row [0..<h])) = ?row y"
        using subvec_concat_equal [of "[0..<h]" ?row "w * 3" y] rl that(2) by simp
      have k: "x * 3 + i < w * 3" using that by simp
      have "Suc y * w \<le> h * w" using that(2) by (intro mult_le_mono1) simp
      then have "y * (w * 3) + w * 3 \<le> length (concat (map ?row [0..<h]))"
        unfolding len using mult_le_mono1 [of "Suc y * w" "h * w" 3] by (simp add: algebra_simps)
      then have "concat (map ?row [0..<h]) ! (y * (w * 3) + (x * 3 + i)) = ?row y ! (x * 3 + i)"
        using k by (subst sub [symmetric]) (rule nth_subvec [symmetric]; simp)
      also have "\<dots> = rgb ! (y * ?W * 3 + (x * 3 + i))"
        using k rows [OF that(2)] by simp
      finally show ?thesis by (simp add: algebra_simps)
    qed
    show ?thesis
    proof (rule that [OF run len])
      fix x y assume "x < w" "y < h"
      then show "pixel_of (concat (map ?row [0..<h])) w x y = pixel_of rgb ?W x y"
        using px [of x y 0] px [of x y 1] px [of x y 2] by (simp add: pixel_of_def)
    qed
  qed
qed

section \<open>Conversion of a captured frame\<close>

lemma length_bgra_to_rgb: "length (bgra_to_rgb bgra w h) = length bgra div 4 * 3"
  by (simp add: bgra_to_rgb_def length_concat_equal [where n = 3] length_chunks_exact)

lemma bgra_to_rgb_pixel:
  assumes "k < length bgra div 4"
  shows "subvec (k * 3) (k * 3 + 3) (bgra_to_rgb bgra w h)
    = [bgra ! (k * 4 + 2), bgra ! (k * 4 + 1), bgra ! (k * 4)]"
proof -
  let ?f = "\<lambda>c :: bytes. [c ! 2, c ! 1, c ! 0]"
  have "subvec (k * 3) (k * 3 + 3) (bgra_to_rgb bgra w h) = ?f (chunks_exact 4 bgra ! k)"
    unfolding bgra_to_rgb_def using assms
    by (intro subvec_concat_equal) (simp_all add: length_chunks_exact)
  moreover have "4 * k + 3 < length bgra" using assms by linarith
  ultimately show ?thesis using assms by (simp add: nth_chunks_exact mult.commute)
qed

section \<open>The paths of a capture\<close>

lemma capture_software_forced:
  assumes "zstd rgb (compression_level (sc_quality_mode self)) = Inr d" "0 \<le> clock"
  shows "capture_software zstd clock self rgb True =
    (self\<lparr>sc_frame_processor := (sc_frame_processor self)\<lparr>fp_last_frame := Some rgb\<rparr>\<rparr>,
     Inr (Some \<lparr>cf_width = fp_width (sc_frame_processor self),
                cf_height = fp_height (sc_frame_processor self), cf_data = d,
                cf_timestamp = word_of_nat (as_millis (nat clock)), cf_frame_type = KeyFrame,
                cf_tiles = None, cf_encoding = ZstdCompressed\<rparr>))"
  using assms
  by (simp add: capture_software_def process_frame_def key_frame_def encode_all_def
      unix_millis_def unix_duration_def split: option.split)

lemma capture_software_time:
  assumes "capture_software zstd clock self rgb f = (self', r)"
  shows "sc_last_frame_time self' = sc_last_frame_time self"
    "sc_frame_interval self' = sc_frame_interval self"
  using assms
  by (auto simp: capture_software_def and_then_def Let_def split: sum.splits prod.splits)

lemma after_encode_time:
  assumes "after_encode zstd clock self rgb f out = (self', r)"
  shows "sc_last_frame_time self' = sc_last_frame_time self"
    "sc_frame_interval self' = sc_frame_interval self"
  using assms
  by (auto simp: after_encode_def Let_def split: prod.splits sum.splits error.splits
      dest: capture_software_time)

text \<open>A call either leaves the time of the last frame alone, or the interval has passed and the
  time is the second clock reading; the interval changes only in \<open>set_quality\<close>.\<close>

lemma capture_frame_time:
  assumes "capture_frame webp ff zstd now now' clock ev self = Some (self', r)"
  shows "sc_frame_interval self' = sc_frame_interval self \<and>
    (sc_last_frame_time self' = sc_last_frame_time self \<and> \<not> (\<exists>f. r = Inr (Some f))
     \<or> sc_last_frame_time self' = now' \<and> sc_frame_interval self \<le> now - sc_last_frame_time self)"
  using assms
  by (auto simp: capture_frame_def elapsed_def duration_since_def Let_def
      split: if_splits capture_event.splits option.splits sum.splits
      dest: capture_software_time after_encode_time)

section \<open>Properties\<close>

text \<open>C30: The picture handed to the hardware encoder is the captured one cut to even dimensions: the
  crop never indexes outside the frame, has exactly the size the encoder was opened with, and
  every kept pixel is the pixel at the same place.\<close>

theorem crop_keeps_pixels:
  assumes "screen_ok self" "length rgb = sc_width self * sc_height self * 3"
  shows "\<exists>c. crop_rgb self rgb = Inr c
    \<and> (let w = unat (es_width (encoder_settings (sc_width self) (sc_height self) fps));
           h = unat (es_height (encoder_settings (sc_width self) (sc_height self) fps))
       in even w \<and> even h \<and> length c = w * h * 3
          \<and> (\<forall>x < w. \<forall>y < h. pixel_of c w x y = pixel_of rgb (sc_width self) x y))"
  using crop_rgb_ok [OF assms] make_even_even
  by (fastforce simp: encoder_settings_def Let_def)

theorem crop_keeps_pixels_witness:
  "\<exists>c. crop_rgb \<lparr>sc_width = 3, sc_height = 2, sc_last_frame_time = 0, sc_frame_interval = 0,
      sc_quality_mode = High, sc_frame_processor = FrameProcessor_new 3 2, sc_frame_count = 0,
      sc_video_encoder = (None :: unit dyn_encoder option), sc_use_hardware_encoding = False\<rparr>
      [1, 2, 3, 4, 5, 6, 7, 8, 9, 11, 12, 13, 14, 15, 16, 17, 18, 19] = Inr c \<and> length c = 12"
proof -
  let ?sc = "\<lparr>sc_width = 3, sc_height = 2, sc_last_frame_time = 0, sc_frame_interval = 0,
      sc_quality_mode = High, sc_frame_processor = FrameProcessor_new 3 2, sc_frame_count = 0,
      sc_video_encoder = (None :: unit dyn_encoder option), sc_use_hardware_encoding = False\<rparr>"
  have "screen_ok ?sc" by (simp add: screen_ok_def)
  from crop_keeps_pixels [OF this, of "[1, 2, 3, 4, 5, 6, 7, 8, 9, 11, 12, 13, 14, 15, 16, 17, 18, 19]" 30]
  show ?thesis by (auto simp: Let_def encoder_settings_def make_even_eq)
qed

text \<open>A sequence of capture calls and the times at which they delivered a frame; it stops at a call
  that does not return.\<close>

fun capture_run ::
  "webp \<Rightarrow> 'e ffmpeg \<Rightarrow> zstd \<Rightarrow> (Instant \<times> Instant \<times> SystemTime \<times> capture_event) list \<Rightarrow>
   'e ScreenCapture \<Rightarrow> Instant list" where
  "capture_run webp ff zstd [] self = []"
| "capture_run webp ff zstd ((now, now', clock, ev) # cs) self =
     (case capture_frame webp ff zstd now now' clock ev self of
        None \<Rightarrow> []
      | Some (self', r) \<Rightarrow>
          (case r of Inr (Some f) \<Rightarrow> [now'] | _ \<Rightarrow> []) @ capture_run webp ff zstd cs self')"

lemma spaced_later: "t \<le> t' \<Longrightarrow> spaced d t' us \<Longrightarrow> spaced d t us"
  by (cases us) auto

text \<open>C31: However often \<open>capture_frame\<close> is called, the frames it delivers are at least one frame
  interval apart.\<close>

theorem captured_frames_spaced:
  assumes "list_all (\<lambda>(now, now', clock, ev). now \<le> now') cs" "0 < sc_frame_interval self"
  shows "spaced (sc_frame_interval self) (sc_last_frame_time self) (capture_run webp ff zstd cs self)"
  using assms
proof (induction cs arbitrary: self)
  case (Cons c cs)
  obtain now now' clock ev where c: "c = (now, now', clock, ev)" by (cases c)
  show ?case
  proof (cases "capture_frame webp ff zstd now now' clock ev self")
    case None
    then show ?thesis by (simp add: c)
  next
    case (Some p)
    obtain self' r where p: "p = (self', r)" by force
    note ct = capture_frame_time [OF Some [unfolded p]]
    have IH: "spaced (sc_frame_interval self) (sc_last_frame_time self') (capture_run webp ff zstd cs self')"
      using Cons.IH [of self'] Cons.prems ct by simp
    have le: "now \<le> now'" using Cons.prems(1) c by simp
    show ?thesis
    proof (cases "\<exists>f. r = Inr (Some f)")
      case True
      then have t: "sc_last_frame_time self' = now'"
        "sc_frame_interval self \<le> now - sc_last_frame_time self" using ct by auto
      then have "sc_last_frame_time self + sc_frame_interval self \<le> now'" using le Cons.prems(2) by linarith
      then show ?thesis using True IH t Some p c by auto
    next
      case False
      then have "sc_last_frame_time self \<le> sc_last_frame_time self'" using ct le Cons.prems(2) by auto
      then have "spaced (sc_frame_interval self) (sc_last_frame_time self) (capture_run webp ff zstd cs self')"
        using IH by (rule spaced_later)
      then show ?thesis using False Some p c by (auto split: sum.split option.split)
    qed
  qed
qed simp

theorem captured_frames_spaced_witness:
  "spaced 33 0 (capture_run (\<lambda>d w h. Some d) demo_ffmpeg (\<lambda>d l. Inr d)
     [(40, 41, 0, FrameReady [1, 2, 3, 4]), (50, 51, 0, FrameReady [1, 2, 3, 4]),
      (80, 81, 0, FrameReady [5, 6, 7, 8])]
     \<lparr>sc_width = 1, sc_height = 1, sc_last_frame_time = 0, sc_frame_interval = 33,
      sc_quality_mode = High, sc_frame_processor = FrameProcessor_new 1 1, sc_frame_count = 0,
      sc_video_encoder = None, sc_use_hardware_encoding = False\<rparr>)"
  using captured_frames_spaced
    [of "[(40, 41, 0, FrameReady [1, 2, 3, 4]), (50, 51, 0, FrameReady [1, 2, 3, 4]),
      (80, 81, 0, FrameReady [5, 6, 7, 8])]"
     "\<lparr>sc_width = 1, sc_height = 1, sc_last_frame_time = 0, sc_frame_interval = 33,
      sc_quality_mode = High, sc_frame_processor = FrameProcessor_new 1 1, sc_frame_count = 0,
      sc_video_encoder = None, sc_use_hardware_encoding = False\<rparr>"
     "\<lambda>d w h. Some d" demo_ffmpeg "\<lambda>d l. Inr d"]
  by simp

text \<open>Without a video encoder every delivered frame is a key frame: the whole picture, converted
  from BGRA pixel by pixel and compressed, whatever was captured before.\<close>

theorem software_capture_is_keyframe:
  assumes "sc_video_encoder self = None" "sc_frame_interval self \<le> now - sc_last_frame_time self"
    and "0 \<le> clock"
    and "zstd (bgra_to_rgb frame_data (sc_width self) (sc_height self))
           (compression_level (sc_quality_mode self)) = Inr compressed"
  shows "\<exists>self'. capture_frame webp ff zstd now now' clock (FrameReady frame_data) self
    = Some (self', Inr (Some \<lparr>cf_width = fp_width (sc_frame_processor self),
                cf_height = fp_height (sc_frame_processor self), cf_data = compressed,
                cf_timestamp = word_of_nat (as_millis (nat clock)), cf_frame_type = KeyFrame,
                cf_tiles = None, cf_encoding = ZstdCompressed\<rparr>))"
  using assms
  by (simp add: capture_frame_def elapsed_def duration_since_def Let_def capture_software_forced)

theorem software_capture_is_keyframe_witness:
  "\<exists>self' f. capture_frame (\<lambda>d w h. Some d) demo_ffmpeg (\<lambda>d l. Inr d) 40 41 0 (FrameReady [1, 2, 3, 4])
     \<lparr>sc_width = 1, sc_height = 1, sc_last_frame_time = 0, sc_frame_interval = 33,
      sc_quality_mode = High, sc_frame_processor = FrameProcessor_new 1 1, sc_frame_count = 0,
      sc_video_encoder = None, sc_use_hardware_encoding = False\<rparr> = Some (self', Inr (Some f))
     \<and> cf_frame_type f = KeyFrame"
proof -
  let ?sc = "\<lparr>sc_width = 1, sc_height = 1, sc_last_frame_time = 0, sc_frame_interval = 33,
      sc_quality_mode = High, sc_frame_processor = FrameProcessor_new 1 1, sc_frame_count = 0,
      sc_video_encoder = None, sc_use_hardware_encoding = False\<rparr>"
  show ?thesis
    using software_capture_is_keyframe [of ?sc 40 0 "\<lambda>d l. Inr d" "[1, 2, 3, 4]" "bgra_to_rgb [1, 2, 3, 4] 1 1"]
    by fastforce
qed

text \<open>On a platform whose hardware encoder passes the 1920 by 1080 test but cannot be opened for
  the actual screen, the factory silently returns the WebP encoder and the capture announces its
  output as H.264: the client is sent WebP bytes labelled \<open>H264\<close>.\<close>

theorem webp_sent_as_h264:
  assumes "is_hardware_available os ff"
    and "FFmpegHardwareEncoder_new os ff (encoder_settings width height fps) = Inl e"
    and "fps \<noteq> 0" "width < 2 ^ 32" "height < 2 ^ 32" "even width" "even height"
    and "length frame_data = width * height * 4"
    and "webp (bgra_to_rgb frame_data width height) (word_of_nat width) (word_of_nat height) = Some img"
    and "start + from_millis (1000 div ucast fps) \<le> now" "0 \<le> clock"
  shows "\<exists>sc self' f. ScreenCapture_new os ff True (Some (width, height)) start fps = Inr sc
    \<and> sc_use_hardware_encoding sc
    \<and> capture_frame webp ff zstd now now' clock (FrameReady frame_data) sc = Some (self', Inr (Some f))
    \<and> cf_data f = img \<and> cf_encoding f = H264"
proof -
  let ?st = "encoder_settings width height fps" and ?rgb = "bgra_to_rgb frame_data width height"
  define sc where "sc = \<lparr>sc_width = width, sc_height = height, sc_last_frame_time = start,
      sc_frame_interval = from_millis (1000 div ucast fps), sc_quality_mode = High,
      sc_frame_processor = FrameProcessor_new (word_of_nat width) (word_of_nat height),
      sc_frame_count = 0,
      sc_video_encoder = Some (SoftwareBox \<lparr>se_settings = ?st, se_frame_count = 0\<rparr> :: 'a dyn_encoder),
      sc_use_hardware_encoding = True\<rparr>"
  have new: "ScreenCapture_new os ff True (Some (width, height)) start fps = Inr sc"
    using assms(1-3)
    by (simp add: ScreenCapture_new_def create_encoder_def SoftwareEncoder_new_def interval_of_def
        Let_def sc_def)
  have ev: "make_even (word_of_nat n) = (word_of_nat n :: u32)" if "even n" "n < 2 ^ 32" for n
    using that by (simp add: word_unat_eq_iff make_even_eq even_iff_mod_2_eq_zero)
  have crop: "crop_rgb (sc\<lparr>sc_last_frame_time := now', sc_frame_count := 1\<rparr>) ?rgb = Inr ?rgb"
    using ev assms(4-7) by (simp add: crop_rgb_def sc_def Let_def)
  have enc: "dyn_encode_frame webp ff clock (SoftwareBox \<lparr>se_settings = ?st, se_frame_count = 0\<rparr>) ?rgb True
      = Some (SoftwareBox \<lparr>se_settings = ?st, se_frame_count = 1\<rparr>,
              Inr \<lparr>ef_data = img, ef_is_keyframe = True, ef_timestamp = word_of_nat (as_millis (nat clock))\<rparr>)"
    using assms(4-7,9,11) ev
    by (simp add: SoftwareEncoder_encode_frame_def keyframe_due_def encoder_settings_def unix_millis_def
        unix_duration_def)
  have "\<exists>self' f. capture_frame webp ff zstd now now' clock (FrameReady frame_data) sc = Some (self', Inr (Some f))
      \<and> cf_data f = img \<and> cf_encoding f = H264"
    using assms(10) crop enc
    by (simp add: capture_frame_def elapsed_def duration_since_def Let_def sc_def after_encode_def
        hardware_frame_def)
  moreover have "sc_use_hardware_encoding sc" by (simp add: sc_def)
  ultimately show ?thesis using new by blast
qed

theorem webp_sent_as_h264_witness:
  "\<exists>sc self' f. ScreenCapture_new MacOS demo_ffmpeg True (Some (2, 2)) 0 30 = Inr sc
    \<and> sc_use_hardware_encoding sc
    \<and> capture_frame (\<lambda>d w h. Some [82, 73, 70, 70]) demo_ffmpeg (\<lambda>d l. Inr d) 40000000 40000001 0
        (FrameReady (replicate 16 0)) sc = Some (self', Inr (Some f))
    \<and> cf_data f = [82, 73, 70, 70] \<and> cf_encoding f = H264"
proof (rule webp_sent_as_h264)
  show "is_hardware_available MacOS demo_ffmpeg"
    by (simp add: is_hardware_available_def FFmpegHardwareEncoder_new_def demo_ffmpeg_def encoder_config_def)
  show "FFmpegHardwareEncoder_new MacOS demo_ffmpeg (encoder_settings 2 2 30) = Inl (External ''unsupported size'')"
    by (simp add: FFmpegHardwareEncoder_new_def demo_ffmpeg_def encoder_config_def encoder_settings_def
        make_even_def)
  show "0 + from_millis (1000 div ucast (30 :: u32)) \<le> 40000000" by (simp add: from_millis_def)
qed simp_all

end
