(* ===== verification/Server.thy ===== *)
theory Server
  imports Auth Crypto Framing Input_Handler Screen_Capture
begin

text \<open>
  \<open>src/server/server.rs\<close>: the TCP server. The shared state (access code, sessions, the channels to
  the writer tasks, the input replayed so far) is the record \<open>Shared\<close>, the local variables of one
  \<open>handle_client\<close> task the record \<open>Handler\<close>. Each arm of the message \<open>match\<close> is one definition
  that returns the state it leaves also when it fails; \<open>handle_message\<close> is the \<open>match\<close>,
  \<open>drain_buffer\<close> the inner loop, \<open>handle_client\<close> the task, \<open>serve_session\<close> and \<open>serve_frame\<close> the
  body of \<open>screen_capture_loop\<close>. The locks are held for the whole of such a step, so a step is
  atomic in the transition system at the end.

  The crates are the record \<open>libs\<close>. What a handler draws from the outside while it handles one
  message (clocks, nonce, key, identifiers) is a value of the record \<open>draws\<close>; a clock read several
  times is a sequence of readings.
\<close>

record libs =
  lb_crypto :: crypto_lib
  lb_bincode :: bincode
  lb_enigo_new :: "string option"
  lb_enigo :: enigo

record draws =
  dr_clock :: "nat \<Rightarrow> SystemTime"
  dr_now :: "nat \<Rightarrow> Instant"
  dr_nonce :: bytes
  dr_secret :: bytes
  dr_uuid :: string
  dr_alnum :: "nat \<Rightarrow> u8"

text \<open>An unbounded channel: what is queued, and whether its receiver still exists.\<close>

record Chan =
  ch_queue :: "bytes list"
  ch_open :: bool

record ClientSession =
  sess_id :: string
  sess_token :: SessionToken
  sess_crypto :: CryptoSession
  sess_tx :: nat
  sess_quality_controller :: AdaptiveQualityController
  sess_last_frame_time :: Instant

record Shared =
  sh_access_code :: "AccessCode option"
  sh_sessions :: "string \<rightharpoonup> ClientSession"
  sh_chans :: "nat \<Rightarrow> Chan"
  sh_input :: "enigo_call list"

text \<open>\<open>hc_conn\<close> numbers the connection and its channel; \<open>hc_msgs\<close> counts the messages handled.\<close>

record Handler =
  hc_conn :: nat
  hc_buffer :: bytes
  hc_crypto_session :: "CryptoSession option"
  hc_session_id :: "string option"
  hc_msgs :: nat

definition Server_new :: "AccessCode option \<Rightarrow> Shared" where
  "Server_new access_code =
     \<lparr>sh_access_code = access_code, sh_sessions = Map.empty,
      sh_chans = (\<lambda>_. \<lparr>ch_queue = [], ch_open = False\<rparr>), sh_input = []\<rparr>"

text \<open>The start of a task: its channel is created.\<close>

definition accept_client :: "nat \<Rightarrow> Shared \<Rightarrow> Handler \<times> Shared" where
  "accept_client c sh =
     (\<lparr>hc_conn = c, hc_buffer = [], hc_crypto_session = None, hc_session_id = None, hc_msgs = 0\<rparr>,
      sh\<lparr>sh_chans := (sh_chans sh)(c := \<lparr>ch_queue = [], ch_open = True\<rparr>)\<rparr>)"

section \<open>Sending\<close>

definition chan_send :: "nat \<Rightarrow> bytes \<Rightarrow> Shared \<Rightarrow> Shared \<times> unit result" where
  "chan_send tx data sh =
     (let ch = sh_chans sh tx
      in if ch_open ch
         then (sh\<lparr>sh_chans := (sh_chans sh)(tx := ch\<lparr>ch_queue := ch_queue ch @ [data]\<rparr>)\<rparr>, Inr ())
         else (sh, Inl (External ''channel closed'')))"

definition seal_message ::
  "libs \<Rightarrow> bytes \<Rightarrow> Message \<Rightarrow> CryptoSession option \<Rightarrow> bytes result" where
  "seal_message L nonce message crypto =
     try_bind (Message_serialize (lb_bincode L) message) (\<lambda>serialized.
       case crypto of
         Some c \<Rightarrow> encrypt (lb_crypto L) c nonce serialized
       | None \<Rightarrow> Inr serialized)"

definition send_encrypted ::
  "libs \<Rightarrow> bytes \<Rightarrow> nat \<Rightarrow> Message \<Rightarrow> CryptoSession option \<Rightarrow> Shared \<Rightarrow> Shared \<times> unit result" where
  "send_encrypted L nonce tx message crypto sh =
     and_then (sh, seal_message L nonce message crypto) (\<lambda>sh data. chan_send tx data sh)"

section \<open>Authentication\<close>

definition handle_auth ::
  "libs \<Rightarrow> SystemTime \<Rightarrow> string \<Rightarrow> AccessCode option \<Rightarrow> AuthResponse result" where
  "handle_auth L clock code access_code =
     (let denied = \<lparr>aresp_success = False, aresp_session_token = None,
                    aresp_message = ''Invalid or expired code''\<rparr>
      in case access_code of
           Some stored_code \<Rightarrow>
             try_bind (AccessCode_verify (cl_sha256 (lb_crypto L)) stored_code clock code) (\<lambda>ok.
               if ok
               then Inr \<lparr>aresp_success = True, aresp_session_token = None,
                         aresp_message = ''Authentication successful''\<rparr>
               else Inr denied)
         | None \<Rightarrow> Inr denied)"

definition new_session :: "draws \<Rightarrow> SessionToken \<Rightarrow> CryptoSession \<Rightarrow> nat \<Rightarrow> ClientSession" where
  "new_session d token crypto tx =
     \<lparr>sess_id = dr_uuid d, sess_token = token, sess_crypto = crypto, sess_tx = tx,
      sess_quality_controller = AdaptiveQualityController_new (dr_now d 0) (dr_now d 1),
      sess_last_frame_time = dr_now d 2\<rparr>"

text \<open>A successful authentication up to the insertion of the session.\<close>

definition open_session ::
  "draws \<Rightarrow> CryptoSession \<Rightarrow> Handler \<Rightarrow> Shared \<Rightarrow> (Handler \<times> Shared) \<times> SessionToken result" where
  "open_session d crypto h sh =
     and_then ((h, sh), SessionToken_generate (dr_alnum d) (dr_clock d 1) 24)
       (\<lambda>(h, sh) session_token.
          ((h\<lparr>hc_session_id := Some (dr_uuid d)\<rparr>,
            sh\<lparr>sh_sessions := (sh_sessions sh)
                 (dr_uuid d \<mapsto> new_session d session_token crypto (hc_conn h))\<rparr>),
           Inr session_token))"

text \<open>The \<open>AuthRequest\<close> arm up to its answer: the session, if one is opened, is in the table before the
  answer is queued.\<close>

definition admit ::
  "libs \<Rightarrow> draws \<Rightarrow> string \<Rightarrow> Handler \<Rightarrow> Shared \<Rightarrow> (Handler \<times> Shared) \<times> Message result" where
  "admit L d code h sh =
     (case hc_crypto_session h of
        None \<Rightarrow> ((h, sh), Inl (Anyhow ''Key exchange must happen before authentication''))
      | Some crypto \<Rightarrow>
          and_then ((h, sh), handle_auth L (dr_clock d 0) code (sh_access_code sh))
            (\<lambda>(h, sh) response.
               if aresp_success response
               then and_then (open_session d crypto h sh) (\<lambda>hsh session_token.
                      (hsh, Inr (Msg_AuthResponse True (Some (tok_token session_token)))))
               else ((h, sh), Inr (Msg_AuthResponse False None))))"

text \<open>\<open>send_encrypted(&tx, &msg, &crypto_session).await?\<close>\<close>

definition send_reply ::
  "libs \<Rightarrow> bytes \<Rightarrow> (Handler \<times> Shared) \<times> Message result \<Rightarrow> (Handler \<times> Shared) \<times> unit result" where
  "send_reply L nonce prepared =
     and_then prepared (\<lambda>(h, sh) msg.
       case send_encrypted L nonce (hc_conn h) msg (hc_crypto_session h) sh of
         (sh', r) \<Rightarrow> ((h, sh'), r))"

definition on_auth_request ::
  "libs \<Rightarrow> draws \<Rightarrow> string \<Rightarrow> Handler \<Rightarrow> Shared \<Rightarrow> (Handler \<times> Shared) \<times> unit result" where
  "on_auth_request L d code h sh = send_reply L (dr_nonce d) (admit L d code h sh)"

section \<open>The other messages\<close>

definition on_key_exchange ::
  "libs \<Rightarrow> draws \<Rightarrow> bytes \<Rightarrow> Handler \<Rightarrow> Shared \<Rightarrow> (Handler \<times> Shared) \<times> unit result" where
  "on_key_exchange L d their_key h sh =
     (let lib = lb_crypto L;
          key_exchange = KeyExchange_new lib (dr_secret d);
          our_public = public_key_bytes key_exchange;
          response = Msg_KeyExchangeAck our_public
      in and_then ((h, sh), Message_serialize (lb_bincode L) response) (\<lambda>(h, sh) data.
         and_then (case chan_send (hc_conn h) data sh of (sh', r) \<Rightarrow> ((h, sh'), r)) (\<lambda>(h, sh) _.
         and_then ((h, sh), public_key_of_slice their_key) (\<lambda>(h, sh) their_public.
         let shared_secret = compute_shared_secret lib key_exchange their_public
         in and_then ((h, sh), from_shared_secret lib shared_secret) (\<lambda>(h, sh) crypto.
            ((h\<lparr>hc_crypto_session := Some crypto\<rparr>, sh), Inr ()))))))"

text \<open>\<open>if let Some(id) = &session_id { if let Some(session) = sessions.read().await.get(id) ... }\<close>\<close>

definition session_of :: "Handler \<Rightarrow> Shared \<Rightarrow> (string \<times> ClientSession) option" where
  "session_of h sh =
     (case hc_session_id h of
        None \<Rightarrow> None
      | Some i \<Rightarrow> map_option (Pair i) (sh_sessions sh i))"

definition on_start_stream ::
  "libs \<Rightarrow> draws \<Rightarrow> Handler \<Rightarrow> Shared \<Rightarrow> (Handler \<times> Shared) \<times> unit result" where
  "on_start_stream L d h sh =
     (case session_of h sh of
        None \<Rightarrow> ((h, sh), Inr ())
      | Some (i, session) \<Rightarrow>
          let quality = get_current_quality (sess_quality_controller session)
          in case send_encrypted L (dr_nonce d) (hc_conn h) (Msg_QualityChange quality)
                    (hc_crypto_session h) sh of
               (sh', r) \<Rightarrow> ((h, sh'), r))"

definition replay ::
  "libs \<Rightarrow> (enigo \<Rightarrow> enigo_call list \<times> unit result) \<Rightarrow> Handler \<Rightarrow> Shared \<Rightarrow>
   (Handler \<times> Shared) \<times> unit result" where
  "replay L act h sh =
     and_then ((h, sh), InputHandler_new (lb_enigo_new L)) (\<lambda>(h, sh) _.
       case act (lb_enigo L) of
         (calls, r) \<Rightarrow> ((h, sh\<lparr>sh_input := sh_input sh @ calls\<rparr>), r))"

definition handle_mouse_move where
  "handle_mouse_move L x y h sh = replay L (\<lambda>enigo. mouse_move enigo x y) h sh"

definition handle_mouse_click where
  "handle_mouse_click L button pressed x y h sh =
     replay L (\<lambda>enigo. mouse_click enigo button pressed x y) h sh"

definition handle_key_event where
  "handle_key_event L key pressed modifiers h sh =
     replay L (\<lambda>enigo. key_event enigo key pressed modifiers) h sh"

definition put_controller ::
  "string \<Rightarrow> AdaptiveQualityController \<Rightarrow> Shared \<Rightarrow> Shared" where
  "put_controller i ctl sh =
     sh\<lparr>sh_sessions := (sh_sessions sh)
          (i := map_option (\<lambda>s. s\<lparr>sess_quality_controller := ctl\<rparr>) (sh_sessions sh i))\<rparr>"

text \<open>\<open>received_at.saturating_sub(timestamp)\<close>\<close>

definition saturating_sub :: "u64 \<Rightarrow> u64 \<Rightarrow> u64" where
  "saturating_sub a b = (if b \<le> a then a - b else 0)"

definition on_frame_ack ::
  "draws \<Rightarrow> u64 \<Rightarrow> u64 \<Rightarrow> Handler \<Rightarrow> Shared \<Rightarrow> (Handler \<times> Shared) \<times> unit result" where
  "on_frame_ack d timestamp received_at h sh =
     (case session_of h sh of
        None \<Rightarrow> ((h, sh), Inr ())
      | Some (i, session) \<Rightarrow>
          let rtt = saturating_sub received_at timestamp;
              ctl = update_metrics (dr_now d 0) (dr_now d 1) (sess_quality_controller session) 0
                      (from_millis rtt)
          in ((h, put_controller i ctl sh), Inr ()))"

definition on_request_quality ::
  "libs \<Rightarrow> draws \<Rightarrow> QualityMode \<Rightarrow> Handler \<Rightarrow> Shared \<Rightarrow> (Handler \<times> Shared) \<times> unit result" where
  "on_request_quality L d mode h sh =
     (case session_of h sh of
        None \<Rightarrow> ((h, sh), Inr ())
      | Some (i, session) \<Rightarrow>
          let sh1 = put_controller i (force_quality (sess_quality_controller session) (Some mode)) sh
          in case send_encrypted L (dr_nonce d) (hc_conn h) (Msg_QualityChange mode)
                    (hc_crypto_session h) sh1 of
               (sh', r) \<Rightarrow> ((h, sh'), r))"

section \<open>The message loop\<close>

text \<open>How the body of the inner loop ends: with the next message, or with \<open>break\<close>.\<close>

datatype flow = Next | Break

definition go_on :: "'s \<times> unit result \<Rightarrow> 's \<times> flow result" where
  "go_on sr = and_then sr (\<lambda>s _. (s, Inr Next))"

fun handle_message ::
  "libs \<Rightarrow> draws \<Rightarrow> Message \<Rightarrow> Handler \<Rightarrow> Shared \<Rightarrow> (Handler \<times> Shared) \<times> flow result" where
  "handle_message L d (Msg_AuthRequest code) h sh = go_on (on_auth_request L d code h sh)"
| "handle_message L d (Msg_KeyExchange key) h sh = go_on (on_key_exchange L d key h sh)"
| "handle_message L d Msg_StartStream h sh = go_on (on_start_stream L d h sh)"
| "handle_message L d Msg_StopStream h sh = ((h, sh), Inr Next)"
| "handle_message L d (Msg_MouseMove x y) h sh = go_on (handle_mouse_move L x y h sh)"
| "handle_message L d (Msg_MouseClick button pressed x y) h sh =
     go_on (handle_mouse_click L button pressed x y h sh)"
| "handle_message L d (Msg_KeyEvent key pressed modifiers) h sh =
     go_on (handle_key_event L key pressed modifiers h sh)"
| "handle_message L d (Msg_FrameAck timestamp received_at) h sh =
     go_on (on_frame_ack d timestamp received_at h sh)"
| "handle_message L d (Msg_RequestQualityChange mode) h sh =
     go_on (on_request_quality L d mode h sh)"
| "handle_message L d Msg_Disconnect h sh = ((h, sh), Inr Break)"
| "handle_message L d _ h sh = ((h, sh), Inr Next)"

text \<open>
  Two arms of the \<open>match\<close> give up all locks before they queue their answer, so that other tasks can run
  in between: \<open>prepare\<close> is what they do until then, with the answer they have decided on. (The other
  arms that send, the key exchange and \<open>RequestQualityChange\<close>, work on their own variables or hold the
  session's controller, which the frame loop needs, until they have sent.)
\<close>

fun prepare ::
  "libs \<Rightarrow> draws \<Rightarrow> Message \<Rightarrow> Handler \<Rightarrow> Shared \<Rightarrow> ((Handler \<times> Shared) \<times> Message result) option" where
  "prepare L d (Msg_AuthRequest code) h sh = Some (admit L d code h sh)"
| "prepare L d Msg_StartStream h sh =
     map_option (\<lambda>(i, session).
         ((h, sh), Inr (Msg_QualityChange (get_current_quality (sess_quality_controller session)))))
       (session_of h sh)"
| "prepare L d _ h sh = None"

text \<open>Decryption and parsing of one frame's payload.\<close>

definition open_payload :: "libs \<Rightarrow> CryptoSession option \<Rightarrow> bytes \<Rightarrow> Message result" where
  "open_payload L crypto msg_data =
     try_bind (case crypto of
                 Some c \<Rightarrow> decrypt (lb_crypto L) c msg_data
               | None \<Rightarrow> Inr msg_data)
       (Message_deserialize (lb_bincode L))"

definition handle_payload ::
  "libs \<Rightarrow> draws \<Rightarrow> bytes \<Rightarrow> Handler \<Rightarrow> Shared \<Rightarrow> (Handler \<times> Shared) \<times> flow result" where
  "handle_payload L d msg_data h sh =
     and_then ((h, sh), open_payload L (hc_crypto_session h) msg_data) (\<lambda>(h, sh) message.
       handle_message L d message h sh)"

text \<open>One turn of the inner loop; \<open>None\<close>: no complete frame in the buffer.\<close>

definition buffer_step ::
  "libs \<Rightarrow> (nat \<Rightarrow> draws) \<Rightarrow> Handler \<Rightarrow> Shared \<Rightarrow> ((Handler \<times> Shared) \<times> flow result) option" where
  "buffer_step L env h sh =
     (case next_frame (hc_buffer h) of
        None \<Rightarrow> None
      | Some (msg_data, rest) \<Rightarrow>
          Some (handle_payload L (env (hc_msgs h)) msg_data
                  (h\<lparr>hc_buffer := rest, hc_msgs := Suc (hc_msgs h)\<rparr>) sh))"

section \<open>What a step changes\<close>

text \<open>Sending touches only the channel it sends to.\<close>

lemma chan_send_cases:
  assumes "chan_send tx data sh = (sh', r)"
  obtains (sent) "ch_open (sh_chans sh tx)" "r = Inr ()"
      "sh' = sh\<lparr>sh_chans := (sh_chans sh)(tx := (sh_chans sh tx)
               \<lparr>ch_queue := ch_queue (sh_chans sh tx) @ [data]\<rparr>)\<rparr>"
  | (closed) "\<not> ch_open (sh_chans sh tx)" "sh' = sh" "r = Inl (External ''channel closed'')"
  using assms by (auto simp: chan_send_def Let_def split: if_splits)

definition same_but_chan :: "nat \<Rightarrow> Shared \<Rightarrow> Shared \<Rightarrow> bool" where
  "same_but_chan c sh sh' \<longleftrightarrow>
     sh_sessions sh' = sh_sessions sh \<and> sh_access_code sh' = sh_access_code sh
     \<and> sh_input sh' = sh_input sh \<and> (\<forall>c'. c' \<noteq> c \<longrightarrow> sh_chans sh' c' = sh_chans sh c')"

lemma same_but_chan_refl [simp]: "same_but_chan c sh sh"
  by (simp add: same_but_chan_def)

lemma chan_send_frame: "chan_send tx data sh = (sh', r) \<Longrightarrow> same_but_chan tx sh sh'"
  by (erule chan_send_cases) (auto simp: same_but_chan_def)

lemma send_encrypted_frame:
  "send_encrypted L n tx m c sh = (sh', r) \<Longrightarrow> same_but_chan tx sh sh'"
  by (auto simp: send_encrypted_def and_then_def split: sum.splits dest: chan_send_frame)

text \<open>The effect of a message on its handler's identity and on the rest of the server.\<close>

definition handler_frame :: "Handler \<Rightarrow> Shared \<Rightarrow> Handler \<Rightarrow> Shared \<Rightarrow> bool" where
  "handler_frame h sh h' sh' \<longleftrightarrow>
     hc_conn h' = hc_conn h \<and> hc_buffer h' = hc_buffer h \<and> hc_msgs h' = hc_msgs h
     \<and> sh_access_code sh' = sh_access_code sh
     \<and> (\<forall>c. c \<noteq> hc_conn h \<longrightarrow> sh_chans sh' c = sh_chans sh c)"

lemma handler_frameI:
  "same_but_chan (hc_conn h) sh sh' \<Longrightarrow> handler_frame h sh h sh'"
  by (simp add: handler_frame_def same_but_chan_def)

lemma open_session_cases:
  assumes "open_session d crypto h sh = ((h', sh'), r)"
  obtains (ok) token where "SessionToken_generate (dr_alnum d) (dr_clock d 1) 24 = Inr token"
      "h' = h\<lparr>hc_session_id := Some (dr_uuid d)\<rparr>" "r = Inr token"
      "sh' = sh\<lparr>sh_sessions := (sh_sessions sh)(dr_uuid d \<mapsto> new_session d token crypto (hc_conn h))\<rparr>"
  | (panic) e where "h' = h" "sh' = sh" "r = Inl e"
proof (cases "SessionToken_generate (dr_alnum d) (dr_clock d 1) 24")
  case (Inl e)
  then show ?thesis using assms panic [of e] by (simp add: open_session_def)
next
  case (Inr token)
  then show ?thesis using assms ok [OF Inr] by (simp add: open_session_def)
qed

lemmas auth_defs = on_auth_request_def send_reply_def admit_def

lemma on_auth_request_cases:
  assumes "on_auth_request L d code h sh = ((h', sh'), r)"
  obtains (denied) "h' = h" "same_but_chan (hc_conn h) sh sh'"
  | (opened) crypto stored token sh1
    where "hc_crypto_session h = Some crypto" "sh_access_code sh = Some stored"
      "AccessCode_verify (cl_sha256 (lb_crypto L)) stored (dr_clock d 0) code = Inr True"
      "h' = h\<lparr>hc_session_id := Some (dr_uuid d)\<rparr>"
      "sh1 = sh\<lparr>sh_sessions := (sh_sessions sh)(dr_uuid d \<mapsto> new_session d token crypto (hc_conn h))\<rparr>"
      "same_but_chan (hc_conn h) sh1 sh'"
proof (cases "hc_crypto_session h")
  case None
  then show ?thesis using assms denied by (simp add: auth_defs)
next
  case (Some crypto)
  show ?thesis
  proof (cases "handle_auth L (dr_clock d 0) code (sh_access_code sh)")
    case (Inl e)
    then show ?thesis using assms Some denied by (simp add: auth_defs)
  next
    case (Inr resp)
    show ?thesis
    proof (cases "aresp_success resp")
      case False
      then have "h' = h" "same_but_chan (hc_conn h) sh sh'"
        using assms Some Inr
        by (auto simp: auth_defs split: prod.splits dest: send_encrypted_frame)
      then show ?thesis by (rule denied)
    next
      case True
      then obtain stored where stored: "sh_access_code sh = Some stored"
        "AccessCode_verify (cl_sha256 (lb_crypto L)) stored (dr_clock d 0) code = Inr True"
        using Inr by (auto simp: handle_auth_def Let_def try_bind_Inr_iff split: option.splits if_splits)
      obtain h1 sh1 q where os: "open_session d crypto h sh = ((h1, sh1), q)" by (metis prod.exhaust)
      then show ?thesis
      proof (cases rule: open_session_cases)
        case (panic e)
        then show ?thesis using assms Some Inr True os denied by (simp add: auth_defs)
      next
        case (ok token)
        then have "h' = h1" "same_but_chan (hc_conn h) sh1 sh'"
          using assms Some Inr True os
          by (auto simp: auth_defs split: prod.splits dest: send_encrypted_frame)
        then show ?thesis using ok Some stored by (intro opened) simp_all
      qed
    qed
  qed
qed

lemma on_key_exchange_cases:
  assumes "on_key_exchange L d key h sh = ((h', sh'), r)"
  shows "same_but_chan (hc_conn h) sh sh' \<and>
    (h' = h \<and> r \<noteq> Inr () \<or>
     r = Inr () \<and> length key = 32 \<and> h' = h\<lparr>hc_crypto_session := Some
       \<lparr>cs_cipher = cl_sha256 (lb_crypto L) (cl_dh (lb_crypto L) (dr_secret d) key)\<rparr>\<rparr>)"
  using assms
  by (auto simp: on_key_exchange_def Let_def and_then_def public_key_of_slice_def
      compute_shared_secret_def KeyExchange_new_def
      split: sum.splits prod.splits if_splits dest: chan_send_frame)

lemma replay_frame:
  assumes "replay L act h sh = ((h', sh'), r)"
  shows "h' = h" "sh_sessions sh' = sh_sessions sh" "sh_access_code sh' = sh_access_code sh"
    "sh_chans sh' = sh_chans sh"
  using assms by (auto simp: replay_def and_then_def split: sum.splits prod.splits)

lemma put_controller_frame [simp]:
  "sh_access_code (put_controller i ctl sh) = sh_access_code sh"
  "sh_chans (put_controller i ctl sh) = sh_chans sh"
  "sh_input (put_controller i ctl sh) = sh_input sh"
  by (simp_all add: put_controller_def)

lemmas input_defs = handle_mouse_move_def handle_mouse_click_def handle_key_event_def

lemma go_on_state: "go_on sr = (s, r) \<Longrightarrow> \<exists>u. sr = (s, u)"
  by (auto simp: go_on_def and_then_def split: prod.splits sum.splits)

text \<open>The arms of the \<open>match\<close>.\<close>

lemma handle_message_cases:
  assumes "handle_message L d m h sh = ((h', sh'), r)"
  obtains (auth) code u where "m = Msg_AuthRequest code" "on_auth_request L d code h sh = ((h', sh'), u)"
  | (key) key u where "on_key_exchange L d key h sh = ((h', sh'), u)"
  | (start) u where "on_start_stream L d h sh = ((h', sh'), u)"
  | (input) act u where "replay L act h sh = ((h', sh'), u)"
  | (ack) t t' u where "on_frame_ack d t t' h sh = ((h', sh'), u)"
  | (mode) q u where "on_request_quality L d q h sh = ((h', sh'), u)"
  | (none) "h' = h" "sh' = sh"
proof -
  have "(\<exists>code u. m = Msg_AuthRequest code \<and> on_auth_request L d code h sh = ((h', sh'), u))
    \<or> (\<exists>key u. on_key_exchange L d key h sh = ((h', sh'), u))
    \<or> (\<exists>u. on_start_stream L d h sh = ((h', sh'), u))
    \<or> (\<exists>act u. replay L act h sh = ((h', sh'), u))
    \<or> (\<exists>t t' u. on_frame_ack d t t' h sh = ((h', sh'), u))
    \<or> (\<exists>q u. on_request_quality L d q h sh = ((h', sh'), u))
    \<or> h' = h \<and> sh' = sh"
    using assms by (cases m) (auto simp: input_defs dest!: go_on_state)
  then show ?thesis using auth key start input ack mode none by blast
qed

lemma handle_message_frame:
  assumes "handle_message L d m h sh = ((h', sh'), r)"
  shows "handler_frame h sh h' sh'"
  using assms
proof (cases rule: handle_message_cases)
  case (auth code u)
  from auth(2) show ?thesis
    by (cases rule: on_auth_request_cases) (auto simp: handler_frame_def same_but_chan_def)
next
  case (key key u)
  then show ?thesis
    using on_key_exchange_cases [OF key] by (auto simp: handler_frame_def same_but_chan_def)
next
  case (start u)
  then show ?thesis
    by (auto simp: on_start_stream_def Let_def split: option.splits prod.splits
        intro!: handler_frameI dest: send_encrypted_frame)
next
  case (input act u)
  then show ?thesis using replay_frame [OF input] by (simp add: handler_frame_def)
next
  case (ack t t' u)
  then show ?thesis
    by (auto simp: on_frame_ack_def Let_def handler_frame_def split: option.splits prod.splits)
next
  case (mode q u)
  then show ?thesis
    by (auto simp: on_request_quality_def Let_def handler_frame_def same_but_chan_def
        split: option.splits prod.splits dest!: send_encrypted_frame)
qed (simp add: handler_frame_def)

text \<open>The two halves of such an arm make up the arm.\<close>

lemma prepare_handle:
  "prepare L d m h sh = Some r \<Longrightarrow> handle_message L d m h sh = go_on (send_reply L (dr_nonce d) r)"
  by (cases m) (auto simp: on_auth_request_def on_start_stream_def send_reply_def Let_def)

lemma prepare_cases:
  assumes "prepare L d m h sh = Some ((h', sh'), r)"
  obtains (same) "h' = h" "sh' = sh"
  | (opened) code crypto stored token
    where "m = Msg_AuthRequest code" "hc_crypto_session h = Some crypto" "sh_access_code sh = Some stored"
      "AccessCode_verify (cl_sha256 (lb_crypto L)) stored (dr_clock d 0) code = Inr True"
      "h' = h\<lparr>hc_session_id := Some (dr_uuid d)\<rparr>"
      "sh' = sh\<lparr>sh_sessions := (sh_sessions sh)(dr_uuid d \<mapsto> new_session d token crypto (hc_conn h))\<rparr>"
proof (cases m)
  case (Msg_AuthRequest code)
  then have ad: "admit L d code h sh = ((h', sh'), r)" using assms by simp
  show ?thesis
  proof (cases "\<exists>crypto resp. hc_crypto_session h = Some crypto
      \<and> handle_auth L (dr_clock d 0) code (sh_access_code sh) = Inr resp \<and> aresp_success resp")
    case True
    then obtain crypto resp where k: "hc_crypto_session h = Some crypto"
      "handle_auth L (dr_clock d 0) code (sh_access_code sh) = Inr resp" "aresp_success resp" by blast
    obtain stored where stored: "sh_access_code sh = Some stored"
      "AccessCode_verify (cl_sha256 (lb_crypto L)) stored (dr_clock d 0) code = Inr True"
      using k by (auto simp: handle_auth_def Let_def try_bind_Inr_iff split: option.splits if_splits)
    obtain h1 sh1 q where os: "open_session d crypto h sh = ((h1, sh1), q)" by (metis prod.exhaust)
    then have hs: "h' = h1" "sh' = sh1" using ad k by (cases q; simp add: admit_def)+
    from os show ?thesis
      by (cases rule: open_session_cases) (use hs k stored Msg_AuthRequest same opened in simp_all)
  next
    case False
    then show ?thesis using ad same
      by (cases "hc_crypto_session h"; cases "handle_auth L (dr_clock d 0) code (sh_access_code sh)")
        (auto simp: admit_def)
  qed
qed (use assms same in auto)

text \<open>What the task of a connection does to the server when it handles a message, whole or up to its
  answer.\<close>

definition handles ::
  "libs \<Rightarrow> draws \<Rightarrow> Message \<Rightarrow> Handler \<Rightarrow> Shared \<Rightarrow> Handler \<Rightarrow> Shared \<Rightarrow> bool" where
  "handles L d m h sh h' sh' \<longleftrightarrow>
     (\<exists>r. handle_message L d m h sh = ((h', sh'), r)) \<or> (\<exists>r. prepare L d m h sh = Some ((h', sh'), r))"

lemma handlesI:
  "handle_message L d m h sh = ((h', sh'), r) \<Longrightarrow> handles L d m h sh h' sh'"
  "prepare L d m h sh = Some ((h', sh'), p) \<Longrightarrow> handles L d m h sh h' sh'"
  by (auto simp: handles_def)

lemma handles_frame:
  assumes "handles L d m h sh h' sh'"
  shows "handler_frame h sh h' sh'"
proof -
  have "handler_frame h sh h' sh'" if "prepare L d m h sh = Some ((h', sh'), r)" for r
    using that by (cases rule: prepare_cases) (simp_all add: handler_frame_def)
  then show ?thesis using assms handle_message_frame unfolding handles_def by blast
qed

lemma handle_payload_frame:
  assumes "handle_payload L d p h sh = ((h', sh'), r)"
  shows "handler_frame h sh h' sh'"
  using assms handle_message_frame
  by (auto simp: handle_payload_def and_then_def handler_frame_def split: sum.splits)

lemma buffer_step_progress:
  assumes "buffer_step L env h sh = Some ((h', sh'), r)"
  shows "length (hc_buffer h') < length (hc_buffer h)"
proof -
  obtain p rest where nf: "next_frame (hc_buffer h) = Some (p, rest)"
    and hp: "handle_payload L (env (hc_msgs h)) p
      (h\<lparr>hc_buffer := rest, hc_msgs := Suc (hc_msgs h)\<rparr>) sh = ((h', sh'), r)"
    using assms by (auto simp: buffer_step_def split: option.splits)
  have "hc_buffer h' = rest" using handle_payload_frame [OF hp] by (simp add: handler_frame_def)
  then show ?thesis using tcp.nx_progress [OF nf] by simp
qed

section \<open>The task of a client\<close>

text \<open>The inner loop. Every turn consumes at least the four bytes of a length prefix.\<close>

function drain_buffer ::
  "libs \<Rightarrow> (nat \<Rightarrow> draws) \<Rightarrow> Handler \<Rightarrow> Shared \<Rightarrow> (Handler \<times> Shared) \<times> unit result" where
  "drain_buffer L env h sh =
     (case buffer_step L env h sh of
        None \<Rightarrow> ((h, sh), Inr ())
      | Some ((h', sh'), Inl e) \<Rightarrow> ((h', sh'), Inl e)
      | Some ((h', sh'), Inr Break) \<Rightarrow> ((h', sh'), Inr ())
      | Some ((h', sh'), Inr Next) \<Rightarrow> drain_buffer L env h' sh')"
  by pat_completeness auto
termination
  by (relation "measure (\<lambda>(L, env, h, sh). length (hc_buffer h))") (auto dest: buffer_step_progress)

declare drain_buffer.simps [simp del]

text \<open>What one \<open>read_buf\<close> gives: bytes (none at the end of the stream) or an error.\<close>

datatype read_result = Data bytes | ReadError string

text \<open>The outer loop over a finite script of reads; \<open>None\<close>: the task waits for the next read.\<close>

fun client_loop ::
  "libs \<Rightarrow> (nat \<Rightarrow> draws) \<Rightarrow> read_result list \<Rightarrow> Handler \<Rightarrow> Shared \<Rightarrow>
   (Handler \<times> Shared) \<times> unit result option" where
  "client_loop L env [] h sh = ((h, sh), None)"
| "client_loop L env (ReadError e # rs) h sh = ((h, sh), Some (Inl (External e)))"
| "client_loop L env (Data bs # rs) h sh =
     (if bs = [] then ((h, sh), Some (Inr ()))
      else case drain_buffer L env (h\<lparr>hc_buffer := hc_buffer h @ bs\<rparr>) sh of
             ((h', sh'), Inl e) \<Rightarrow> ((h', sh'), Some (Inl e))
           | ((h', sh'), Inr _) \<Rightarrow> client_loop L env rs h' sh')"

text \<open>The code after the loop: the session is removed, the writer task aborted. The abort may come while
  the writer is in the middle of a packet; the part that has been written by then is chosen by the rule
  \<open>eof\<close> of the system's step relation.\<close>

definition cleanup :: "Handler \<Rightarrow> Shared \<Rightarrow> Shared" where
  "cleanup h sh =
     (let sh1 = (case hc_session_id h of
                   None \<Rightarrow> sh
                 | Some i \<Rightarrow> sh\<lparr>sh_sessions := (sh_sessions sh)(i := None)\<rparr>)
      in sh1\<lparr>sh_chans := (sh_chans sh1)(hc_conn h := \<lparr>ch_queue = [], ch_open = False\<rparr>)\<rparr>)"

definition handle_client ::
  "libs \<Rightarrow> (nat \<Rightarrow> draws) \<Rightarrow> nat \<Rightarrow> read_result list \<Rightarrow> Shared \<Rightarrow> Shared \<times> unit result option" where
  "handle_client L env c reads sh =
     (case accept_client c sh of
        (h, sh1) \<Rightarrow>
          (case client_loop L env reads h sh1 of
             ((h', sh'), Some (Inr _)) \<Rightarrow> (cleanup h' sh', Some (Inr ()))
           | ((h', sh'), r) \<Rightarrow> (sh', r)))"

text \<open>One turn of the writer task: the receiver goes away when a write fails.\<close>

definition writer_step :: "nat \<Rightarrow> Writer \<Rightarrow> Shared \<Rightarrow> Writer \<times> Shared" where
  "writer_step c w sh =
     (case ch_queue (sh_chans sh c) of
        [] \<Rightarrow> (w, sh)
      | data # rest \<Rightarrow>
          (case send_message w data of
             (w', Inr _) \<Rightarrow>
               (w', sh\<lparr>sh_chans := (sh_chans sh)(c := (sh_chans sh c)\<lparr>ch_queue := rest\<rparr>)\<rparr>)
           | (w', Inl _) \<Rightarrow>
               (w', sh\<lparr>sh_chans := (sh_chans sh)(c := \<lparr>ch_queue = [], ch_open = False\<rparr>)\<rparr>)))"

section \<open>Streaming frames\<close>

fun frame_message :: "CapturedFrame \<Rightarrow> Message option" where
  "frame_message f =
     (case cf_frame_type f of
        KeyFrame \<Rightarrow>
          Some (Msg_ScreenFrame (cf_timestamp f) (cf_width f) (cf_height f) (cf_data f) (cf_encoding f))
      | DeltaFrame \<Rightarrow>
          (case cf_tiles f of
             Some tiles \<Rightarrow> Some (Msg_DeltaFrame (cf_timestamp f) tiles)
           | None \<Rightarrow> None))"

declare frame_message.simps [simp del]

definition target_interval :: "QualityMode \<Rightarrow> Duration" where
  "target_interval quality = from_millis (1000 div ucast (target_fps quality))"

text \<open>The body of the loop over the sessions, for one of them.\<close>

definition serve_session ::
  "libs \<Rightarrow> draws \<Rightarrow> CapturedFrame \<Rightarrow> ClientSession \<Rightarrow> Shared \<Rightarrow> ClientSession \<times> Shared" where
  "serve_session L d frame session sh =
     (let (ctl, quality) = get_recommended_quality (dr_now d 0) (dr_now d 1)
                             (sess_quality_controller session);
          now = dr_now d 2;
          frame_time = duration_since now (sess_last_frame_time session);
          session1 = session\<lparr>sess_quality_controller := ctl, sess_last_frame_time := now\<rparr>
      in if frame_time < target_interval quality then (session1, sh)
         else case frame_message frame of
                None \<Rightarrow> (session1, sh)
              | Some message \<Rightarrow>
                  (case Message_serialize (lb_bincode L) message of
                     Inl _ \<Rightarrow> (session1, sh)
                   | Inr serialized \<Rightarrow>
                       (case encrypt (lb_crypto L) (sess_crypto session) (dr_nonce d) serialized of
                          Inl _ \<Rightarrow> (session1, sh)
                        | Inr encrypted \<Rightarrow>
                            (session1\<lparr>sess_quality_controller :=
                               update_metrics (dr_now d 3) (dr_now d 4) ctl
                                 (word_of_nat (length encrypted)) frame_time\<rparr>,
                             fst (chan_send (sess_tx session) encrypted sh)))))"

text \<open>One received frame: all sessions in the order \<open>ids\<close> in which the hash map yields them.\<close>

definition serve_one ::
  "libs \<Rightarrow> (string \<Rightarrow> draws) \<Rightarrow> CapturedFrame \<Rightarrow> string \<Rightarrow> Shared \<Rightarrow> Shared" where
  "serve_one L env frame i sh =
     (case sh_sessions sh i of
        None \<Rightarrow> sh
      | Some session \<Rightarrow>
          (case serve_session L (env i) frame session sh of
             (session', sh') \<Rightarrow> sh'\<lparr>sh_sessions := (sh_sessions sh')(i \<mapsto> session')\<rparr>))"

definition serve_frame ::
  "libs \<Rightarrow> (string \<Rightarrow> draws) \<Rightarrow> CapturedFrame \<Rightarrow> string list \<Rightarrow> Shared \<Rightarrow> Shared" where
  "serve_frame L env frame ids sh = fold (serve_one L env frame) ids sh"

section \<open>Lemmas on the task and the frame loop\<close>

lemma drain_buffer_idle:
  "next_frame (hc_buffer h) = None \<Longrightarrow> drain_buffer L env h sh = ((h, sh), Inr ())"
  by (subst drain_buffer.simps) (simp add: buffer_step_def)

lemma next_frame_Nil [simp]: "next_frame [] = None"
  by (simp add: next_frame_def)

lemma open_sealed:
  assumes "codec_correct (lb_bincode L)" "aead_correct (lb_crypto L)" "length nonce = 12"
    and "seal_message L nonce m c = Inr data"
  shows "open_payload L c data = Inr m"
proof -
  obtain ser where ser: "Message_serialize (lb_bincode L) m = Inr ser"
    and d: "(case c of Some k \<Rightarrow> encrypt (lb_crypto L) k nonce ser | None \<Rightarrow> Inr ser) = Inr data"
    using assms(4) by (auto simp: seal_message_def try_bind_Inr_iff)
  then show ?thesis
    using deserialize_serialize [OF assms(1) ser] decrypt_encrypt [OF assms(2,3)]
    by (auto simp: open_payload_def split: option.splits)
qed

lemma serve_session_early:
  assumes "qc_forced_quality (sess_quality_controller s) = Some q"
    and "duration_since (dr_now d 2) (sess_last_frame_time s) < target_interval q"
  shows "serve_session L d f s sh = (s\<lparr>sess_last_frame_time := dr_now d 2\<rparr>, sh)"
  using assms by (simp add: serve_session_def forced_recommend Let_def)

lemma serve_session_no_message:
  "frame_message f = None \<Longrightarrow> snd (serve_session L d f s sh) = sh"
  by (auto simp: serve_session_def Let_def split: prod.split)

section \<open>Properties\<close>

text \<open>A library for the witnesses.\<close>

definition demo_libs :: "Message list \<Rightarrow> libs" where
  "demo_libs ms =
     \<lparr>lb_crypto = demo_lib, lb_bincode = table_bincode ms, lb_enigo_new = None, lb_enigo = (\<lambda>_. None)\<rparr>"

definition demo_draws :: "nat \<Rightarrow> draws" where
  "demo_draws t =
     \<lparr>dr_clock = (\<lambda>_. 0), dr_now = (\<lambda>_. t), dr_nonce = replicate 12 0, dr_secret = [1],
      dr_uuid = ''a'', dr_alnum = (\<lambda>_. 65)\<rparr>"

definition demo_handler :: Handler where
  "demo_handler =
     \<lparr>hc_conn = 0, hc_buffer = [], hc_crypto_session = None, hc_session_id = None, hc_msgs = 0\<rparr>"

text \<open>C32: The server replays input without authentication: a mouse click sent in the clear by a
  connection that has neither exchanged keys nor authenticated moves the pointer and presses the
  button.\<close>

theorem input_needs_no_authentication:
  assumes "codec_correct (lb_bincode L)" "lb_enigo_new L = None" "\<And>c. lb_enigo L c = None"
    and "Message_serialize (lb_bincode L) (Msg_MouseClick button pressed x y) = Inr data"
    and "hc_crypto_session h = None" "hc_session_id h = None"
  shows "handle_payload L d data h sh =
    ((h, sh\<lparr>sh_input := sh_input sh
        @ [MoveMouseAbs x y, ButtonEvent (enigo_button button) (direction_of pressed)]\<rparr>), Inr Next)"
  using assms deserialize_serialize [OF assms(1,4)]
  by (simp add: handle_payload_def open_payload_def go_on_def handle_mouse_click_def replay_def
      InputHandler_new_def mouse_click_def run_calls_ok)

theorem input_needs_no_authentication_witness:
  "sh_input (snd (fst (handle_payload (demo_libs [Msg_MouseClick Left True 3 4]) (demo_draws 0) [0]
       demo_handler (Server_new None))))
   = [MoveMouseAbs 3 4, ButtonEvent EB_Left Press]"
proof -
  let ?L = "demo_libs [Msg_MouseClick Left True 3 4]"
  have "Message_serialize (lb_bincode ?L) (Msg_MouseClick Left True 3 4) = Inr [0]"
    by (simp add: demo_libs_def table_bincode_def Message_serialize_def)
  then show ?thesis
    using input_needs_no_authentication [of ?L Left True 3 4 "[0]" demo_handler "demo_draws 0" "Server_new None"]
    by (simp add: demo_libs_def demo_handler_def table_bincode_correct Server_new_def direction_of_def)
qed

text \<open>Authentication before the key exchange ends the task with an error and changes nothing.\<close>

theorem authentication_needs_key_exchange:
  assumes "hc_crypto_session h = None"
  shows "handle_message L d (Msg_AuthRequest code) h sh =
    ((h, sh), Inl (Anyhow ''Key exchange must happen before authentication''))"
  using assms by (simp add: go_on_def auth_defs)

theorem authentication_needs_key_exchange_witness:
  "handle_message (demo_libs []) (demo_draws 0) (Msg_AuthRequest ''123456'') demo_handler (Server_new None) =
    ((demo_handler, Server_new None), Inl (Anyhow ''Key exchange must happen before authentication''))"
  by (rule authentication_needs_key_exchange) (simp add: demo_handler_def)

text \<open>The message \<open>Disconnect\<close> does not end a task: the \<open>break\<close> leaves the inner loop only, and
  the task goes on with the next read, its session untouched.\<close>

theorem disconnect_keeps_the_task:
  assumes "hc_buffer h = []" "p \<noteq> []" "length p < 2 ^ 32"
    and "open_payload L (hc_crypto_session h) p = Inr Msg_Disconnect"
  shows "client_loop L env (Data (frame_of p) # rs) h sh =
    client_loop L env rs (h\<lparr>hc_msgs := Suc (hc_msgs h)\<rparr>) sh"
proof -
  have "next_frame (frame_of p) = Some (p, [])"
    using next_frame_frame_of [of p "[]"] assms(3) by (simp add: fits_u32_def)
  then have "buffer_step L env (h\<lparr>hc_buffer := frame_of p\<rparr>) sh
      = Some ((h\<lparr>hc_buffer := [], hc_msgs := Suc (hc_msgs h)\<rparr>, sh), Inr Break)"
    using assms(4) by (simp add: buffer_step_def handle_payload_def)
  then have "drain_buffer L env (h\<lparr>hc_buffer := frame_of p\<rparr>) sh
      = ((h\<lparr>hc_buffer := [], hc_msgs := Suc (hc_msgs h)\<rparr>, sh), Inr ())"
    by (subst drain_buffer.simps) simp
  moreover have "frame_of p \<noteq> []" using assms(2) by (simp add: frame_of_def)
  moreover have "h\<lparr>hc_buffer := [], hc_msgs := Suc (hc_msgs h)\<rparr> = h\<lparr>hc_msgs := Suc (hc_msgs h)\<rparr>"
    using assms(1) by (cases h) simp
  ultimately show ?thesis using assms(1) by simp
qed

theorem disconnect_keeps_the_task_witness:
  "client_loop (demo_libs [Msg_Disconnect, Msg_MouseMove 5 6]) (\<lambda>_. demo_draws 0)
     [Data (frame_of [0])] demo_handler (Server_new None)
   = ((demo_handler\<lparr>hc_msgs := 1\<rparr>, Server_new None), None)"
  using disconnect_keeps_the_task [of demo_handler "[0]" "demo_libs [Msg_Disconnect, Msg_MouseMove 5 6]"
      "\<lambda>_. demo_draws 0" "[]" "Server_new None"]
  by (simp add: demo_handler_def open_payload_def demo_libs_def table_bincode_def Message_deserialize_def)

text \<open>A session that is offered frames one after the other.\<close>

fun serve_many ::
  "libs \<Rightarrow> (draws \<times> CapturedFrame) list \<Rightarrow> ClientSession \<Rightarrow> Shared \<Rightarrow> ClientSession \<times> Shared" where
  "serve_many L [] s sh = (s, sh)"
| "serve_many L ((d, f) # dfs) s sh =
     (case serve_session L d f s sh of (s', sh') \<Rightarrow> serve_many L dfs s' sh')"

text \<open>Consecutive instants, the first one after \<open>t\<close>, are less than \<open>d\<close> apart.\<close>

fun closer :: "Duration \<Rightarrow> Instant \<Rightarrow> Instant list \<Rightarrow> bool" where
  "closer d t [] \<longleftrightarrow> True"
| "closer d t (u # us) \<longleftrightarrow> u - t < d \<and> closer d u us"

text \<open>C33: The time of the last frame is overwritten before the test whether the frame is due. A client
  that forced a mode therefore receives nothing at all while frames arrive faster than the mode
  asks for (at 30 frames per second: \<open>Low\<close> and \<open>Minimal\<close>).\<close>

theorem fast_frames_starve_slow_mode:
  assumes "qc_forced_quality (sess_quality_controller s) = Some q"
    and "closer (target_interval q) (sess_last_frame_time s) (map (\<lambda>(d, f). dr_now d 2) dfs)"
  shows "snd (serve_many L dfs s sh) = sh"
  using assms
proof (induction dfs arbitrary: s)
  case (Cons a dfs)
  obtain d f where a: "a = (d, f)" by force
  have "serve_session L d f s sh = (s\<lparr>sess_last_frame_time := dr_now d 2\<rparr>, sh)"
    using serve_session_early [OF Cons.prems(1)] Cons.prems(2) a by (simp add: duration_since_def)
  then show ?case using Cons.IH [of "s\<lparr>sess_last_frame_time := dr_now d 2\<rparr>"] Cons.prems a by simp
qed simp

definition demo_session :: "QualityMode \<Rightarrow> ClientSession" where
  "demo_session q =
     \<lparr>sess_id = ''a'', sess_token = \<lparr>tok_token = ''t'', tok_created_at = 0, tok_expires_at = 1\<rparr>,
      sess_crypto = \<lparr>cs_cipher = [7]\<rparr>, sess_tx = 0,
      sess_quality_controller = force_quality (AdaptiveQualityController_new 0 0) (Some q),
      sess_last_frame_time = 0\<rparr>"

definition demo_frame :: CapturedFrame where
  "demo_frame =
     \<lparr>cf_width = 1, cf_height = 1, cf_data = [1, 2, 3], cf_timestamp = 0, cf_frame_type = KeyFrame,
      cf_tiles = None, cf_encoding = Raw\<rparr>"

theorem fast_frames_starve_slow_mode_witness:
  "snd (serve_many (demo_libs [Msg_ScreenFrame 0 1 1 [1, 2, 3] Raw])
     [(demo_draws 33000000, demo_frame), (demo_draws 66000000, demo_frame), (demo_draws 99000000, demo_frame)]
     (demo_session Low) (Server_new None)) = Server_new None"
proof (rule fast_frames_starve_slow_mode)
  show "qc_forced_quality (sess_quality_controller (demo_session Low)) = Some Low"
    by (simp add: demo_session_def force_quality_def Let_def)
qed (simp add: demo_session_def demo_draws_def target_interval_def from_millis_def)

lemma due_frame_queued:
  assumes "codec_correct (lb_bincode L)" "aead_correct (lb_crypto L)" "length (dr_nonce d) = 12"
    and "get_recommended_quality (dr_now d 0) (dr_now d 1) (sess_quality_controller s) = (ctl, q)"
    and "target_interval q \<le> dr_now d 2 - sess_last_frame_time s"
    and "frame_message f = Some m" "seal_message L (dr_nonce d) m (Some (sess_crypto s)) = Inr packet"
    and "ch_open (sh_chans sh (sess_tx s))"
  shows "ch_queue (sh_chans (snd (serve_session L d f s sh)) (sess_tx s))
      = ch_queue (sh_chans sh (sess_tx s)) @ [packet]
    \<and> open_payload L (Some (sess_crypto s)) packet = Inr m"
proof -
  obtain ser where ser: "Message_serialize (lb_bincode L) m = Inr ser"
    "encrypt (lb_crypto L) (sess_crypto s) (dr_nonce d) ser = Inr packet"
    using assms(7) by (auto simp: seal_message_def try_bind_Inr_iff)
  have "snd (serve_session L d f s sh) = fst (chan_send (sess_tx s) packet sh)"
    using assms(4-6) ser by (simp add: serve_session_def duration_since_def Let_def)
  then show ?thesis
    using assms(8) open_sealed [OF assms(1-3,7)] by (simp add: chan_send_def Let_def)
qed

text \<open>A frame that is due reaches the client: one packet is queued on the session's channel, and
  it opens, with the session's key, to the frame's message.\<close>

theorem due_frame_is_sent:
  assumes "codec_correct (lb_bincode L)" "aead_correct (lb_crypto L)" "length (dr_nonce d) = 12"
    and "get_recommended_quality (dr_now d 0) (dr_now d 1) (sess_quality_controller s) = (ctl, q)"
    and "target_interval q \<le> dr_now d 2 - sess_last_frame_time s"
    and "frame_message f = Some m" "seal_message L (dr_nonce d) m (Some (sess_crypto s)) = Inr packet"
    and "ch_open (sh_chans sh (sess_tx s))"
  shows "ch_queue (sh_chans (snd (serve_session L d f s sh)) (sess_tx s))
      = ch_queue (sh_chans sh (sess_tx s)) @ [packet]
    \<and> open_payload L (Some (sess_crypto s)) packet = Inr m"
  using assms by (rule due_frame_queued)

theorem due_frame_is_sent_witness:
  "ch_queue (sh_chans (snd (serve_session (demo_libs [Msg_ScreenFrame 0 1 1 [1, 2, 3] Raw])
       (demo_draws 70000000) demo_frame (demo_session Low) (snd (accept_client 0 (Server_new None))))) 0)
   = [replicate 12 0 @ [0, 7]]"
proof -
  let ?L = "demo_libs [Msg_ScreenFrame 0 1 1 [1, 2, 3] Raw]"
  have q: "get_recommended_quality 70000000 70000000 (sess_quality_controller (demo_session Low))
      = (sess_quality_controller (demo_session Low), Low)"
    by (simp add: demo_session_def forced_recommend force_quality_def Let_def)
  have seal: "seal_message ?L (replicate 12 0) (Msg_ScreenFrame 0 1 1 [1, 2, 3] Raw) (Some \<lparr>cs_cipher = [7]\<rparr>)
      = Inr (replicate 12 0 @ [0, 7])"
    by (simp add: seal_message_def Message_serialize_def demo_libs_def table_bincode_def encrypt_def demo_lib_def)
  show ?thesis
    using due_frame_is_sent [of ?L "demo_draws 70000000" "demo_session Low"
        "sess_quality_controller (demo_session Low)" Low demo_frame "Msg_ScreenFrame 0 1 1 [1, 2, 3] Raw"
        "replicate 12 0 @ [0, 7]" "snd (accept_client 0 (Server_new None))"] q seal
    by (simp add: demo_libs_def table_bincode_correct demo_lib_ok demo_draws_def demo_session_def
        target_interval_def from_millis_def demo_frame_def frame_message.simps accept_client_def Server_new_def)
qed

text \<open>Frames of the hardware encoder that are not key frames are never sent: they are delta
  frames without tiles, which the loop skips for every session.\<close>

theorem hardware_delta_frames_dropped:
  assumes "\<not> ef_is_keyframe ef"
  shows "sh_chans (serve_frame L env (hardware_frame sc ef) ids sh) = sh_chans sh"
proof -
  have "frame_message (hardware_frame sc ef) = None"
    using assms by (simp add: frame_message.simps hardware_frame_def)
  then have "sh_chans (serve_one L env (hardware_frame sc ef) i sh) = sh_chans sh" for i sh
    using serve_session_no_message [of "hardware_frame sc ef" L "env i"]
    by (auto simp: serve_one_def split: option.split prod.split) (metis snd_conv)
  then show ?thesis unfolding serve_frame_def by (induction ids arbitrary: sh) simp_all
qed

theorem hardware_delta_frames_dropped_witness:
  "sh_chans (serve_frame (demo_libs []) (\<lambda>_. demo_draws 70000000)
     (hardware_frame \<lparr>sc_width = 1, sc_height = 1, sc_last_frame_time = 0, sc_frame_interval = 33,
        sc_quality_mode = High, sc_frame_processor = FrameProcessor_new 1 1, sc_frame_count = 0,
        sc_video_encoder = (None :: unit dyn_encoder option), sc_use_hardware_encoding = True\<rparr>
       \<lparr>ef_data = [1], ef_is_keyframe = False, ef_timestamp = 0\<rparr>)
     [''a''] ((Server_new None)\<lparr>sh_sessions := [''a'' \<mapsto> demo_session High]\<rparr>))
   = sh_chans ((Server_new None)\<lparr>sh_sessions := [''a'' \<mapsto> demo_session High]\<rparr>)"
  by (rule hardware_delta_frames_dropped) simp

end
