(* ===== verification/Transition_Systems.thy ===== *)
theory Transition_Systems
  imports Main
begin

text \<open>
  Runs of a labelled step relation, and the proof principles the system theories use: a
  predicate on the trace and the state that every step keeps (\<open>trace_invariant\<close>), and a step
  relation that is matched step by step by a more abstract one with the same labels
  (\<open>trace_simulation\<close>). A third locale, \<open>isolation\<close>, is for systems with several parties: events
  that do not concern a party leave its view of the state as it is.
\<close>

inductive run_of :: "('s \<Rightarrow> 'e \<Rightarrow> 's \<Rightarrow> bool) \<Rightarrow> 's \<Rightarrow> 'e list \<Rightarrow> 's \<Rightarrow> bool" for step where
  start: "run_of step s [] s"
| snoc: "run_of step s tr s' \<Longrightarrow> step s' e s'' \<Longrightarrow> run_of step s (tr @ [e]) s''"

inductive_cases run_of_NilE: "run_of step s [] s'"

lemma run_of_snocE:
  assumes "run_of step s (tr @ [e]) s''"
  obtains s' where "run_of step s tr s'" "step s' e s''"
  using assms by (cases rule: run_of.cases) auto

lemma run_of_single: "step s e s' \<Longrightarrow> run_of step s [e] s'"
  using run_of.snoc [OF run_of.start] by fastforce

lemma run_of_append:
  "run_of step s' tr' s'' \<Longrightarrow> run_of step s tr s' \<Longrightarrow> run_of step s (tr @ tr') s''"
proof (induction rule: run_of.induct)
  case (snoc s tr' s' e s'')
  then show ?case using run_of.snoc [of step _ "tr @ tr'"] by simp
qed simp

text \<open>A step relation that is the graph of a function.\<close>

lemma run_of_fun: "run_of (\<lambda>a e a'. a' = f e a) a tr a' \<Longrightarrow> a' = fold f tr a"
  by (induction rule: run_of.induct) simp_all

locale trace_invariant =
  fixes step :: "'s \<Rightarrow> 'e \<Rightarrow> 's \<Rightarrow> bool"
    and inv :: "'e list \<Rightarrow> 's \<Rightarrow> bool"
  assumes inv_step: "inv tr s \<Longrightarrow> step s e s' \<Longrightarrow> inv (tr @ [e]) s'"
begin

lemma inv_run: "run_of step s tr s' \<Longrightarrow> inv [] s \<Longrightarrow> inv tr s'"
  by (induction rule: run_of.induct) (auto intro: inv_step)

end

locale trace_simulation =
  fixes step :: "'s \<Rightarrow> 'e \<Rightarrow> 's \<Rightarrow> bool"
    and spec :: "'a \<Rightarrow> 'e \<Rightarrow> 'a \<Rightarrow> bool"
    and sim :: "'s \<Rightarrow> 'a \<Rightarrow> bool"
    and initial :: 'a
  assumes sim_step: "sim s a \<Longrightarrow> step s e s' \<Longrightarrow> \<exists>a'. spec a e a' \<and> sim s' a'"

sublocale trace_simulation \<subseteq> reached: trace_invariant step
  "\<lambda>tr s. \<exists>a. run_of spec initial tr a \<and> sim s a"
proof
  fix tr s e s'
  assume "\<exists>a. run_of spec initial tr a \<and> sim s a" "step s e s'"
  then show "\<exists>a. run_of spec initial (tr @ [e]) a \<and> sim s' a"
    using sim_step run_of.snoc by metis
qed

context trace_simulation
begin

lemma matched_run:
  assumes "run_of step s tr s'" "sim s initial"
  obtains a where "run_of spec initial tr a" "sim s' a"
proof -
  have "run_of spec initial [] initial" by (rule run_of.start)
  then have "\<exists>a. run_of spec initial [] a \<and> sim s a" using assms(2) by blast
  then have "\<exists>a. run_of spec initial tr a \<and> sim s' a" by (rule reached.inv_run [OF assms(1)])
  then show ?thesis using that by blast
qed

end

text \<open>
  Isolation of the parties of a system: each has a view of the state, and an event either concerns
  a party or keeps its view. The laws may rely on an invariant and on traces being admissible, a
  property that all prefixes of an admissible trace have.
\<close>

locale isolation =
  fixes step :: "'s \<Rightarrow> 'e \<Rightarrow> 's \<Rightarrow> bool"
    and inv :: "'e list \<Rightarrow> 's \<Rightarrow> bool"
    and admissible :: "'e list \<Rightarrow> bool"
    and concerns :: "'p \<Rightarrow> 'e \<Rightarrow> bool"
    and view :: "'p \<Rightarrow> 's \<Rightarrow> 'v"
  assumes admissible_prefix: "admissible (tr @ [e]) \<Longrightarrow> admissible tr"
    and keeps: "inv tr s \<Longrightarrow> step s e s' \<Longrightarrow> admissible (tr @ [e]) \<Longrightarrow> inv (tr @ [e]) s'"
    and respects: "inv tr s \<Longrightarrow> step s e s' \<Longrightarrow> admissible (tr @ [e]) \<Longrightarrow> \<not> concerns p e \<Longrightarrow>
      view p s' = view p s"

sublocale isolation \<subseteq> guarded: trace_invariant step "\<lambda>tr s. admissible tr \<longrightarrow> inv tr s"
  by unfold_locales (auto intro: keeps dest: admissible_prefix)

context isolation
begin

lemma isolated_run:
  assumes "run_of step s tr' s'" "run_of step s0 tr s" "inv [] s0" "admissible (tr @ tr')"
    and "\<And>e. e \<in> set tr' \<Longrightarrow> \<not> concerns p e"
  shows "view p s' = view p s"
  using assms
proof (induction rule: run_of.induct)
  case (snoc s tr' s' e s'')
  have adm: "admissible (tr @ tr')" using snoc.prems(3) admissible_prefix [of "tr @ tr'" e] by simp
  have "run_of step s0 (tr @ tr') s'" by (rule run_of_append [OF snoc.hyps(1) snoc.prems(1)])
  then have "inv (tr @ tr') s'" using guarded.inv_run adm snoc.prems(2) by blast
  then have "view p s'' = view p s'" using respects [OF _ snoc.hyps(2)] snoc.prems(3,4) by simp
  then show ?case using snoc adm by simp
qed simp

end

end
