(* ===== verification/Server_System.thy ===== *)
theory Server_System
  imports Server Transition_Systems "HOL-Library.Sublist"
begin

text \<open>
  The server as a whole: \<open>Server::run\<close> of \<open>src/server/server.rs\<close> accepts connections and runs one
  \<open>handle_client\<close> task and one writer task per connection next to the capture loop. A system state
  has the shared state, the running tasks (with a flag that says whether the task is in its inner
  loop), the answers that tasks have decided on and not yet queued (with the nonce they will be sealed
  with) and the outgoing streams; \<open>sys_step\<close> interleaves the tasks, one read, one message, one answer,
  one queued packet or one captured frame at a time. \<open>sys_run\<close> records the events of an execution.
\<close>

record System =
  sys_shared :: Shared
  sys_tasks :: "nat \<rightharpoonup> Handler \<times> bool"
  sys_pending :: "nat \<rightharpoonup> bytes \<times> Message"
  sys_next :: nat
  sys_out :: "nat \<Rightarrow> Writer"

datatype sys_event =
    Ev_Accept nat
  | Ev_Read nat bytes
  | Ev_Idle nat
  | Ev_Message nat draws Message
  | Ev_Reply nat
  | Ev_Reject nat
  | Ev_Eof nat
  | Ev_ReadError nat
  | Ev_Write nat
  | Ev_Frame CapturedFrame

definition sys_init :: "AccessCode \<Rightarrow> (nat \<Rightarrow> Writer) \<Rightarrow> System" where
  "sys_init ac out =
     \<lparr>sys_shared = Server_new (Some ac), sys_tasks = Map.empty, sys_pending = Map.empty, sys_next = 0,
      sys_out = out\<rparr>"

text \<open>The handler of a task that has taken the next frame from its buffer.\<close>

definition taken :: "Handler \<Rightarrow> bytes \<Rightarrow> Handler" where
  "taken h rest = h\<lparr>hc_buffer := rest, hc_msgs := Suc (hc_msgs h)\<rparr>"

text \<open>
  The rule \<open>message\<close> handles a message whole. Where the code lets go of its locks before it answers, the
  rule \<open>prepared\<close> stops there, and the task's next step is its answer (\<open>replied\<close>, or \<open>reply_failed\<close> when
  the channel is closed); anything else may happen in between. Handling such a message whole is the
  schedule in which nothing does. A nonce has the twelve bytes of its type. At the end of a stream the
  writer is aborted: of the packet it is working on, some first bytes \<open>part\<close> may have gone out.
\<close>

inductive sys_step :: "libs \<Rightarrow> System \<Rightarrow> sys_event \<Rightarrow> System \<Rightarrow> bool" for L where
  accept:
    "c = sys_next s \<Longrightarrow> accept_client c (sys_shared s) = (h, sh) \<Longrightarrow>
     sys_step L s (Ev_Accept c)
       (s\<lparr>sys_shared := sh, sys_tasks := (sys_tasks s)(c \<mapsto> (h, False)), sys_next := Suc c\<rparr>)"
| read:
    "sys_tasks s c = Some (h, False) \<Longrightarrow> bs \<noteq> [] \<Longrightarrow>
     sys_step L s (Ev_Read c bs)
       (s\<lparr>sys_tasks := (sys_tasks s)(c \<mapsto> (h\<lparr>hc_buffer := hc_buffer h @ bs\<rparr>, True))\<rparr>)"
| idle:
    "sys_tasks s c = Some (h, True) \<Longrightarrow> next_frame (hc_buffer h) = None \<Longrightarrow> sys_pending s c = None \<Longrightarrow>
     sys_step L s (Ev_Idle c) (s\<lparr>sys_tasks := (sys_tasks s)(c \<mapsto> (h, False))\<rparr>)"
| message:
    "sys_tasks s c = Some (h, True) \<Longrightarrow> next_frame (hc_buffer h) = Some (p, rest) \<Longrightarrow>
     open_payload L (hc_crypto_session h) p = Inr m \<Longrightarrow>
     handle_message L d m (taken h rest) (sys_shared s) = ((h', sh'), Inr f) \<Longrightarrow>
     sys_pending s c = None \<Longrightarrow> length (dr_nonce d) = 12 \<Longrightarrow>
     sys_step L s (Ev_Message c d m)
       (s\<lparr>sys_shared := sh', sys_tasks := (sys_tasks s)(c \<mapsto> (h', f = Next))\<rparr>)"
| failed:
    "sys_tasks s c = Some (h, True) \<Longrightarrow> next_frame (hc_buffer h) = Some (p, rest) \<Longrightarrow>
     open_payload L (hc_crypto_session h) p = Inr m \<Longrightarrow>
     handle_message L d m (taken h rest) (sys_shared s) = ((h', sh'), Inl e) \<Longrightarrow>
     sys_pending s c = None \<Longrightarrow> length (dr_nonce d) = 12 \<Longrightarrow>
     sys_step L s (Ev_Message c d m)
       (s\<lparr>sys_shared := sh', sys_tasks := (sys_tasks s)(c := None)\<rparr>)"
| prepared:
    "sys_tasks s c = Some (h, True) \<Longrightarrow> next_frame (hc_buffer h) = Some (p, rest) \<Longrightarrow>
     open_payload L (hc_crypto_session h) p = Inr m \<Longrightarrow>
     prepare L d m (taken h rest) (sys_shared s) = Some ((h', sh'), Inr answer) \<Longrightarrow>
     sys_pending s c = None \<Longrightarrow> length (dr_nonce d) = 12 \<Longrightarrow>
     sys_step L s (Ev_Message c d m)
       (s\<lparr>sys_shared := sh', sys_tasks := (sys_tasks s)(c \<mapsto> (h', True)),
          sys_pending := (sys_pending s)(c \<mapsto> (dr_nonce d, answer))\<rparr>)"
| replied:
    "sys_tasks s c = Some (h, True) \<Longrightarrow> sys_pending s c = Some (nonce, answer) \<Longrightarrow>
     send_encrypted L nonce (hc_conn h) answer (hc_crypto_session h) (sys_shared s) = (sh', Inr ()) \<Longrightarrow>
     sys_step L s (Ev_Reply c) (s\<lparr>sys_shared := sh', sys_pending := (sys_pending s)(c := None)\<rparr>)"
| reply_failed:
    "sys_tasks s c = Some (h, True) \<Longrightarrow> sys_pending s c = Some (nonce, answer) \<Longrightarrow>
     send_encrypted L nonce (hc_conn h) answer (hc_crypto_session h) (sys_shared s) = (sh', Inl e) \<Longrightarrow>
     sys_step L s (Ev_Reply c)
       (s\<lparr>sys_shared := sh', sys_tasks := (sys_tasks s)(c := None),
          sys_pending := (sys_pending s)(c := None)\<rparr>)"
| reject:
    "sys_tasks s c = Some (h, True) \<Longrightarrow> next_frame (hc_buffer h) = Some (p, rest) \<Longrightarrow>
     open_payload L (hc_crypto_session h) p = Inl e \<Longrightarrow> sys_pending s c = None \<Longrightarrow>
     sys_step L s (Ev_Reject c) (s\<lparr>sys_tasks := (sys_tasks s)(c := None)\<rparr>)"
| eof:
    "sys_tasks s c = Some (h, False) \<Longrightarrow>
     prefix part (concat (map frame_of (take 1 (ch_queue (sh_chans (sys_shared s) c))))) \<Longrightarrow>
     sys_step L s (Ev_Eof c)
       (s\<lparr>sys_shared := cleanup h (sys_shared s), sys_tasks := (sys_tasks s)(c := None),
          sys_out := (sys_out s)(c := fst (write_all (sys_out s c) part))\<rparr>)"
| read_error:
    "sys_tasks s c = Some (h, False) \<Longrightarrow>
     sys_step L s (Ev_ReadError c) (s\<lparr>sys_tasks := (sys_tasks s)(c := None)\<rparr>)"
| sent:
    "ch_open (sh_chans (sys_shared s) c) \<Longrightarrow>
     writer_step c (sys_out s c) (sys_shared s) = (w, sh) \<Longrightarrow>
     sys_step L s (Ev_Write c) (s\<lparr>sys_shared := sh, sys_out := (sys_out s)(c := w)\<rparr>)"
| frame:
    "distinct ids \<Longrightarrow> set ids = dom (sh_sessions (sys_shared s)) \<Longrightarrow>
     (\<forall>i. length (dr_nonce (env i)) = 12) \<Longrightarrow>
     sys_step L s (Ev_Frame f) (s\<lparr>sys_shared := serve_frame L env f ids (sys_shared s)\<rparr>)"

inductive_cases sys_step_frameE: "sys_step L s (Ev_Frame f) s'"

text \<open>An execution with the events that happened.\<close>

abbreviation sys_run :: "libs \<Rightarrow> System \<Rightarrow> sys_event list \<Rightarrow> System \<Rightarrow> bool" where
  "sys_run L \<equiv> run_of (sys_step L)"

lemmas sys_run_start = run_of.start [where step = "sys_step L" for L]
lemmas sys_run_snoc = run_of.snoc [where step = "sys_step L" for L]

section \<open>Where sessions come from\<close>

lemma handle_message_sessions:
  assumes "handle_message L d m h sh = ((h', sh'), r)" "sh_sessions sh' i = Some s"
  shows "(\<exists>s0. sh_sessions sh i = Some s0 \<and> sess_tx s = sess_tx s0 \<and> sess_crypto s = sess_crypto s0
      \<and> sess_id s = sess_id s0)
    \<or> (\<exists>code stored. m = Msg_AuthRequest code \<and> sess_tx s = hc_conn h \<and> sess_id s = i
         \<and> hc_crypto_session h = Some (sess_crypto s) \<and> sh_access_code sh = Some stored
         \<and> AccessCode_verify (cl_sha256 (lb_crypto L)) stored (dr_clock d 0) code = Inr True)"
proof -
  define old where "old \<longleftrightarrow>
    (\<exists>s0. sh_sessions sh i = Some s0 \<and> sess_tx s = sess_tx s0 \<and> sess_crypto s = sess_crypto s0
      \<and> sess_id s = sess_id s0)"
  have same: old if "sh_sessions sh' = sh_sessions sh" using that assms(2) by (auto simp: old_def)
  have put: old if "sh_sessions sh' = sh_sessions (put_controller j ctl sh)" for j ctl
    using that assms(2) by (auto simp: put_controller_def old_def split: if_splits)
  from assms(1) show ?thesis
  proof (cases rule: handle_message_cases)
    case (auth code u)
    from auth(2) show ?thesis
    proof (cases rule: on_auth_request_cases)
      case denied
      then show ?thesis using same by (simp add: same_but_chan_def old_def)
    next
      case (opened crypto stored token sh1)
      then have "sh_sessions sh' = (sh_sessions sh)(dr_uuid d \<mapsto> new_session d token crypto (hc_conn h))"
        by (simp add: same_but_chan_def)
      then show ?thesis using opened auth(1) assms(2)
        by (cases "i = dr_uuid d") (auto simp: new_session_def)
    qed
  next
    case (key key u)
    then have old using on_key_exchange_cases [OF key] same by (simp add: same_but_chan_def)
    then show ?thesis by (simp add: old_def)
  next
    case (start u)
    then have "sh_sessions sh' = sh_sessions sh"
      by (auto simp: on_start_stream_def Let_def same_but_chan_def
          split: option.splits prod.splits dest!: send_encrypted_frame)
    then show ?thesis using same by (simp add: old_def)
  next
    case (input act u)
    then show ?thesis using replay_frame [OF input] same by (simp add: old_def)
  next
    case (ack t t' u)
    then have "sh' = sh \<or> (\<exists>j ctl. sh' = put_controller j ctl sh)"
      by (auto simp: on_frame_ack_def Let_def split: option.splits prod.splits)
    then show ?thesis using same put by (auto simp: old_def)
  next
    case (mode q u)
    show ?thesis
    proof (cases "session_of h sh")
      case None
      then show ?thesis using mode same by (simp add: on_request_quality_def old_def)
    next
      case (Some p)
      then have "\<exists>ctl. sh_sessions sh' = sh_sessions (put_controller (fst p) ctl sh)"
        using mode by (auto simp: on_request_quality_def Let_def same_but_chan_def
          split: prod.splits dest!: send_encrypted_frame)
      then show ?thesis using put unfolding old_def by blast
    qed
  next
    case none
    then show ?thesis using same by (simp add: old_def)
  qed
qed

lemma handles_sessions:
  assumes "handles L d m h sh h' sh'" "sh_sessions sh' i = Some s"
  shows "(\<exists>s0. sh_sessions sh i = Some s0 \<and> sess_tx s = sess_tx s0 \<and> sess_crypto s = sess_crypto s0
      \<and> sess_id s = sess_id s0)
    \<or> (\<exists>code stored. m = Msg_AuthRequest code \<and> sess_tx s = hc_conn h \<and> sess_id s = i
         \<and> hc_crypto_session h = Some (sess_crypto s) \<and> sh_access_code sh = Some stored
         \<and> AccessCode_verify (cl_sha256 (lb_crypto L)) stored (dr_clock d 0) code = Inr True)"
  using assms(1) unfolding handles_def
proof (elim disjE exE)
  fix r assume "handle_message L d m h sh = ((h', sh'), r)"
  from handle_message_sessions [OF this assms(2)] show ?thesis .
next
  fix r assume "prepare L d m h sh = Some ((h', sh'), r)"
  then show ?thesis
  proof (cases rule: prepare_cases)
    case (opened code crypto stored token)
    then show ?thesis using assms(2) by (cases "i = dr_uuid d") (auto simp: new_session_def)
  qed (use assms(2) in simp)
qed

lemma serve_session_fields:
  assumes "serve_session L d f s sh = (s', sh')"
  shows "sess_tx s' = sess_tx s" "sess_crypto s' = sess_crypto s" "sess_id s' = sess_id s"
    "same_but_chan (sess_tx s) sh sh'"
proof -
  have "same_but_chan (sess_tx s) sh (fst (chan_send (sess_tx s) e sh))" for e
    by (cases "chan_send (sess_tx s) e sh") (auto dest: chan_send_frame)
  then show "sess_tx s' = sess_tx s" "sess_crypto s' = sess_crypto s" "sess_id s' = sess_id s"
    "same_but_chan (sess_tx s) sh sh'"
    using assms
    by (auto simp: serve_session_def Let_def split: prod.splits if_splits option.splits sum.splits)
qed

lemma serve_one_sessions:
  "map_option sess_tx (sh_sessions (serve_one L env f i sh) j) = map_option sess_tx (sh_sessions sh j)"
  "sh_access_code (serve_one L env f i sh) = sh_access_code sh"
proof (atomize (full), cases "sh_sessions sh i")
  case (Some s)
  obtain s' sh' where r: "serve_session L (env i) f s sh = (s', sh')" by force
  then show "map_option sess_tx (sh_sessions (serve_one L env f i sh) j) = map_option sess_tx (sh_sessions sh j)
      \<and> sh_access_code (serve_one L env f i sh) = sh_access_code sh"
    using Some serve_session_fields [OF r] by (simp add: serve_one_def same_but_chan_def)
qed (simp add: serve_one_def)

lemma serve_frame_sessions:
  "map_option sess_tx (sh_sessions (serve_frame L env f ids sh) j) = map_option sess_tx (sh_sessions sh j)"
  "sh_access_code (serve_frame L env f ids sh) = sh_access_code sh"
  unfolding serve_frame_def
  by (induction ids arbitrary: sh) (simp_all add: serve_one_sessions)

lemma serve_one_chan:
  assumes "\<And>s. sh_sessions sh i = Some s \<Longrightarrow> sess_tx s \<noteq> c"
  shows "sh_chans (serve_one L env f i sh) c = sh_chans sh c"
  using assms
  by (auto simp: serve_one_def same_but_chan_def split: option.splits prod.splits
      dest!: serve_session_fields(4))

lemma serve_frame_chan:
  assumes "\<And>i s. sh_sessions sh i = Some s \<Longrightarrow> sess_tx s \<noteq> c"
  shows "sh_chans (serve_frame L env f ids sh) c = sh_chans sh c"
  using assms unfolding serve_frame_def
proof (induction ids arbitrary: sh)
  case (Cons i ids)
  have "sess_tx s \<noteq> c" if "sh_sessions (serve_one L env f i sh) j = Some s" for j s
  proof -
    have "map_option sess_tx (sh_sessions sh j) = Some (sess_tx s)"
      using serve_one_sessions(1) [of L env f i sh j] that by simp
    then show ?thesis using Cons.prems by (auto simp: map_option_eq_Some)
  qed
  then have "sh_chans (fold (serve_one L env f) ids (serve_one L env f i sh)) c
      = sh_chans (serve_one L env f i sh) c"
    by (rule Cons.IH)
  then show ?case using Cons.prems serve_one_chan [of sh i c] by simp
qed simp

section \<open>Sessions belong to authenticated connections\<close>

text \<open>A trace grants a connection access if the connection sent the right code in time.\<close>

definition granted :: "libs \<Rightarrow> AccessCode \<Rightarrow> sys_event list \<Rightarrow> nat \<Rightarrow> bool" where
  "granted L ac tr c \<longleftrightarrow>
     (\<exists>d code. Ev_Message c d (Msg_AuthRequest code) \<in> set tr
        \<and> AccessCode_verify (cl_sha256 (lb_crypto L)) ac (dr_clock d 0) code = Inr True)"

lemma granted_snoc: "granted L ac tr c \<Longrightarrow> granted L ac (tr @ [ev]) c"
  by (auto simp: granted_def)

definition sys_inv :: "libs \<Rightarrow> AccessCode \<Rightarrow> sys_event list \<Rightarrow> System \<Rightarrow> bool" where
  "sys_inv L ac tr s \<longleftrightarrow>
     sh_access_code (sys_shared s) = Some ac
     \<and> (\<forall>c h b. sys_tasks s c = Some (h, b) \<longrightarrow> hc_conn h = c \<and> c < sys_next s)
     \<and> (\<forall>i sess. sh_sessions (sys_shared s) i = Some sess \<longrightarrow> granted L ac tr (sess_tx sess))"

lemma cleanup_frame:
  "sh_access_code (cleanup h sh) = sh_access_code sh"
  "sh_sessions (cleanup h sh) i = Some s \<Longrightarrow> sh_sessions sh i = Some s"
  by (auto simp: cleanup_def Let_def split: option.splits if_splits)

lemma writer_step_frame:
  assumes "writer_step c w sh = (w', sh')"
  shows "sh_access_code sh' = sh_access_code sh" "sh_sessions sh' = sh_sessions sh"
    "sh_input sh' = sh_input sh"
  using assms by (auto simp: writer_step_def split: list.splits prod.splits sum.splits)

lemma sys_inv_message:
  assumes inv: "sys_inv L ac tr s" and task: "sys_tasks s c = Some (h, True)"
    and hm: "handles L d m (taken h rest) (sys_shared s) h' sh'"
  shows "hc_conn h' = c \<and> c < sys_next s" "sh_access_code sh' = Some ac"
    "sh_sessions sh' i = Some sess \<Longrightarrow> granted L ac (tr @ [Ev_Message c d m]) (sess_tx sess)"
proof -
  have c: "hc_conn (taken h rest) = c" using inv task by (auto simp: sys_inv_def taken_def)
  note fr = handles_frame [OF hm]
  show "hc_conn h' = c \<and> c < sys_next s" "sh_access_code sh' = Some ac"
    using fr c inv task by (auto simp: handler_frame_def sys_inv_def)
  assume "sh_sessions sh' i = Some sess"
  from handles_sessions [OF hm this]
  show "granted L ac (tr @ [Ev_Message c d m]) (sess_tx sess)"
  proof
    assume "\<exists>s0. sh_sessions (sys_shared s) i = Some s0 \<and> sess_tx sess = sess_tx s0
      \<and> sess_crypto sess = sess_crypto s0 \<and> sess_id sess = sess_id s0"
    then show ?thesis using inv by (auto simp: sys_inv_def intro: granted_snoc)
  next
    assume "\<exists>code stored. m = Msg_AuthRequest code \<and> sess_tx sess = hc_conn (taken h rest) \<and> sess_id sess = i
      \<and> hc_crypto_session (taken h rest) = Some (sess_crypto sess)
      \<and> sh_access_code (sys_shared s) = Some stored
      \<and> AccessCode_verify (cl_sha256 (lb_crypto L)) stored (dr_clock d 0) code = Inr True"
    then show ?thesis using c inv by (auto simp: sys_inv_def granted_def)
  qed
qed

text \<open>A step that keeps the code and the tasks' numbers and whose sessions all had their channel
  before keeps the invariant.\<close>

lemma sys_inv_keep:
  assumes "sys_inv L ac tr s" "sh_access_code (sys_shared s') = sh_access_code (sys_shared s)"
    and "\<And>c h b. sys_tasks s' c = Some (h, b) \<Longrightarrow> hc_conn h = c \<and> c < sys_next s'"
    and "\<And>i x. sh_sessions (sys_shared s') i = Some x \<Longrightarrow>
      \<exists>y. sh_sessions (sys_shared s) i = Some y \<and> sess_tx x = sess_tx y"
  shows "sys_inv L ac (tr @ [ev]) s'"
  unfolding sys_inv_def
proof (intro conjI allI impI)
  show "sh_access_code (sys_shared s') = Some ac" using assms(1,2) by (simp add: sys_inv_def)
  fix i x assume "sh_sessions (sys_shared s') i = Some x"
  then obtain y where "sh_sessions (sys_shared s) i = Some y" "sess_tx x = sess_tx y"
    using assms(4) by blast
  then show "granted L ac (tr @ [ev]) (sess_tx x)"
    using assms(1) granted_snoc by (auto simp: sys_inv_def)
qed (use assms(3) in blast)+

lemma sys_inv_tasks: "sys_inv L ac tr s \<Longrightarrow> sys_tasks s c = Some (h, b) \<Longrightarrow> hc_conn h = c \<and> c < sys_next s"
  by (simp add: sys_inv_def)

lemma sys_inv_step:
  assumes "sys_step L s ev s'" "sys_inv L ac tr s"
  shows "sys_inv L ac (tr @ [ev]) s'"
  using assms(1)
proof (cases rule: sys_step.cases)
  case (accept c h sh)
  then show ?thesis using sys_inv_tasks [OF assms(2)]
    by (intro sys_inv_keep [OF assms(2)]) (auto simp: accept_client_def less_Suc_eq split: if_splits)
next
  case (read c h bs)
  then show ?thesis using sys_inv_tasks [OF assms(2)]
    by (intro sys_inv_keep [OF assms(2)]) (auto split: if_splits)
next
  case (idle c h)
  then show ?thesis using sys_inv_tasks [OF assms(2)]
    by (intro sys_inv_keep [OF assms(2)]) (auto split: if_splits)
next
  case (message c h p rest m d h' sh' f)
  note m = sys_inv_message [OF assms(2) message(3) handlesI(1) [OF message(6)]]
  show ?thesis using message(1,2,3) m assms(2) by (auto simp: sys_inv_def)
next
  case (failed c h p rest m d h' sh' e)
  note m = sys_inv_message [OF assms(2) failed(3) handlesI(1) [OF failed(6)]]
  show ?thesis using failed(1,2,3) m assms(2) by (auto simp: sys_inv_def)
next
  case (prepared c h p rest m d h' sh' answer)
  note m = sys_inv_message [OF assms(2) prepared(3) handlesI(2) [OF prepared(6)]]
  show ?thesis using prepared(1,2,3) m assms(2) by (auto simp: sys_inv_def)
next
  case (replied c h nonce answer sh')
  then show ?thesis using sys_inv_tasks [OF assms(2)] send_encrypted_frame [OF replied(5)]
    by (intro sys_inv_keep [OF assms(2)]) (auto simp: same_but_chan_def)
next
  case (reply_failed c h nonce answer sh' e)
  then show ?thesis using sys_inv_tasks [OF assms(2)] send_encrypted_frame [OF reply_failed(5)]
    by (intro sys_inv_keep [OF assms(2)]) (auto simp: same_but_chan_def split: if_splits)
next
  case (frame ids env f)
  have "\<exists>y. sh_sessions (sys_shared s) i = Some y \<and> sess_tx x = sess_tx y"
    if "sh_sessions (serve_frame L env f ids (sys_shared s)) i = Some x" for i x
    using serve_frame_sessions(1) [of L env f ids "sys_shared s" i] that
    by (cases "sh_sessions (sys_shared s) i") simp_all
  then show ?thesis using frame sys_inv_tasks [OF assms(2)]
    by (intro sys_inv_keep [OF assms(2)]) (simp_all add: serve_frame_sessions(2))
next
  case (sent c w sh)
  then show ?thesis using sys_inv_tasks [OF assms(2)] writer_step_frame [OF sent(4)]
    by (intro sys_inv_keep [OF assms(2)]) simp_all
next
  case (eof c h part)
  then show ?thesis using sys_inv_tasks [OF assms(2)]
    by (intro sys_inv_keep [OF assms(2)]) (auto simp: cleanup_frame(1) split: if_splits dest: cleanup_frame(2))
next
  case (reject c h p rest e)
  then show ?thesis using sys_inv_tasks [OF assms(2)]
    by (intro sys_inv_keep [OF assms(2)]) (auto split: if_splits)
next
  case (read_error c h)
  then show ?thesis using sys_inv_tasks [OF assms(2)]
    by (intro sys_inv_keep [OF assms(2)]) (auto split: if_splits)
qed

interpretation auth: trace_invariant "sys_step L" "sys_inv L ac" for L ac
  by unfold_locales (rule sys_inv_step)

lemma sys_inv_init: "sys_inv L ac [] (sys_init ac out)"
  by (simp add: sys_inv_def sys_init_def Server_new_def)

lemma sys_run_inv: "sys_run L s tr s' \<Longrightarrow> s = sys_init ac out \<Longrightarrow> sys_inv L ac tr s'"
  using auth.inv_run sys_inv_init by metis

section \<open>Properties\<close>

text \<open>C7: In every execution of the server, under every interleaving of its tasks, a session exists
  only for a connection that sent an access code that \<open>verify\<close> accepted, at the time it was sent,
  against the code the server was started with.\<close>

theorem sessions_only_after_authentication:
  assumes "sys_run L (sys_init ac out) tr s" "sh_sessions (sys_shared s) i = Some sess"
  shows "\<exists>d code now. Ev_Message (sess_tx sess) d (Msg_AuthRequest code) \<in> set tr
    \<and> unix_secs (dr_clock d 0) = Inr now \<and> now \<le> ac_expires_at ac
    \<and> hash_code (cl_sha256 (lb_crypto L)) code = ac_hashed ac"
proof -
  have "granted L ac tr (sess_tx sess)"
    using sys_run_inv [OF assms(1) refl] assms(2) by (simp add: sys_inv_def)
  then show ?thesis unfolding granted_def using verify_TrueD by blast
qed

text \<open>A server with the code \<open>1\<close>, the messages of a client that exchanges keys and sends it, and a frame.\<close>

definition demo_code :: AccessCode where
  "demo_code = \<lparr>ac_code = ''1'', ac_hashed = hash_code (cl_sha256 demo_lib) ''1'', ac_created_at = 0,
     ac_expires_at = 300\<rparr>"

definition demo_talk :: "Message list" where
  "demo_talk =
     [Msg_KeyExchange (replicate 32 0), Msg_KeyExchangeAck (pad32 [1]), Msg_AuthRequest ''1'',
      Msg_AuthResponse True (Some (replicate 32 (char_of (65 :: nat)))), Msg_ScreenFrame 0 1 1 [1, 2, 3] Raw]"

abbreviation demo_start :: System where
  "demo_start \<equiv> sys_init demo_code (\<lambda>_. \<lparr>wr_written = [], wr_limit = None\<rparr>)"

definition demo_key :: CryptoSession where
  "demo_key = \<lparr>cs_cipher = cl_sha256 demo_lib (cl_dh demo_lib [1] (replicate 32 0))\<rparr>"

text \<open>The two packets: the public key in the clear, the code under the derived key.\<close>

definition demo_login :: bytes where
  "demo_login = replicate 12 0 @ 2 # cs_cipher demo_key"

text \<open>The server's answer to it.\<close>

definition demo_grant :: bytes where
  "demo_grant = replicate 12 0 @ 3 # cs_cipher demo_key"

definition demo_bytes :: bytes where
  "demo_bytes = frame_of [0] @ frame_of demo_login"

lemma demo_frames:
  "next_frame demo_bytes = Some ([0], frame_of demo_login)" "next_frame (frame_of demo_login) = Some (demo_login, [])"
  "demo_bytes \<noteq> []"
proof -
  have "length (cs_cipher demo_key) = 32" by (simp add: demo_key_def demo_lib_def)
  then show "next_frame demo_bytes = Some ([0], frame_of demo_login)"
    "next_frame (frame_of demo_login) = Some (demo_login, [])" "demo_bytes \<noteq> []"
    using next_frame_frame_of [of "[0]" "frame_of demo_login"] next_frame_frame_of [of demo_login "[]"]
    by (simp_all add: fits_u32_def demo_bytes_def demo_login_def frame_of_def)
qed

lemma demo_opened:
  "open_payload (demo_libs demo_talk) None [0] = Inr (Msg_KeyExchange (replicate 32 0))"
  "open_payload (demo_libs demo_talk) (Some demo_key) demo_login = Inr (Msg_AuthRequest ''1'')"
  by (simp_all add: open_payload_def demo_libs_def table_bincode_def Message_deserialize_def
      demo_talk_def decrypt_def demo_lib_def demo_login_def)

lemma demo_key_step:
  assumes "hc_crypto_session h = None" "hc_conn h = 0" "ch_open (sh_chans sh 0)"
  obtains sh' where "handle_message (demo_libs demo_talk) (demo_draws 0) (Msg_KeyExchange (replicate 32 0)) h sh
      = ((h\<lparr>hc_crypto_session := Some demo_key\<rparr>, sh'), Inr Next)"
    "ch_open (sh_chans sh' 0)" "sh_access_code sh' = sh_access_code sh" "sh_sessions sh' = sh_sessions sh"
    "ch_queue (sh_chans sh' 0) = ch_queue (sh_chans sh 0) @ [[1]]"
  using assms
  by (simp add: go_on_def on_key_exchange_def Let_def demo_libs_def demo_draws_def KeyExchange_new_def
      public_key_bytes_def Message_serialize_def table_bincode_def demo_talk_def chan_send_def
      public_key_of_slice_def compute_shared_secret_def demo_key_def) (simp add: demo_lib_def)

lemma demo_auth_step:
  assumes "hc_crypto_session h = Some demo_key" "hc_conn h = 0" "ch_open (sh_chans sh 0)"
    and "sh_access_code sh = Some demo_code"
  obtains h' sh' where "handle_message (demo_libs demo_talk) (demo_draws 0) (Msg_AuthRequest ''1'') h sh
      = ((h', sh'), Inr Next)"
    "dom (sh_sessions sh') = insert ''a'' (dom (sh_sessions sh))" "ch_open (sh_chans sh' 0)"
    "ch_queue (sh_chans sh' 0) = ch_queue (sh_chans sh 0) @ [demo_grant]"
    "hc_buffer h' = hc_buffer h" "hc_crypto_session h' = Some demo_key"
    "map_option sess_tx (sh_sessions sh' ''a'') = Some 0"
proof -
  let ?L = "demo_libs demo_talk"
  have v: "handle_auth ?L 0 ''1'' (Some demo_code)
      = Inr \<lparr>aresp_success = True, aresp_session_token = None, aresp_message = ''Authentication successful''\<rparr>"
    by (simp add: handle_auth_def AccessCode_verify_def demo_code_def demo_libs_def unix_secs_Inr)
  have t: "SessionToken_generate (\<lambda>_. 65) 0 24
      = Inr \<lparr>tok_token = replicate 32 (char_of (65 :: nat)), tok_created_at = 0, tok_expires_at = 86400\<rparr>"
    by (simp add: SessionToken_generate_def unix_secs_Inr map_replicate_const)
  have e: "seal_message ?L (replicate 12 0)
      (Msg_AuthResponse True (Some (replicate 32 (char_of (65 :: nat))))) (Some demo_key) = Inr demo_grant"
    by (simp add: seal_message_def Message_serialize_def demo_libs_def table_bincode_def demo_talk_def
        encrypt_def demo_lib_def demo_grant_def)
  show ?thesis
    using that assms v t e
    by (auto simp: go_on_def auth_defs open_session_def demo_draws_def send_encrypted_def
        chan_send_def Let_def new_session_def)
qed

text \<open>The events of a client that logs in.\<close>

definition demo_events :: "sys_event list" where
  "demo_events =
     [Ev_Accept 0, Ev_Read 0 demo_bytes, Ev_Message 0 (demo_draws 0) (Msg_KeyExchange (replicate 32 0)),
      Ev_Message 0 (demo_draws 0) (Msg_AuthRequest ''1'')]"

lemma demo_key_run:
  obtains s h where "sys_run (demo_libs demo_talk) demo_start (take 3 demo_events) s"
    "sys_tasks s 0 = Some (h, True)" "hc_conn h = 0" "hc_buffer h = frame_of demo_login"
    "hc_crypto_session h = Some demo_key" "sys_pending s = Map.empty" "sys_out s = sys_out demo_start"
    "sh_sessions (sys_shared s) = Map.empty" "sh_access_code (sys_shared s) = Some demo_code"
    "sh_chans (sys_shared s) 0 = \<lparr>ch_queue = [[1]], ch_open = True\<rparr>"
proof -
  let ?L = "demo_libs demo_talk" and ?d = "demo_draws 0"
  let ?h1 = "taken (demo_handler\<lparr>hc_buffer := demo_bytes\<rparr>) (frame_of demo_login)"
  have nonce: "length (dr_nonce ?d) = 12" by (simp add: demo_draws_def)
  obtain sh1 where acc: "accept_client 0 (sys_shared demo_start) = (demo_handler, sh1)"
    "sh_access_code sh1 = Some demo_code" "ch_open (sh_chans sh1 0)" "sh_sessions sh1 = Map.empty"
    "ch_queue (sh_chans sh1 0) = []"
    by (simp add: accept_client_def demo_handler_def sys_init_def Server_new_def)
  obtain sh2 where kx: "handle_message ?L ?d (Msg_KeyExchange (replicate 32 0)) ?h1 sh1
      = ((?h1\<lparr>hc_crypto_session := Some demo_key\<rparr>, sh2), Inr Next)"
    "ch_open (sh_chans sh2 0)" "sh_access_code sh2 = Some demo_code" "sh_sessions sh2 = Map.empty"
    "ch_queue (sh_chans sh2 0) = [[1]]"
    using demo_key_step [of ?h1 sh1] acc by (auto simp: taken_def demo_handler_def)
  obtain s1 where 1: "sys_step ?L demo_start (Ev_Accept 0) s1" "sys_tasks s1 0 = Some (demo_handler, False)"
    "sys_shared s1 = sh1" "sys_out s1 = sys_out demo_start" "sys_pending s1 = Map.empty"
    using sys_step.accept [OF refl, of demo_start demo_handler sh1 ?L] acc by (auto simp: sys_init_def)
  obtain s2 where 2: "sys_step ?L s1 (Ev_Read 0 demo_bytes) s2"
    "sys_tasks s2 0 = Some (demo_handler\<lparr>hc_buffer := demo_bytes\<rparr>, True)" "sys_shared s2 = sh1"
    "sys_out s2 = sys_out demo_start" "sys_pending s2 = Map.empty"
    using sys_step.read [OF 1(2) demo_frames(3), of ?L] 1(3-5) by (auto simp: demo_handler_def)
  obtain s3 where 3: "sys_step ?L s2 (Ev_Message 0 ?d (Msg_KeyExchange (replicate 32 0))) s3"
    "sys_tasks s3 0 = Some (?h1\<lparr>hc_crypto_session := Some demo_key\<rparr>, True)" "sys_shared s3 = sh2"
    "sys_out s3 = sys_out demo_start" "sys_pending s3 = Map.empty"
    using sys_step.message [OF 2(2), of "[0]" "frame_of demo_login" ?L "Msg_KeyExchange (replicate 32 0)" ?d]
      demo_frames(1) demo_opened(1) kx 2(3-5) nonce by (auto simp: demo_handler_def)
  note run = sys_run_snoc [OF sys_run_snoc [OF sys_run_snoc [OF sys_run_start 1(1)] 2(1)] 3(1)]
  have "sys_run ?L demo_start (take 3 demo_events) s3" using run by (simp add: demo_events_def)
  then show ?thesis using that [OF _ 3(2)] 3(3-5) kx
    by (cases "sh_chans sh2 0") (simp add: taken_def demo_handler_def)
qed

lemma demo_run:
  obtains tr s where "sys_run (demo_libs demo_talk) demo_start tr s"
    "dom (sh_sessions (sys_shared s)) = {''a''}" "sys_out s = sys_out demo_start"
    "sh_chans (sys_shared s) 0 = \<lparr>ch_queue = [[1], demo_grant], ch_open = True\<rparr>" "tr = demo_events"
    "\<exists>h. sys_tasks s 0 = Some (h, True) \<and> hc_buffer h = [] \<and> hc_crypto_session h = Some demo_key"
    "sys_pending s = Map.empty" "map_option sess_tx (sh_sessions (sys_shared s) ''a'') = Some 0"
proof -
  let ?L = "demo_libs demo_talk" and ?d = "demo_draws 0"
  obtain s3 h where 3: "sys_run ?L demo_start (take 3 demo_events) s3"
    "sys_tasks s3 0 = Some (h, True)" "hc_conn h = 0" "hc_buffer h = frame_of demo_login"
    "hc_crypto_session h = Some demo_key" "sys_pending s3 = Map.empty" "sys_out s3 = sys_out demo_start"
    "sh_sessions (sys_shared s3) = Map.empty" "sh_access_code (sys_shared s3) = Some demo_code"
    "sh_chans (sys_shared s3) 0 = \<lparr>ch_queue = [[1]], ch_open = True\<rparr>" by (rule demo_key_run)
  obtain h3 sh3 where au: "handle_message ?L ?d (Msg_AuthRequest ''1'') (taken h []) (sys_shared s3) = ((h3, sh3), Inr Next)"
    "dom (sh_sessions sh3) = {''a''}" "ch_open (sh_chans sh3 0)"
    "ch_queue (sh_chans sh3 0) = [[1], demo_grant]" "hc_buffer h3 = []" "hc_crypto_session h3 = Some demo_key"
    "map_option sess_tx (sh_sessions sh3 ''a'') = Some 0"
    using demo_auth_step [of "taken h []" "sys_shared s3"] 3(3-10) by (auto simp: taken_def)
  have nonce: "length (dr_nonce ?d) = 12" by (simp add: demo_draws_def)
  obtain s4 where 4: "sys_step ?L s3 (Ev_Message 0 ?d (Msg_AuthRequest ''1'')) s4" "sys_shared s4 = sh3"
    "sys_out s4 = sys_out demo_start" "sys_tasks s4 0 = Some (h3, True)" "sys_pending s4 = Map.empty"
    using sys_step.message [OF 3(2), of demo_login "[]" ?L "Msg_AuthRequest ''1''" ?d]
      demo_frames(2) demo_opened(2) au 3(4-7) nonce by auto
  have "sys_run ?L demo_start demo_events s4"
    using sys_run_snoc [OF 3(1) 4(1)] by (simp add: demo_events_def)
  then show ?thesis using that 4(2-5) au by (cases "sh_chans sh3 0") simp
qed

theorem sessions_only_after_authentication_witness:
  "\<exists>tr s sess. sys_run (demo_libs demo_talk) demo_start tr s
     \<and> sh_sessions (sys_shared s) ''a'' = Some sess
     \<and> (\<exists>d code. Ev_Message (sess_tx sess) d (Msg_AuthRequest code) \<in> set tr)"
proof -
  obtain tr s where run: "sys_run (demo_libs demo_talk) demo_start tr s"
    "dom (sh_sessions (sys_shared s)) = {''a''}" by (rule demo_run)
  then obtain x where x: "sh_sessions (sys_shared s) ''a'' = Some x" by blast
  show ?thesis using run(1) x sessions_only_after_authentication [OF run(1) x] by blast
qed

text \<open>Captured frames go to authenticated connections only: in every reachable state, serving a
  frame leaves the channel of a connection that never sent a correct code as it was.\<close>

theorem frames_only_to_authenticated:
  assumes "sys_run L (sys_init ac out) tr s" "sys_step L s (Ev_Frame f) s'"
    and "\<not> granted L ac tr c"
  shows "sh_chans (sys_shared s') c = sh_chans (sys_shared s) c"
proof -
  obtain env ids where "s' = s\<lparr>sys_shared := serve_frame L env f ids (sys_shared s)\<rparr>"
    using assms(2) by (rule sys_step_frameE)
  moreover have "sess_tx sess \<noteq> c" if "sh_sessions (sys_shared s) i = Some sess" for i sess
    using sys_run_inv [OF assms(1) refl] assms(3) that by (auto simp: sys_inv_def)
  ultimately show ?thesis by (simp add: serve_frame_chan)
qed

theorem frames_only_to_authenticated_witness:
  "\<exists>s'. sys_step (demo_libs []) (sys_init demo_code (\<lambda>_. \<lparr>wr_written = [], wr_limit = None\<rparr>)) (Ev_Frame demo_frame) s'
     \<and> sh_chans (sys_shared s') 3 = \<lparr>ch_queue = [], ch_open = False\<rparr>"
proof -
  let ?s = "sys_init demo_code (\<lambda>_. \<lparr>wr_written = [], wr_limit = None\<rparr>)"
  obtain s' where st: "sys_step (demo_libs []) ?s (Ev_Frame demo_frame) s'"
    using sys_step.frame [of "[]" ?s "\<lambda>_. demo_draws 0" "demo_libs []" demo_frame]
    by (auto simp: sys_init_def Server_new_def demo_draws_def)
  have "\<not> granted (demo_libs []) demo_code [] 3" by (simp add: granted_def)
  then have "sh_chans (sys_shared s') 3 = sh_chans (sys_shared ?s) 3"
    by (rule frames_only_to_authenticated [OF sys_run_start st])
  then show ?thesis using st by (auto simp: sys_init_def Server_new_def)
qed

end
