(* ===== verification/Server_Main.thy ===== *)
theory Server_Main
  imports Server_System Metrics
begin

text \<open>
  \<open>src/bin/server.rs\<close> and the capture thread that \<open>screen_capture_loop\<close> of
  \<open>src/server/server.rs\<close> starts. \<open>main\<close> draws one access code, sets up the metrics and runs the
  server of \<open>Server_System\<close>; the thread calls \<open>capture_frame\<close> for ever, here along a script of what
  its calls meet (the two clock readings, the wall clock, the capturer's answer), and its value is
  the list of frames it has sent to the loop that serves the sessions.
\<close>

section \<open>The capture thread\<close>

type_synonym capture_call = "Instant \<times> Instant \<times> SystemTime \<times> capture_event"

text \<open>A panic ends the thread, and so does an encoder that never returns; every other failure is
  ignored.\<close>

fun capture_loop ::
  "webp \<Rightarrow> 'e ffmpeg \<Rightarrow> zstd \<Rightarrow> capture_call list \<Rightarrow> 'e ScreenCapture \<Rightarrow> CapturedFrame list" where
  "capture_loop webp ff zstd [] capture = []"
| "capture_loop webp ff zstd ((now, now', clock, ev) # cs) capture =
     (case capture_frame webp ff zstd now now' clock ev capture of
        None \<Rightarrow> []
      | Some (capture', r) \<Rightarrow>
          (case r of
             Inr (Some frame) \<Rightarrow> frame # capture_loop webp ff zstd cs capture'
           | Inl (Panicked _) \<Rightarrow> []
           | _ \<Rightarrow> capture_loop webp ff zstd cs capture'))"

definition capture_thread ::
  "platform \<Rightarrow> webp \<Rightarrow> 'e ffmpeg \<Rightarrow> zstd \<Rightarrow> bool \<Rightarrow> (nat \<times> nat) option \<Rightarrow> Instant \<Rightarrow> capture_call list \<Rightarrow>
   CapturedFrame list" where
  "capture_thread os webp ff zstd primary capturer start cs =
     (case ScreenCapture_new os ff primary capturer start 30 of
        Inr capture \<Rightarrow> capture_loop webp ff zstd cs capture
      | Inl _ \<Rightarrow> [])"

section \<open>The program\<close>

datatype Transport = Tcp | Quic

record Args =
  arg_address :: string
  arg_transport :: Transport
  arg_metrics :: bool

text \<open>What becomes of the program: it ends with a result, or it serves in a state of the system, with
  the metrics its reporting task prints.\<close>

datatype outcome = Exits "unit result" | Serves System "PerformanceMetrics option"

text \<open>\<open>bind\<close> is the answer of \<open>TcpListener::bind\<close>. A failure of \<open>run\<close> is logged, not returned.\<close>

definition server_main ::
  "libs \<Rightarrow> (nat \<Rightarrow> nat) \<Rightarrow> SystemTime \<Rightarrow> Instant \<Rightarrow> (string \<Rightarrow> string + unit) \<Rightarrow> (nat \<Rightarrow> Writer) \<Rightarrow>
   Args \<Rightarrow> outcome" where
  "server_main L gen_range clock now bind out args =
     (case AccessCode_generate (cl_sha256 (lb_crypto L)) gen_range clock of
        Inl e \<Rightarrow> Exits (Inl e)
      | Inr access_code \<Rightarrow>
          let metrics = (if arg_metrics args then Some (PerformanceMetrics_new now) else None)
          in case arg_transport args of
               Tcp \<Rightarrow>
                 (case bind (arg_address args) of
                    Inl _ \<Rightarrow> Exits (Inr ())
                  | Inr _ \<Rightarrow> Serves (sys_init access_code out) metrics)
             | Quic \<Rightarrow> Exits (Inl (Anyhow ''QUIC not available'')))"

section \<open>Lemmas\<close>

lemma server_main_Serves:
  assumes "server_main L g clock now bind out args = Serves s0 ms"
  obtains ac where "AccessCode_generate (cl_sha256 (lb_crypto L)) g clock = Inr ac" "s0 = sys_init ac out"
  using assms by (auto simp: server_main_def Let_def split: sum.splits Transport.splits)

lemma generate_expiry:
  assumes "AccessCode_generate sha g clock = Inr ac" "unix_secs clock = Inr t0"
  shows "ac_expires_at ac = t0 + CODE_VALIDITY_SECS"
  using assms by (auto simp: AccessCode_generate_def Let_def)

text \<open>A call that meets no frame leaves the capture as it is.\<close>

definition has_frame :: "capture_call \<Rightarrow> bool" where
  "has_frame c = (case c of (_, _, _, FrameReady _) \<Rightarrow> True | _ \<Rightarrow> False)"

lemma capture_loop_skip:
  assumes "\<not> has_frame c"
  shows "capture_loop webp ff zstd (c # cs) sc = capture_loop webp ff zstd cs sc"
  using assms
  by (cases c) (auto simp: has_frame_def capture_frame_def split: capture_event.splits)

section \<open>Properties\<close>

text \<open>The capture thread survives every failure of the capturer: calls that meet an error or
  no new picture change nothing, so the frames sent are those of the remaining calls alone.\<close>

theorem capture_errors_are_skipped:
  "capture_thread os webp ff zstd primary capturer start cs =
   capture_thread os webp ff zstd primary capturer start (filter has_frame cs)"
proof -
  have "capture_loop webp ff zstd cs sc = capture_loop webp ff zstd (filter has_frame cs) sc" for sc
  proof (induction cs arbitrary: sc)
    case (Cons c cs)
    show ?case
    proof (cases "has_frame c")
      case True
      then show ?thesis using Cons.IH
        by (cases c) (simp split: option.split sum.split prod.split error.split)
    next
      case False
      then show ?thesis by (simp only: capture_loop_skip [OF False] filter.simps if_False Cons.IH)
    qed
  qed simp
  then show ?thesis by (simp add: capture_thread_def split: sum.split)
qed

text \<open>C37: The access code is drawn once, when the program starts, and is never renewed: in a server
  that is only asked for access later than five minutes after its start nobody ever gets a session,
  whatever code is sent.\<close>

theorem nobody_admitted_after_five_minutes:
  assumes "server_main L gen_range clock now bind out args = Serves s0 metrics"
    and "unix_secs clock = Inr t0" "sys_run L s0 tr s"
    and "\<And>c d code. Ev_Message c d (Msg_AuthRequest code) \<in> set tr \<Longrightarrow>
      \<exists>t. unix_secs (dr_clock d 0) = Inr t \<and> t0 + 300 < t"
  shows "sh_sessions (sys_shared s) = Map.empty"
proof -
  obtain ac where ac: "AccessCode_generate (cl_sha256 (lb_crypto L)) gen_range clock = Inr ac"
    "s0 = sys_init ac out" using assms(1) by (rule server_main_Serves)
  have e: "ac_expires_at ac = t0 + 300"
    using generate_expiry [OF ac(1) assms(2)] by (simp add: CODE_VALIDITY_SECS_def)
  have "\<not> granted L ac tr c" for c
  proof
    assume "granted L ac tr c"
    then obtain d code t where "Ev_Message c d (Msg_AuthRequest code) \<in> set tr"
      "unix_secs (dr_clock d 0) = Inr t" "t \<le> t0 + 300"
      unfolding granted_def e [symmetric] using verify_TrueD by blast
    then show False using assms(4) by fastforce
  qed
  then show ?thesis
    using sys_run_inv [OF assms(3) ac(2)] by (auto simp: sys_inv_def intro!: ext)
qed

text \<open>A client that asks for access 301 seconds after the start.\<close>

definition late_draws :: draws where
  "late_draws = (demo_draws 0)\<lparr>dr_clock := \<lambda>_. 301000000000\<rparr>"

theorem nobody_admitted_after_five_minutes_witness:
  "\<exists>s0 tr s. server_main (demo_libs [Msg_AuthRequest ''777777'']) (\<lambda>_. 7) 0 0 (\<lambda>_. Inr ())
      (\<lambda>_. \<lparr>wr_written = [], wr_limit = None\<rparr>)
      \<lparr>arg_address = ''0.0.0.0:8080'', arg_transport = Tcp, arg_metrics = False\<rparr> = Serves s0 None
    \<and> sys_run (demo_libs [Msg_AuthRequest ''777777'']) s0 tr s
    \<and> Ev_Message 0 late_draws (Msg_AuthRequest ''777777'') \<in> set tr
    \<and> sh_sessions (sys_shared s) = Map.empty"
proof -
  let ?L = "demo_libs [Msg_AuthRequest ''777777'']"
  let ?out = "\<lambda>_. \<lparr>wr_written = [], wr_limit = None\<rparr> :: Writer"
  let ?args = "\<lparr>arg_address = ''0.0.0.0:8080'', arg_transport = Tcp, arg_metrics = False\<rparr>"
  obtain s0 where 0: "server_main ?L (\<lambda>_. 7) 0 0 (\<lambda>_. Inr ()) ?out ?args = Serves s0 None"
    by (simp add: server_main_def AccessCode_generate_def unix_secs_Inr Let_def)
  then have next0: "sys_next s0 = 0" "sys_pending s0 = Map.empty" by (auto elim!: server_main_Serves simp: sys_init_def)
  obtain s1 where 1: "sys_step ?L s0 (Ev_Accept 0) s1" "sys_tasks s1 0 = Some (demo_handler, False)"
    "sys_pending s1 = Map.empty"
    using sys_step.accept [OF refl, of s0 _ _ ?L] next0 by (auto simp: accept_client_def demo_handler_def)
  have nf: "next_frame (frame_of [0]) = Some ([0], [])"
    using next_frame_frame_of [of "[0]" "[]"] by (simp add: fits_u32_def)
  obtain s2 where 2: "sys_step ?L s1 (Ev_Read 0 (frame_of [0])) s2"
    "sys_tasks s2 0 = Some (demo_handler\<lparr>hc_buffer := frame_of [0]\<rparr>, True)" "sys_pending s2 = Map.empty"
    using sys_step.read [OF 1(2), of "frame_of [0]" ?L] 1(3) nf by (fastforce simp: demo_handler_def)
  have op: "open_payload ?L None [0] = Inr (Msg_AuthRequest ''777777'')"
    by (simp add: open_payload_def demo_libs_def table_bincode_def Message_deserialize_def)
  obtain s3 where 3: "sys_step ?L s2 (Ev_Message 0 late_draws (Msg_AuthRequest ''777777'')) s3"
    using sys_step.failed [OF 2(2), of "[0]" "[]" ?L "Msg_AuthRequest ''777777''" late_draws] nf op 2(3)
    by (auto simp: demo_handler_def taken_def go_on_def auth_defs late_draws_def demo_draws_def)
  note run = sys_run_snoc [OF sys_run_snoc [OF sys_run_snoc [OF sys_run_start 1(1)] 2(1)] 3]
  have "sh_sessions (sys_shared s3) = Map.empty"
    by (rule nobody_admitted_after_five_minutes [OF 0 _ run, of 0])
      (auto simp: unix_secs_Inr late_draws_def)
  then show ?thesis using 0 run by fastforce
qed

end
