(* ===== verification/Metrics_Report.thy ===== *)
theory Metrics_Report
  imports Metrics Server_Main
begin

text \<open>
  The text of a metrics report: \<open>Display for PerformanceStats\<close> in \<open>src/common/metrics.rs\<close>, which the
  server program prints every five seconds. \<open>fmt_fixed p\<close> is Rust's \<open>{:.p}\<close> on an \<open>f64\<close>: the exact
  value rounded to \<open>p\<close> decimals, ties to even. The lemmas read a printed number back.
\<close>

section \<open>Numbers with a fixed number of decimals\<close>

definition pad_left :: "nat \<Rightarrow> string \<Rightarrow> string" where
  "pad_left n s = replicate (n - length s) (CHR ''0'') @ s"

definition fixed_digits :: "nat \<Rightarrow> nat \<Rightarrow> string" where
  "fixed_digits p m =
     nat_to_string (m div 10 ^ p)
     @ (if p = 0 then [] else ''.'' @ pad_left p (nat_to_string (m mod 10 ^ p)))"

fun fmt_fixed :: "nat \<Rightarrow> f64 \<Rightarrow> string" where
  "fmt_fixed p (Fin x) = (if x < 0 then ''-'' else []) @ fixed_digits p (nat (rne (\<bar>x\<bar> * 10 ^ p)))"
| "fmt_fixed p PInf = ''inf''"
| "fmt_fixed p NInf = ''-inf''"
| "fmt_fixed p NaN = ''NaN''"

section \<open>The report\<close>

definition newline :: string where "newline = [CHR 0x0A]"
definition micro_s :: string where "micro_s = [CHR 0xB5, CHR ''s'']"

definition PerformanceStats_fmt :: "PerformanceStats \<Rightarrow> string" where
  "PerformanceStats_fmt self =
     ''Performance Stats:'' @ newline
     @ ''  FPS: '' @ fmt_fixed 1 (ps_fps_captured self) @ '' captured, '' @ fmt_fixed 1 (ps_fps_encoded self)
     @ '' encoded, '' @ fmt_fixed 1 (ps_fps_sent self) @ '' sent'' @ newline
     @ ''  Drop rate: '' @ fmt_fixed 1 (mul64 (ps_drop_rate self) (f64 100)) @ ''%'' @ newline
     @ ''  Avg times: capture='' @ fmt_fixed 0 (ps_avg_capture_time_us self) @ micro_s
     @ '', encode='' @ fmt_fixed 0 (ps_avg_encode_time_us self) @ micro_s
     @ '', network='' @ fmt_fixed 0 (ps_avg_network_time_us self) @ micro_s @ newline
     @ ''  Throughput: '' @ fmt_fixed 1 (ps_throughput_mbps self) @ '' Mbps'' @ newline
     @ ''  Total frames: '' @ nat_to_string (unat (ps_total_frames self))
     @ '', Uptime: '' @ fmt_fixed 0 (ps_uptime_seconds self) @ ''s''"

text \<open>One turn of the reporting task of the server program.\<close>

definition metrics_report :: "Instant \<Rightarrow> PerformanceMetrics \<Rightarrow> string" where
  "metrics_report now metrics = newline @ PerformanceStats_fmt (get_stats now metrics)"

section \<open>Reading a number back\<close>

definition digits_value :: "string \<Rightarrow> nat" where
  "digits_value s = foldl (\<lambda>n c. 10 * n + (of_char c - 48)) 0 s"

definition read_fixed :: "string \<Rightarrow> rat" where
  "read_fixed s =
     (let i = takeWhile (\<lambda>c. c \<noteq> CHR ''.'') s; f = drop (Suc (length i)) s
      in of_nat (digits_value (i @ f)) / 10 ^ length f)"

lemma digits_value_snoc: "digits_value (s @ [c]) = 10 * digits_value s + (of_char c - 48)"
  by (simp add: digits_value_def)

lemma digits_value_append: "digits_value (s @ t) = digits_value s * 10 ^ length t + digits_value t"
proof (induction t rule: rev_induct)
  case (snoc c t)
  then show ?case
    using digits_value_snoc [of "s @ t" c] digits_value_snoc [of t c] by (simp add: algebra_simps)
qed (simp add: digits_value_def)

lemma digits_value_zeros: "digits_value (replicate n (CHR ''0'')) = 0"
  by (induction n) (simp_all add: digits_value_def)

lemma digits_value_nat: "digits_value (nat_to_string n) = n"
proof (induction n rule: nat_to_string.induct)
  case (1 n)
  then show ?case
    by (subst nat_to_string.simps) (auto simp: digits_value_def digits_value_snoc [unfolded digits_value_def] of_char_of)
qed

lemma nat_to_string_digits: "c \<in> set (nat_to_string n) \<Longrightarrow> is_ascii_digit c"
proof (induction n rule: nat_to_string.induct)
  case (1 n)
  then show ?case
    using is_ascii_digit_char_of [of n] is_ascii_digit_char_of [of "n mod 10"]
    by (subst (asm) nat_to_string.simps) (auto split: if_splits)
qed

lemma length_nat_to_string: "n < 10 ^ p \<Longrightarrow> 0 < p \<Longrightarrow> length (nat_to_string n) \<le> p"
proof (induction n arbitrary: p rule: nat_to_string.induct)
  case (1 n)
  show ?case
  proof (cases "n < 10")
    case True
    then show ?thesis using "1.prems"(2) by (subst nat_to_string.simps) simp
  next
    case False
    then have "p \<noteq> 1" using "1.prems"(1) by auto
    then obtain q where q: "p = Suc q" "0 < q" using "1.prems"(2) by (cases p) auto
    then have "n div 10 < 10 ^ q" using "1.prems"(1) by (simp add: div_less_iff_less_mult mult.commute)
    then show ?thesis using "1.IH" [OF False, of q] q False by (subst nat_to_string.simps) simp
  qed
qed

lemma read_fixed_digits: "read_fixed (fixed_digits p m) = of_nat m / 10 ^ p"
proof -
  let ?i = "nat_to_string (m div 10 ^ p)" and ?f = "pad_left p (nat_to_string (m mod 10 ^ p))"
  have "c \<noteq> CHR ''.''" if "c \<in> set ?i" for c
    using nat_to_string_digits [OF that] by (auto simp: is_ascii_digit_def)
  then have i: "takeWhile (\<lambda>c. c \<noteq> CHR ''.'') ?i = ?i" "takeWhile (\<lambda>c. c \<noteq> CHR ''.'') (?i @ CHR ''.'' # ?f) = ?i"
    by (auto simp: takeWhile_append2)
  show ?thesis
  proof (cases "p = 0")
    case True
    then show ?thesis using i(1) unfolding read_fixed_def fixed_digits_def Let_def
      by (simp add: digits_value_nat del: takeWhile_eq_all_conv)
  next
    case False
    then have len: "length ?f = p"
      using length_nat_to_string [of "m mod 10 ^ p" p] by (simp add: pad_left_def)
    have "digits_value ?f = m mod 10 ^ p"
      by (simp add: pad_left_def digits_value_append digits_value_zeros digits_value_nat)
    then have "digits_value (?i @ ?f) = m"
      using len div_mult_mod_eq [of m "10 ^ p"] by (simp add: digits_value_append digits_value_nat)
    then show ?thesis using False i(2) len by (simp add: read_fixed_def fixed_digits_def Let_def)
  qed
qed

lemma rne_close: "\<bar>of_int (rne y) - y\<bar> \<le> 1 / 2"
  using floor_correct [of y] unfolding rne_def Let_def by (simp add: abs_if) linarith

text \<open>A printed number is within half a unit of its last decimal of the value.\<close>

theorem printed_number_close:
  assumes "0 \<le> x"
  shows "\<bar>read_fixed (fmt_fixed p (Fin x)) - x\<bar> \<le> 1 / (2 * 10 ^ p)"
proof -
  let ?m = "rne (x * 10 ^ p)"
  have "0 \<le> ?m" using rne_ge_of_int [of 0 "x * 10 ^ p"] assms by simp
  then have r: "read_fixed (fmt_fixed p (Fin x)) = of_int ?m / 10 ^ p"
    using assms by (simp add: read_fixed_digits)
  have "of_int ?m / 10 ^ p - x = (of_int ?m - x * 10 ^ p) / 10 ^ p" by (simp add: field_simps)
  then have "\<bar>of_int ?m / 10 ^ p - x\<bar> = \<bar>of_int ?m - x * 10 ^ p\<bar> / 10 ^ p" by (simp add: abs_divide)
  also have "\<dots> \<le> (1 / 2) / 10 ^ p" using rne_close [of "x * 10 ^ p"] by (intro divide_right_mono) simp_all
  finally show ?thesis using r by simp
qed

section \<open>Positive times\<close>

text \<open>At least a power of two, which rounding does not cross.\<close>

fun fp_ge :: "int \<Rightarrow> fp \<Rightarrow> bool" where
  "fp_ge k (Fin r) \<longleftrightarrow> pow2 k \<le> r"
| "fp_ge k PInf \<longleftrightarrow> True"
| "fp_ge k _ \<longleftrightarrow> False"

lemma f64_ge: "pow2 k \<le> x \<Longrightarrow> - 1000 \<le> k \<Longrightarrow> fp_ge k (f64 x)"
proof -
  assume k: "pow2 k \<le> x" "- 1000 \<le> k"
  have F: "fmt_ok f64_fmt" by simp
  have "round_fmt f64_fmt (pow2 k) = pow2 k"
    using round_exact [OF _ _ F, of 1 k] k(2) by (simp add: f64_fmt_def)
  then have r: "pow2 k \<le> round_fmt f64_fmt x" using round_mono [OF F k(1)] by simp
  then have "\<not> round_fmt f64_fmt x \<le> - pow2 (emax f64_fmt + 1)"
    using pow2_pos [of k] pow2_pos [of "emax f64_fmt + 1"] by linarith
  then show ?thesis using r by (simp add: fround_def Let_def)
qed

lemma fp_ge_add: "fp_ge k x \<Longrightarrow> fp_nonneg y \<Longrightarrow> - 1000 \<le> k \<Longrightarrow> fp_ge k (add64 x y)"
  by (cases x; cases y) (auto intro!: f64_ge)

lemma fp_ge_add2: "fp_ge k y \<Longrightarrow> fp_nonneg x \<Longrightarrow> - 1000 \<le> k \<Longrightarrow> fp_ge k (add64 x y)"
  by (cases x; cases y) (auto intro!: f64_ge)

lemma fp_ge_mul: "fp_ge k x \<Longrightarrow> 1 \<le> c \<Longrightarrow> - 1000 \<le> k \<Longrightarrow> fp_ge k (mul64 x (Fin c))"
proof (cases x)
  case (Fin r)
  assume a: "fp_ge k x" "1 \<le> c" "- 1000 \<le> k"
  then have "0 < r" "pow2 k \<le> r" using Fin less_le_trans [OF pow2_pos, of k r] by simp_all
  moreover have "r * 1 \<le> r * c" using a(2) \<open>0 < r\<close> by (intro mult_left_mono) simp_all
  ultimately have "pow2 k \<le> r * c" by linarith
  then show ?thesis using Fin a(3) by (simp add: f64_ge)
qed (auto simp: signed_inf_def)

lemma as_secs_f64_ge:
  assumes "0 < d"
  shows "fp_ge (- 30) (as_secs_f64 d)"
proof -
  define G where "G = (10 :: nat) ^ 9"
  have G: "0 < G" "nat_as_f64 G = Fin (10 ^ 9)" "d mod G < 2 ^ 53"
    using nat_f64_exact [of G] mod_less_divisor [of G d] by (auto simp: G_def)
  let ?s = "nat_as_f64 (d div G)" and ?f = "f64 (of_nat (d mod G) / 10 ^ 9)"
  have secs: "as_secs_f64 d = add64 ?s ?f"
    unfolding as_secs_f64_def G_def [symmetric] G(2) nat_f64_exact [OF G(3)] by simp
  have p: "pow2 (- 30) = (1 :: rat) / 2 ^ 30" by (simp add: pow2_def)
  show ?thesis
  proof (cases "d div G = 0")
    case False
    then have "1 \<le> (of_nat (d div G) :: rat)" by (metis One_nat_def Suc_leI neq0_conv of_nat_1 of_nat_le_iff)
    then have "fp_ge (- 30) ?s" by (intro f64_ge) (simp_all add: p)
    then show ?thesis unfolding secs by (intro fp_ge_add) simp_all
  next
    case True
    then have "d mod G \<noteq> 0" using assms div_mult_mod_eq [of d G] by simp
    then have "1 \<le> (of_nat (d mod G) :: rat)" by (metis One_nat_def Suc_leI neq0_conv of_nat_1 of_nat_le_iff)
    then have "pow2 (- 30) \<le> (of_nat (d mod G) :: rat) / 10 ^ 9" by (simp add: p field_simps)
    then have "fp_ge (- 30) ?f" by (intro f64_ge) simp_all
    then show ?thesis unfolding secs by (intro fp_ge_add2) simp_all
  qed
qed

lemma zero_div: "fp_ge k x \<Longrightarrow> div64 (Fin 0) x = Fin 0"
  using less_le_trans [OF pow2_pos, of k 0] by (cases x) auto

section \<open>Properties\<close>

text \<open>The server program's metrics report is always empty: from the metrics that \<open>main\<close> sets up,
  which nothing else ever touches, every report after the start shows rates, times and
  totals of zero; only the uptime moves.\<close>

theorem server_report_shows_zeros:
  assumes "server_main L gen_range clock start bind out args = Serves s0 (Some metrics)" "start < now"
  shows "metrics_report now metrics =
    newline @ ''Performance Stats:'' @ newline @ ''  FPS: 0.0 captured, 0.0 encoded, 0.0 sent'' @ newline
    @ ''  Drop rate: 0.0%'' @ newline
    @ ''  Avg times: capture=0'' @ micro_s @ '', encode=0'' @ micro_s @ '', network=0'' @ micro_s @ newline
    @ ''  Throughput: 0.0 Mbps'' @ newline @ ''  Total frames: 0, Uptime: ''
    @ fmt_fixed 0 (as_secs_f64 (now - start)) @ ''s''"
proof -
  let ?e = "as_secs_f64 (now - start)"
  have m: "metrics = PerformanceMetrics_new start"
    using assms(1) by (cases "arg_transport args") (auto simp: server_main_def Let_def split: sum.splits if_splits)
  have e: "fp_ge (- 30) ?e" using as_secs_f64_ge assms(2) by simp
  have "f64 1000000 = Fin 1000000" using f64_of_int [of 1000000] by simp
  then have e6: "fp_ge (- 30) (mul64 ?e (f64 1000000))" using fp_ge_mul [OF e, of 1000000] by simp
  have "get_stats now metrics =
    \<lparr>ps_fps_captured = Fin 0, ps_fps_encoded = Fin 0, ps_fps_sent = Fin 0, ps_drop_rate = Fin 0,
     ps_avg_capture_time_us = Fin 0, ps_avg_encode_time_us = Fin 0, ps_avg_network_time_us = Fin 0,
     ps_throughput_mbps = Fin 0, ps_total_frames = 0, ps_uptime_seconds = ?e\<rparr>"
    using zero_div [OF e] zero_div [OF e6] f64_of_int [of 8] f64_of_int [of 1]
    by (simp add: m get_stats_def PerformanceMetrics_new_def MovingAverage_average_def MovingAverage_new_def
        elapsed_def duration_since_def Let_def)
  moreover have "char_of (48 :: nat) = CHR ''0''" by code_simp
  then have "fmt_fixed 1 (Fin 0) = ''0.0''" "fmt_fixed 0 (Fin 0) = ''0''" "nat_to_string 0 = ''0''"
    using rne_of_int [of 0] by (simp_all add: fixed_digits_def pad_left_def nat_to_string.simps [of 0])
  moreover have "mul64 (Fin 0) (f64 100) = Fin 0" using f64_of_int [of 100] by simp
  ultimately show ?thesis by (simp add: metrics_report_def PerformanceStats_fmt_def)
qed

text \<open>A server that is started with \<open>--metrics\<close>, five seconds later.\<close>

theorem server_report_shows_zeros_witness:
  "\<exists>s0 metrics rest. server_main (demo_libs []) (\<lambda>_. 1) 0 0 (\<lambda>_. Inr ()) (\<lambda>_. \<lparr>wr_written = [], wr_limit = None\<rparr>)
      \<lparr>arg_address = ''0.0.0.0:8080'', arg_transport = Tcp, arg_metrics = True\<rparr> = Serves s0 (Some metrics)
    \<and> metrics_report 5000000000 metrics = newline @ ''Performance Stats:'' @ rest"
proof -
  let ?args = "\<lparr>arg_address = ''0.0.0.0:8080'', arg_transport = Tcp, arg_metrics = True\<rparr>"
  obtain s0 metrics where m: "server_main (demo_libs []) (\<lambda>_. 1) 0 0 (\<lambda>_. Inr ())
      (\<lambda>_. \<lparr>wr_written = [], wr_limit = None\<rparr>) ?args = Serves s0 (Some metrics)"
    by (simp add: server_main_def AccessCode_generate_def unix_secs_def unix_duration_def Let_def)
  then show ?thesis using server_report_shows_zeros [OF m, of 5000000000] by fastforce
qed

end
