(* ===== verification/Server_Refinement.thy ===== *)
theory Server_Refinement
  imports Server_System
begin

text \<open>
  Two abstract specifications that the server of \<open>Server_System\<close> implements. The reference monitor
  \<open>access_after\<close> follows the events of an execution and computes which connections are members, and
  under which key; it knows nothing of buffers, sessions and tasks, and is related to the system by a
  simulation (\<open>trace_simulation\<close>). A history variable (\<open>hist_step\<close>) records for each connection the
  packets its channel has accepted; what has been written to the connection is read off this log.
\<close>

section \<open>The reference monitor\<close>

text \<open>The key of each connection, and who may be sent frames under which key.\<close>

record Access =
  acc_key :: "nat \<Rightarrow> CryptoSession option"
  acc_members :: "(nat \<times> CryptoSession) set"

definition access_init :: Access where
  "access_init = \<lparr>acc_key = (\<lambda>_. None), acc_members = {}\<rparr>"

text \<open>The key that both ends of a key exchange derive.\<close>

definition derived_key :: "libs \<Rightarrow> draws \<Rightarrow> bytes \<Rightarrow> CryptoSession" where
  "derived_key L d key = \<lparr>cs_cipher = cl_sha256 (lb_crypto L) (cl_dh (lb_crypto L) (dr_secret d) key)\<rparr>"

fun access_after :: "libs \<Rightarrow> AccessCode \<Rightarrow> sys_event \<Rightarrow> Access \<Rightarrow> Access" where
  "access_after L ac (Ev_Accept c) a = a\<lparr>acc_key := (acc_key a)(c := None)\<rparr>"
| "access_after L ac (Ev_Message c d (Msg_KeyExchange key)) a =
     a\<lparr>acc_key := (acc_key a)(c := Some (derived_key L d key))\<rparr>"
| "access_after L ac (Ev_Message c d (Msg_AuthRequest code)) a =
     (case acc_key a c of
        None \<Rightarrow> a
      | Some K \<Rightarrow>
          if AccessCode_verify (cl_sha256 (lb_crypto L)) ac (dr_clock d 0) code = Inr True
          then a\<lparr>acc_members := insert (c, K) (acc_members a)\<rparr> else a)"
| "access_after L ac _ a = a"

abbreviation members :: "libs \<Rightarrow> AccessCode \<Rightarrow> sys_event list \<Rightarrow> (nat \<times> CryptoSession) set" where
  "members L ac tr \<equiv> acc_members (fold (access_after L ac) tr access_init)"

definition access_sim :: "AccessCode \<Rightarrow> System \<Rightarrow> Access \<Rightarrow> bool" where
  "access_sim ac s a \<longleftrightarrow>
     sh_access_code (sys_shared s) = Some ac
     \<and> (\<forall>c h b. sys_tasks s c = Some (h, b) \<longrightarrow> hc_conn h = c \<and> hc_crypto_session h = acc_key a c)
     \<and> (\<forall>i sess. sh_sessions (sys_shared s) i = Some sess \<longrightarrow> (sess_tx sess, sess_crypto sess) \<in> acc_members a)"

lemma on_auth_request_crypto:
  "on_auth_request L d code h sh = ((h', sh'), r) \<Longrightarrow> hc_crypto_session h' = hc_crypto_session h"
  by (erule on_auth_request_cases) simp_all

lemma quality_handler:
  "on_start_stream L d h sh = ((h', sh'), r) \<Longrightarrow> h' = h"
  "on_frame_ack d t t' h sh = ((h', sh'), r) \<Longrightarrow> h' = h"
  "on_request_quality L d q h sh = ((h', sh'), r) \<Longrightarrow> h' = h"
  by (auto simp: on_start_stream_def on_frame_ack_def on_request_quality_def Let_def
      split: option.splits prod.splits)

lemma go_on_ok: "go_on sr = (s, Inr f) \<Longrightarrow> sr = (s, Inr ())"
  by (auto simp: go_on_def and_then_def split: prod.splits sum.splits)

text \<open>Only a key exchange changes a task's key.\<close>

lemma handle_message_crypto:
  assumes "handle_message L d m h sh = ((h', sh'), Inr f)"
  shows "hc_crypto_session h' =
    (case m of Msg_KeyExchange key \<Rightarrow> Some (derived_key L d key) | _ \<Rightarrow> hc_crypto_session h)"
  using assms
  by (cases m) (auto simp: input_defs derived_key_def dest!: go_on_ok
      dest: on_auth_request_crypto on_key_exchange_cases replay_frame(1) quality_handler)

text \<open>Serving a frame keeps every session's identifier, channel and key.\<close>

definition endpoint :: "ClientSession \<Rightarrow> nat \<times> CryptoSession" where
  "endpoint sess = (sess_tx sess, sess_crypto sess)"

definition identity :: "ClientSession \<Rightarrow> string \<times> nat \<times> CryptoSession" where
  "identity sess = (sess_id sess, endpoint sess)"

lemma serve_one_identity:
  "map_option identity (sh_sessions (serve_one L env f i sh) j) = map_option identity (sh_sessions sh j)"
proof (cases "sh_sessions sh i")
  case (Some s)
  obtain s' sh' where r: "serve_session L (env i) f s sh = (s', sh')" by force
  then show ?thesis
    using Some serve_session_fields [OF r]
    by (simp add: serve_one_def same_but_chan_def identity_def endpoint_def)
qed (simp add: serve_one_def)

lemma serve_frame_identity:
  "map_option identity (sh_sessions (serve_frame L env f ids sh) j) = map_option identity (sh_sessions sh j)"
  unfolding serve_frame_def by (induction ids arbitrary: sh) (simp_all add: serve_one_identity)

lemma serve_frame_old:
  assumes "sh_sessions (serve_frame L env f ids sh) j = Some x"
  obtains y where "sh_sessions sh j = Some y" "identity x = identity y"
  using serve_frame_identity [of L env f ids sh j] assms by (cases "sh_sessions sh j") auto

lemma prepare_crypto:
  assumes "prepare L d m h sh = Some ((h', sh'), r)"
  shows "hc_crypto_session h' = hc_crypto_session h \<and> (\<forall>key. m \<noteq> Msg_KeyExchange key)"
  using assms by (cases rule: prepare_cases) (use assms in auto)

lemma access_sim_message:
  assumes sim: "access_sim ac s a" and task: "sys_tasks s c = Some (h, True)"
    and hm: "handles L d m (taken h rest) (sys_shared s) h' sh'"
  defines "a' \<equiv> access_after L ac (Ev_Message c d m) a"
  shows "hc_conn h' = c" "sh_access_code sh' = Some ac"
    "handle_message L d m (taken h rest) (sys_shared s) = ((h', sh'), Inr f)
      \<or> prepare L d m (taken h rest) (sys_shared s) = Some ((h', sh'), r) \<Longrightarrow>
     hc_crypto_session h' = acc_key a' c"
    "c' \<noteq> c \<Longrightarrow> acc_key a' c' = acc_key a c'"
    "sh_sessions sh' i = Some sess \<Longrightarrow> (sess_tx sess, sess_crypto sess) \<in> acc_members a'"
proof -
  have c: "hc_conn h = c" "hc_crypto_session h = acc_key a c" using sim task by (auto simp: access_sim_def)
  show "hc_conn h' = c" "sh_access_code sh' = Some ac"
    using handles_frame [OF hm] c sim by (auto simp: handler_frame_def taken_def access_sim_def)
  have "hc_crypto_session h' = (case m of Msg_KeyExchange key \<Rightarrow> Some (derived_key L d key) | _ \<Rightarrow> acc_key a c)"
    if "handle_message L d m (taken h rest) (sys_shared s) = ((h', sh'), Inr f)
      \<or> prepare L d m (taken h rest) (sys_shared s) = Some ((h', sh'), r)"
    using that
  proof
    assume "handle_message L d m (taken h rest) (sys_shared s) = ((h', sh'), Inr f)"
    from handle_message_crypto [OF this] show ?thesis using c by (cases m) (simp_all add: taken_def)
  next
    assume "prepare L d m (taken h rest) (sys_shared s) = Some ((h', sh'), r)"
    from prepare_crypto [OF this] show ?thesis using c by (cases m) (simp_all add: taken_def)
  qed
  then show "hc_crypto_session h' = acc_key a' c"
    if "handle_message L d m (taken h rest) (sys_shared s) = ((h', sh'), Inr f)
      \<or> prepare L d m (taken h rest) (sys_shared s) = Some ((h', sh'), r)"
    using that by (cases m) (auto simp: a'_def split: option.splits)
  show "acc_key a' c' = acc_key a c'" if "c' \<noteq> c"
    using that by (cases m) (auto simp: a'_def split: option.splits)
  have mono: "acc_members a \<subseteq> acc_members a'" by (cases m) (auto simp: a'_def split: option.splits)
  assume "sh_sessions sh' i = Some sess"
  from handles_sessions [OF hm this]
  show "(sess_tx sess, sess_crypto sess) \<in> acc_members a'"
  proof
    assume "\<exists>s0. sh_sessions (sys_shared s) i = Some s0 \<and> sess_tx sess = sess_tx s0
      \<and> sess_crypto sess = sess_crypto s0 \<and> sess_id sess = sess_id s0"
    then show ?thesis using sim mono by (fastforce simp: access_sim_def)
  next
    assume "\<exists>code stored. m = Msg_AuthRequest code \<and> sess_tx sess = hc_conn (taken h rest) \<and> sess_id sess = i
      \<and> hc_crypto_session (taken h rest) = Some (sess_crypto sess)
      \<and> sh_access_code (sys_shared s) = Some stored
      \<and> AccessCode_verify (cl_sha256 (lb_crypto L)) stored (dr_clock d 0) code = Inr True"
    then show ?thesis using c sim by (auto simp: a'_def taken_def access_sim_def)
  qed
qed

text \<open>A step that is no message and accepts no connection: tasks keep their key, sessions their
  endpoint.\<close>

lemma access_sim_keep:
  assumes "access_sim ac s a" "sh_access_code (sys_shared s') = sh_access_code (sys_shared s)"
    and "\<And>c h b. sys_tasks s' c = Some (h, b) \<Longrightarrow>
      \<exists>h0 b0. sys_tasks s c = Some (h0, b0) \<and> hc_conn h = hc_conn h0 \<and> hc_crypto_session h = hc_crypto_session h0"
    and "\<And>i x. sh_sessions (sys_shared s') i = Some x \<Longrightarrow>
      \<exists>y. sh_sessions (sys_shared s) i = Some y \<and> endpoint x = endpoint y"
  shows "access_sim ac s' a"
  unfolding access_sim_def
proof (intro conjI allI impI)
  show "sh_access_code (sys_shared s') = Some ac" using assms(1,2) by (simp add: access_sim_def)
next
  fix c h b assume "sys_tasks s' c = Some (h, b)"
  then show "hc_conn h = c" "hc_crypto_session h = acc_key a c"
    using assms(1) assms(3) [of c h b] by (auto simp: access_sim_def)
next
  fix i x assume "sh_sessions (sys_shared s') i = Some x"
  then show "(sess_tx x, sess_crypto x) \<in> acc_members a"
    using assms(1) assms(4) [of i x] by (auto simp: access_sim_def endpoint_def)
qed

lemma access_sim_step:
  assumes sim: "access_sim ac s a" and step: "sys_step L s ev s'"
  shows "access_sim ac s' (access_after L ac ev a)"
  using step
proof (cases rule: sys_step.cases)
  case (accept c h sh)
  then show ?thesis using sim by (auto simp: access_sim_def accept_client_def)
next
  case (read c h bs)
  then show ?thesis by (simp, intro access_sim_keep [OF sim]) (auto split: if_splits)
next
  case (idle c h)
  then show ?thesis by (simp, intro access_sim_keep [OF sim]) (auto split: if_splits)
next
  case (message c h p rest m d h' sh' f)
  note m = access_sim_message [OF sim message(3) handlesI(1) [OF message(6)]]
  show ?thesis using message(1,2,6) m(1,2) m(3) [of f] m(4,5) sim
    by (auto simp: access_sim_def split: if_splits)
next
  case (failed c h p rest m d h' sh' e)
  note m = access_sim_message [OF sim failed(3) handlesI(1) [OF failed(6)]]
  show ?thesis using failed(1,2) m(2,4,5) sim by (auto simp: access_sim_def split: if_splits)
next
  case (prepared c h p rest m d h' sh' answer)
  note m = access_sim_message [OF sim prepared(3) handlesI(2) [OF prepared(6)]]
  show ?thesis using prepared(1,2,6) m(1,2) m(3) [of _ "Inr answer"] m(4,5) sim
    by (auto simp: access_sim_def split: if_splits)
next
  case (replied c h nonce answer sh')
  then show ?thesis using send_encrypted_frame [OF replied(5)]
    by (simp, intro access_sim_keep [OF sim]) (auto simp: same_but_chan_def)
next
  case (reply_failed c h nonce answer sh' e)
  then show ?thesis using send_encrypted_frame [OF reply_failed(5)]
    by (simp, intro access_sim_keep [OF sim]) (auto simp: same_but_chan_def split: if_splits)
next
  case (frame ids env f)
  have "\<exists>y. sh_sessions (sys_shared s) i = Some y \<and> endpoint x = endpoint y"
    if "sh_sessions (serve_frame L env f ids (sys_shared s)) i = Some x" for i x
    using that by (rule serve_frame_old) (simp add: identity_def)
  then show ?thesis using frame
    by (simp, intro access_sim_keep [OF sim]) (simp_all add: serve_frame_sessions(2))
next
  case (sent c w sh)
  then show ?thesis using writer_step_frame [OF sent(4)] by (simp, intro access_sim_keep [OF sim]) simp_all
next
  case (eof c h part)
  then show ?thesis
    by (simp, intro access_sim_keep [OF sim]) (auto simp: cleanup_frame(1) split: if_splits dest: cleanup_frame(2))
next
  case (reject c h p rest e)
  then show ?thesis by (simp, intro access_sim_keep [OF sim]) (auto split: if_splits)
next
  case (read_error c h)
  then show ?thesis by (simp, intro access_sim_keep [OF sim]) (auto split: if_splits)
qed

interpretation acc: trace_simulation "sys_step L" "\<lambda>a e a'. a' = access_after L ac e a" "access_sim ac" access_init
  for L ac
  by unfold_locales (blast intro: access_sim_step)

lemma access_run:
  assumes "sys_run L (sys_init ac out) tr s"
  shows "access_sim ac s (fold (access_after L ac) tr access_init)"
proof -
  have "access_sim ac (sys_init ac out) access_init"
    by (simp add: access_sim_def access_init_def sys_init_def Server_new_def)
  then obtain a where "run_of (\<lambda>a e a'. a' = access_after L ac e a) access_init tr a" "access_sim ac s a"
    using acc.matched_run [OF assms] by blast
  then show ?thesis using run_of_fun [of "access_after L ac" access_init tr a] by simp
qed

section \<open>What a frame puts on a channel\<close>

text \<open>The packets \<open>ps\<close> are the frame's message, sealed for sessions of the connection.\<close>

definition frame_packets :: "libs \<Rightarrow> CapturedFrame \<Rightarrow> (nat \<times> CryptoSession) set \<Rightarrow> nat \<Rightarrow> bytes list \<Rightarrow> bool" where
  "frame_packets L f ends c ps \<longleftrightarrow>
     (\<forall>p \<in> set ps. \<exists>m n K. frame_message f = Some m \<and> length n = 12 \<and> seal_message L n m (Some K) = Inr p
        \<and> (c, K) \<in> ends)"

definition endpoints :: "Shared \<Rightarrow> (nat \<times> CryptoSession) set" where
  "endpoints sh = {endpoint s |i s. sh_sessions sh i = Some s}"

lemma endpoints_iff: "e \<in> endpoints sh \<longleftrightarrow> (\<exists>i j. map_option identity (sh_sessions sh i) = Some (j, e))"
  by (force simp: endpoints_def identity_def)

lemma serve_one_endpoints [simp]: "endpoints (serve_one L env f i sh) = endpoints sh"
  by (auto simp only: endpoints_iff serve_one_identity)

lemma serve_session_sends:
  assumes "serve_session L d f s sh = (s', sh')"
  shows "sh' = sh \<or> (\<exists>m p. frame_message f = Some m \<and> seal_message L (dr_nonce d) m (Some (sess_crypto s)) = Inr p
    \<and> sh' = fst (chan_send (sess_tx s) p sh))"
  using assms
  by (auto simp: serve_session_def Let_def seal_message_def
      split: prod.splits if_splits option.splits sum.splits)

lemma chan_send_queue:
  "ch_queue (sh_chans (fst (chan_send tx p sh)) c) =
    ch_queue (sh_chans sh c) @ (if c = tx \<and> ch_open (sh_chans sh tx) then [p] else [])"
  "ch_open (sh_chans (fst (chan_send tx p sh)) c) = ch_open (sh_chans sh c)"
  by (simp_all add: chan_send_def Let_def)

lemma serve_one_packets:
  assumes "\<forall>i. length (dr_nonce (env i)) = 12"
  shows "\<exists>ps. ch_queue (sh_chans (serve_one L env f i sh) c) = ch_queue (sh_chans sh c) @ ps
    \<and> ch_open (sh_chans (serve_one L env f i sh) c) = ch_open (sh_chans sh c)
    \<and> (\<not> ch_open (sh_chans sh c) \<longrightarrow> ps = []) \<and> frame_packets L f (endpoints sh) c ps"
proof (cases "sh_sessions sh i")
  case None
  then show ?thesis by (simp add: serve_one_def frame_packets_def)
next
  case (Some s)
  obtain s' sh' where r: "serve_session L (env i) f s sh = (s', sh')" by force
  then have ch: "sh_chans (serve_one L env f i sh) = sh_chans sh'" using Some by (simp add: serve_one_def)
  have e: "(sess_tx s, sess_crypto s) \<in> endpoints sh" using Some by (auto simp: endpoints_def endpoint_def)
  from serve_session_sends [OF r] show ?thesis
  proof
    assume "sh' = sh"
    then show ?thesis using ch by (simp add: frame_packets_def)
  next
    assume "\<exists>m p. frame_message f = Some m \<and> seal_message L (dr_nonce (env i)) m (Some (sess_crypto s)) = Inr p
      \<and> sh' = fst (chan_send (sess_tx s) p sh)"
    then obtain m p where "frame_message f = Some m"
      "seal_message L (dr_nonce (env i)) m (Some (sess_crypto s)) = Inr p"
      "sh' = fst (chan_send (sess_tx s) p sh)" by blast
    then show ?thesis using ch e
      by (intro exI [of _ "if c = sess_tx s \<and> ch_open (sh_chans sh (sess_tx s)) then [p] else []"])
        (use assms in \<open>auto simp: chan_send_queue frame_packets_def\<close>)
  qed
qed

lemma serve_frame_packets:
  assumes "\<forall>i. length (dr_nonce (env i)) = 12"
  shows "\<exists>ps. ch_queue (sh_chans (serve_frame L env f ids sh) c) = ch_queue (sh_chans sh c) @ ps
    \<and> ch_open (sh_chans (serve_frame L env f ids sh) c) = ch_open (sh_chans sh c)
    \<and> (\<not> ch_open (sh_chans sh c) \<longrightarrow> ps = []) \<and> frame_packets L f (endpoints sh) c ps"
  unfolding serve_frame_def
proof (induction ids arbitrary: sh)
  case Nil
  then show ?case by (simp add: frame_packets_def)
next
  case (Cons i ids)
  obtain ps where ps: "ch_queue (sh_chans (serve_one L env f i sh) c) = ch_queue (sh_chans sh c) @ ps"
    "ch_open (sh_chans (serve_one L env f i sh) c) = ch_open (sh_chans sh c)"
    "\<not> ch_open (sh_chans sh c) \<longrightarrow> ps = []" "frame_packets L f (endpoints sh) c ps"
    using serve_one_packets [OF assms] by blast
  obtain qs where "ch_queue (sh_chans (fold (serve_one L env f) ids (serve_one L env f i sh)) c)
      = ch_queue (sh_chans (serve_one L env f i sh) c) @ qs"
    "ch_open (sh_chans (fold (serve_one L env f) ids (serve_one L env f i sh)) c)
      = ch_open (sh_chans (serve_one L env f i sh) c)"
    "\<not> ch_open (sh_chans (serve_one L env f i sh) c) \<longrightarrow> qs = []"
    "frame_packets L f (endpoints (serve_one L env f i sh)) c qs"
    using Cons.IH by blast
  then show ?case using ps by (intro exI [of _ "ps @ qs"]) (auto simp: frame_packets_def)
qed

section \<open>What a message puts on a channel\<close>

text \<open>A message only appends to the queue of its own connection.\<close>

definition chan_extends :: "nat \<Rightarrow> Shared \<Rightarrow> Shared \<Rightarrow> bool" where
  "chan_extends c sh sh' \<longleftrightarrow>
     (\<exists>ps. ch_queue (sh_chans sh' c) = ch_queue (sh_chans sh c) @ ps
        \<and> ch_open (sh_chans sh' c) = ch_open (sh_chans sh c) \<and> (\<not> ch_open (sh_chans sh c) \<longrightarrow> ps = []))"

lemma chan_extends_same [simp]: "sh_chans sh' c = sh_chans sh c \<Longrightarrow> chan_extends c sh sh'"
  by (simp add: chan_extends_def)

lemma chan_send_extends: "chan_send tx p sh = (sh', r) \<Longrightarrow> chan_extends tx sh sh'"
  using chan_send_queue [of tx p sh tx] by (auto simp: chan_extends_def)

lemma send_encrypted_extends: "send_encrypted L n tx m K sh = (sh', r) \<Longrightarrow> chan_extends tx sh sh'"
  by (auto simp: send_encrypted_def and_then_def split: sum.splits dest: chan_send_extends)

lemma chan_extends_cong: "sh_chans sh1 = sh_chans sh \<Longrightarrow> chan_extends c sh1 sh' \<longleftrightarrow> chan_extends c sh sh'"
  by (simp add: chan_extends_def)

lemma on_auth_request_extends:
  assumes "on_auth_request L d code h sh = ((h', sh'), r)"
  shows "chan_extends (hc_conn h) sh sh'"
proof (cases "\<exists>K resp. hc_crypto_session h = Some K \<and> handle_auth L (dr_clock d 0) code (sh_access_code sh) = Inr resp")
  case False
  then have "sh' = sh" using assms
    by (cases "hc_crypto_session h"; cases "handle_auth L (dr_clock d 0) code (sh_access_code sh)")
      (auto simp: auth_defs)
  then show ?thesis by simp
next
  case True
  then obtain K resp where k: "hc_crypto_session h = Some K"
    "handle_auth L (dr_clock d 0) code (sh_access_code sh) = Inr resp" by blast
  show ?thesis
  proof (cases "aresp_success resp")
    case False
    then show ?thesis using assms k
      by (auto simp: auth_defs split: prod.splits dest: send_encrypted_extends)
  next
    case True
    obtain h1 sh1 q where os: "open_session d K h sh = ((h1, sh1), q)" by (metis prod.exhaust)
    then have "sh_chans sh1 = sh_chans sh" "hc_conn h1 = hc_conn h" by (cases rule: open_session_cases; simp)+
    then show ?thesis using assms k True os chan_extends_cong [of sh1 sh]
      by (cases q) (auto simp: auth_defs split: prod.splits dest: send_encrypted_extends)
  qed
qed

lemma on_key_exchange_extends:
  "on_key_exchange L d key h sh = ((h', sh'), r) \<Longrightarrow> chan_extends (hc_conn h) sh sh'"
  by (auto simp: on_key_exchange_def Let_def and_then_def split: sum.splits prod.splits
      dest: chan_send_extends)

lemma quality_extends:
  "on_start_stream L d h sh = ((h', sh'), r) \<Longrightarrow> chan_extends (hc_conn h) sh sh'"
  "on_request_quality L d q h sh = ((h', sh'), r) \<Longrightarrow> chan_extends (hc_conn h) sh sh'"
  using chan_extends_cong [of "put_controller i ctl sh" sh for i ctl]
  by (auto simp: on_start_stream_def on_request_quality_def Let_def split: option.splits prod.splits
      dest!: send_encrypted_extends)

lemma handle_message_extends:
  assumes "handle_message L d m h sh = ((h', sh'), r)"
  shows "chan_extends (hc_conn h) sh sh'"
  using assms
proof (cases rule: handle_message_cases)
  case (auth code u)
  then show ?thesis by (simp add: on_auth_request_extends)
next
  case (key key u)
  then show ?thesis by (rule on_key_exchange_extends)
next
  case (start u)
  then show ?thesis by (rule quality_extends)
next
  case (input act u)
  then show ?thesis using replay_frame [OF input] by simp
next
  case (ack t t' u)
  then show ?thesis by (auto simp: on_frame_ack_def Let_def split: option.splits prod.splits)
next
  case (mode q u)
  then show ?thesis by (rule quality_extends)
qed simp

lemma handles_extends:
  assumes "handles L d m h sh h' sh'"
  shows "chan_extends (hc_conn h) sh sh'"
  using assms unfolding handles_def
proof (elim disjE exE)
  fix r assume "prepare L d m h sh = Some ((h', sh'), r)"
  then show ?thesis by (cases rule: prepare_cases) simp_all
qed (rule handle_message_extends)

section \<open>Well-formed states\<close>

text \<open>
  Tasks and sessions are filed under their own names, belong to connections that have been accepted,
  and only such connections have a channel; a closed channel is empty.
\<close>

definition sys_wf :: "System \<Rightarrow> bool" where
  "sys_wf s \<longleftrightarrow>
     (\<forall>c h b. sys_tasks s c = Some (h, b) \<longrightarrow> hc_conn h = c \<and> c < sys_next s)
     \<and> (\<forall>i x. sh_sessions (sys_shared s) i = Some x \<longrightarrow> sess_id x = i \<and> sess_tx x < sys_next s)
     \<and> (\<forall>c. if ch_open (sh_chans (sys_shared s) c) then c < sys_next s
            else ch_queue (sh_chans (sys_shared s) c) = [])"

lemma sys_wfD:
  assumes "sys_wf s"
  shows "sys_tasks s c = Some (h, b) \<Longrightarrow> hc_conn h = c \<and> c < sys_next s"
    "sh_sessions (sys_shared s) i = Some x \<Longrightarrow> sess_id x = i \<and> sess_tx x < sys_next s"
    "ch_open (sh_chans (sys_shared s) c) \<Longrightarrow> c < sys_next s"
    "\<not> ch_open (sh_chans (sys_shared s) c) \<Longrightarrow> ch_queue (sh_chans (sys_shared s) c) = []"
  using assms unfolding sys_wf_def by (blast, blast, metis, metis)

lemma sys_wf_keep:
  assumes "sys_wf s" "sys_next s' = sys_next s"
    and "\<And>c h b. sys_tasks s' c = Some (h, b) \<Longrightarrow> \<exists>h0 b0. sys_tasks s c = Some (h0, b0) \<and> hc_conn h = hc_conn h0"
    and "\<And>i x. sh_sessions (sys_shared s') i = Some x \<Longrightarrow>
      \<exists>y. sh_sessions (sys_shared s) i = Some y \<and> identity x = identity y"
    and "\<And>c. chan_extends c (sys_shared s) (sys_shared s') \<or>
      ch_queue (sh_chans (sys_shared s') c) = [] \<and> \<not> ch_open (sh_chans (sys_shared s') c)"
  shows "sys_wf s'"
  unfolding sys_wf_def
proof (intro conjI allI impI)
  fix c h b assume "sys_tasks s' c = Some (h, b)"
  then show "hc_conn h = c" "c < sys_next s'"
    using assms(2) assms(3) [of c h b] sys_wfD(1) [OF assms(1)] by auto
next
  fix i x assume "sh_sessions (sys_shared s') i = Some x"
  then show "sess_id x = i" "sess_tx x < sys_next s'"
    using assms(2) assms(4) [of i x] sys_wfD(2) [OF assms(1)] by (auto simp: identity_def endpoint_def)
next
  fix c
  show "if ch_open (sh_chans (sys_shared s') c) then c < sys_next s'
        else ch_queue (sh_chans (sys_shared s') c) = []"
    using assms(2) assms(5) [of c] sys_wfD(3,4) [OF assms(1)] by (auto simp: chan_extends_def)
qed

lemma sys_wf_message:
  assumes wf: "sys_wf s" and task: "sys_tasks s c = Some (h, True)"
    and hm: "handles L d m (taken h rest) (sys_shared s) h' sh'"
    and tasks: "t' = (sys_tasks s)(c := None) \<or> t' = (sys_tasks s)(c \<mapsto> (h', b))"
  shows "sys_wf (s\<lparr>sys_shared := sh', sys_tasks := t', sys_pending := q\<rparr>)"
proof -
  have c: "hc_conn (taken h rest) = c" "c < sys_next s"
    using sys_wfD(1) [OF wf task] by (simp_all add: taken_def)
  have fr: "hc_conn h' = c" "\<And>c'. c' \<noteq> c \<Longrightarrow> sh_chans sh' c' = sh_chans (sys_shared s) c'"
    using handles_frame [OF hm] c by (auto simp: handler_frame_def)
  have ext: "chan_extends c' (sys_shared s) sh'" for c'
    using handles_extends [OF hm] fr(2) c(1) by (cases "c' = c") simp_all
  have "sess_id x = i \<and> sess_tx x < sys_next s" if "sh_sessions sh' i = Some x" for i x
    using handles_sessions [OF hm that] sys_wfD(2) [OF wf] c by auto
  moreover have "hc_conn k = c' \<and> c' < sys_next s" if "t' c' = Some (k, b')" for c' k b'
    using that tasks fr(1) c(2) sys_wfD(1) [OF wf] by (auto split: if_splits)
  moreover have "if ch_open (sh_chans sh' c') then c' < sys_next s else ch_queue (sh_chans sh' c') = []" for c'
    using ext [of c'] sys_wfD(3,4) [OF wf, of c'] by (auto simp: chan_extends_def)
  ultimately show ?thesis unfolding sys_wf_def by simp
qed

lemma sys_wf_step:
  assumes wf: "sys_wf s" and step: "sys_step L s ev s'"
  shows "sys_wf s'"
  using step
proof (cases rule: sys_step.cases)
  case (accept c h sh)
  then show ?thesis using wf
    by (auto simp: sys_wf_def accept_client_def less_Suc_eq split: if_splits)
next
  case (message c h p rest m d h' sh' f)
  then show ?thesis
    using sys_wf_message [OF wf message(3) handlesI(1) [OF message(6)], of "(sys_tasks s)(c \<mapsto> (h', f = Next))" "f = Next" "sys_pending s"]
    by simp
next
  case (failed c h p rest m d h' sh' e)
  then show ?thesis
    using sys_wf_message [OF wf failed(3) handlesI(1) [OF failed(6)], of "(sys_tasks s)(c := None)" _ "sys_pending s"]
    by simp
next
  case (prepared c h p rest m d h' sh' answer)
  then show ?thesis using sys_wf_message [OF wf prepared(3) handlesI(2) [OF prepared(6)]] by auto
next
  case (replied c h nonce answer sh')
  then have "chan_extends c' (sys_shared s) sh'" for c'
    using send_encrypted_frame [OF replied(5)] send_encrypted_extends [OF replied(5)]
    by (cases "c' = hc_conn h") (simp_all add: same_but_chan_def)
  then show ?thesis using replied send_encrypted_frame [OF replied(5)]
    by (simp, intro sys_wf_keep [OF wf]) (auto simp: same_but_chan_def)
next
  case (reply_failed c h nonce answer sh' e)
  then have "chan_extends c' (sys_shared s) sh'" for c'
    using send_encrypted_frame [OF reply_failed(5)] send_encrypted_extends [OF reply_failed(5)]
    by (cases "c' = hc_conn h") (simp_all add: same_but_chan_def)
  then show ?thesis using reply_failed send_encrypted_frame [OF reply_failed(5)]
    by (simp, intro sys_wf_keep [OF wf]) (auto simp: same_but_chan_def split: if_splits)
next
  case (frame ids env f)
  have "chan_extends c (sys_shared s) (serve_frame L env f ids (sys_shared s))" for c
    using serve_frame_packets [OF frame(5), of L f ids "sys_shared s" c] by (auto simp: chan_extends_def)
  moreover have "\<exists>y. sh_sessions (sys_shared s) i = Some y \<and> identity x = identity y"
    if "sh_sessions (serve_frame L env f ids (sys_shared s)) i = Some x" for i x
    using that by (rule serve_frame_old) simp
  ultimately show ?thesis using frame by (simp, intro sys_wf_keep [OF wf]) simp_all
next
  case (sent c w sh)
  have "sys_wf (s\<lparr>sys_shared := sh\<rparr>)"
    using sent(4) sys_wfD [OF wf] wf unfolding sys_wf_def
    by (auto simp: writer_step_def split: list.splits prod.splits sum.splits if_splits)
  then show ?thesis using sent(2) by (auto simp: sys_wf_def split: if_splits)
next
  case (eof c h part)
  then show ?thesis
    by (simp, intro sys_wf_keep [OF wf])
      (auto simp: cleanup_def Let_def split: if_splits option.splits)
qed (simp_all, (intro sys_wf_keep [OF wf]; auto split: if_splits)+)

interpretation wf: trace_invariant "sys_step L" "\<lambda>_. sys_wf" for L
  by unfold_locales (rule sys_wf_step)

lemma sys_run_wf:
  assumes "sys_run L (sys_init ac out) tr s"
  shows "sys_wf s"
proof -
  have "sys_wf (sys_init ac out)" by (simp add: sys_wf_def sys_init_def Server_new_def)
  then show ?thesis by (rule wf.inv_run [OF assms])
qed

section \<open>The history of a channel\<close>

abbreviation queue :: "nat \<Rightarrow> System \<Rightarrow> bytes list" where
  "queue c s \<equiv> ch_queue (sh_chans (sys_shared s) c)"

abbreviation written :: "nat \<Rightarrow> System \<Rightarrow> bytes" where
  "written c s \<equiv> wr_written (sys_out s c)"

text \<open>What a step puts into the queue of a connection: all it adds at the end. (A turn of the writer
  and the end of the connection only take from the queue.)\<close>

definition accepted :: "sys_event \<Rightarrow> System \<Rightarrow> System \<Rightarrow> nat \<Rightarrow> bytes list" where
  "accepted e s s' c =
     (if e = Ev_Write c \<or> e = Ev_Eof c then [] else drop (length (queue c s)) (queue c s'))"

text \<open>The system with a log of what each channel has accepted since the start. The log is computed
  from the steps and has no influence on them.\<close>

definition hist_step ::
  "libs \<Rightarrow> System \<times> (nat \<Rightarrow> bytes list) \<Rightarrow> sys_event \<Rightarrow> System \<times> (nat \<Rightarrow> bytes list) \<Rightarrow> bool" where
  "hist_step L sl e sl' \<longleftrightarrow>
     sys_step L (fst sl) e (fst sl') \<and> snd sl' = (\<lambda>c. snd sl c @ accepted e (fst sl) (fst sl') c)"

abbreviation hist_run ::
  "libs \<Rightarrow> System \<Rightarrow> sys_event list \<Rightarrow> System \<Rightarrow> (nat \<Rightarrow> bytes list) \<Rightarrow> bool" where
  "hist_run L s tr s' lg \<equiv> run_of (hist_step L) (s, \<lambda>_. []) tr (s', lg)"

lemma hist_run_sys:
  assumes "run_of (hist_step L) sl tr sl'"
  shows "sys_run L (fst sl) tr (fst sl')"
  using assms
proof (induction rule: run_of.induct)
  case (start sl)
  then show ?case by (rule run_of.start)
next
  case (snoc sl tr sl' e sl'')
  then show ?case using sys_run_snoc unfolding hist_step_def by blast
qed

lemma sys_run_hist:
  assumes "sys_run L s tr s'"
  shows "\<exists>lg. hist_run L s tr s' lg"
  using assms
proof (induction rule: run_of.induct)
  case (start s)
  show ?case by (rule exI) (rule run_of.start)
next
  case (snoc s tr s' e s'')
  then obtain lg where "hist_run L s tr s' lg" by blast
  moreover have "hist_step L (s', lg) e (s'', \<lambda>c. lg c @ accepted e s' s'' c)"
    using snoc.hyps(2) by (simp add: hist_step_def)
  ultimately show ?case by (intro exI) (rule run_of.snoc)
qed

text \<open>A step other than a turn of its writer or its end leaves the stream of a connection alone and
  only appends to its queue, or opens it.\<close>

lemma other_step:
  assumes wf: "sys_wf s" and step: "sys_step L s e s'" and other: "e \<noteq> Ev_Write c" "e \<noteq> Ev_Eof c"
  shows "sys_out s' c = sys_out s c
    \<and> (chan_extends c (sys_shared s) (sys_shared s')
       \<or> e = Ev_Accept c \<and> c = sys_next s \<and> sh_chans (sys_shared s') c = \<lparr>ch_queue = [], ch_open = True\<rparr>)"
proof -
  have msg: "chan_extends c (sys_shared s) sh'"
    if "handles L d m (taken h rest) (sys_shared s) h' sh'" for d m h rest h' sh'
    using handles_frame [OF that] handles_extends [OF that]
    by (cases "c = hc_conn (taken h rest)") (simp_all add: handler_frame_def)
  have answer: "chan_extends c (sys_shared s) sh'"
    if "send_encrypted L n tx m K (sys_shared s) = (sh', r)" for n tx m K sh' r
    using send_encrypted_frame [OF that] send_encrypted_extends [OF that]
    by (cases "c = tx") (simp_all add: same_but_chan_def)
  from step show ?thesis
  proof (cases rule: sys_step.cases)
    case (accept k h sh)
    then show ?thesis by (cases "k = c") (auto simp: accept_client_def)
  next
    case (message k h p rest m d h' sh' f)
    then show ?thesis using msg [OF handlesI(1) [OF message(6)]] by simp
  next
    case (failed k h p rest m d h' sh' er)
    then show ?thesis using msg [OF handlesI(1) [OF failed(6)]] by simp
  next
    case (prepared k h p rest m d h' sh' ans)
    then show ?thesis using msg [OF handlesI(2) [OF prepared(6)]] by simp
  next
    case (replied k h n ans sh')
    then show ?thesis using answer [OF replied(5)] by simp
  next
    case (reply_failed k h n ans sh' er)
    then show ?thesis using answer [OF reply_failed(5)] by simp
  next
    case (frame ids env f)
    then show ?thesis using serve_frame_packets [OF frame(5), of L f ids "sys_shared s" c]
      by (auto simp: chan_extends_def)
  next
    case (eof k h part)
    then have "k \<noteq> c" "hc_conn h = k" using other sys_wfD(1) [OF wf] by auto
    then show ?thesis using eof by (auto simp: cleanup_def Let_def split: option.splits)
  next
    case (sent k w sh)
    then show ?thesis using other
      by (auto simp: writer_step_def split: list.splits prod.splits sum.splits)
  qed simp_all
qed

text \<open>A write either goes through or stops after some first bytes, where the connection breaks.\<close>

definition writer_ok :: "Writer \<Rightarrow> bool" where
  "writer_ok w \<longleftrightarrow> (case wr_limit w of None \<Rightarrow> True | Some n \<Rightarrow> length (wr_written w) \<le> n)"

lemma write_all_part:
  assumes "write_all w bs = (w', r)" "writer_ok w"
  obtains part where "wr_written w' = wr_written w @ part" "prefix part bs" "r = Inr () \<longrightarrow> part = bs" "writer_ok w'"
proof (cases "wr_limit w")
  case None
  then show ?thesis using assms that [of bs] by (auto simp: write_all_def writer_ok_def)
next
  case (Some n)
  then show ?thesis
    using assms that [of bs] that [of "take (n - length (wr_written w)) bs"]
    by (auto simp: write_all_def writer_ok_def take_is_prefix split: if_splits)
qed

lemma send_message_part:
  assumes "send_message w data = (w', r)" "writer_ok w"
  obtains part where "wr_written w' = wr_written w @ part" "prefix part (frame_of data)"
    "r = Inr () \<longrightarrow> part = frame_of data" "writer_ok w'"
proof -
  let ?head = "to_be_bytes (word_of_nat (length data) :: u32)"
  obtain w1 r1 where 1: "write_all w ?head = (w1, r1)" by fastforce
  obtain part1 where p1: "wr_written w1 = wr_written w @ part1" "prefix part1 ?head"
    "r1 = Inr () \<longrightarrow> part1 = ?head" "writer_ok w1" using write_all_part [OF 1 assms(2)] .
  show ?thesis
  proof (cases r1)
    case (Inl e)
    then show ?thesis using assms(1) 1 p1 that [of part1]
      by (auto simp: send_message_def Let_def frame_of_def intro: prefix_order.trans)
  next
    case (Inr u)
    then have w': "write_all w1 data = (w', r)" using assms(1) 1 by (simp add: send_message_def Let_def)
    obtain part2 where "wr_written w' = wr_written w1 @ part2" "prefix part2 data" "r = Inr () \<longrightarrow> part2 = data"
      "writer_ok w'" using write_all_part [OF w' p1(4)] .
    then show ?thesis using p1 Inr that [of "?head @ part2"] by (auto simp: frame_of_def)
  qed
qed

text \<open>One connection: the packets of its log up to some point have been sent; the others are in the
  queue, in their order, as long as the channel is open. When it is closed, its last packet may have
  been written in part.\<close>

definition hist_at :: "Writer \<Rightarrow> Chan \<Rightarrow> bytes list \<Rightarrow> bool" where
  "hist_at w ch lg \<longleftrightarrow>
     (\<exists>sent rest part. lg = sent @ rest \<and> wr_written w = concat (map frame_of sent) @ part
        \<and> (if ch_open ch then rest = ch_queue ch \<and> part = []
           else prefix part (concat (map frame_of (take 1 rest)))))"

definition hist_inv :: "System \<times> (nat \<Rightarrow> bytes list) \<Rightarrow> bool" where
  "hist_inv sl \<longleftrightarrow> sys_wf (fst sl)
     \<and> (\<forall>c. writer_ok (sys_out (fst sl) c) \<and> hist_at (sys_out (fst sl) c) (sh_chans (sys_shared (fst sl)) c) (snd sl c))
     \<and> (\<forall>c \<ge> sys_next (fst sl). snd sl c = [] \<and> written c (fst sl) = [])"

lemma hist_at_sent:
  assumes "hist_at w (sh_chans sh c) lg" "ch_open (sh_chans sh c)" "writer_ok w" "writer_step c w sh = (w', sh')"
  shows "hist_at w' (sh_chans sh' c) lg \<and> writer_ok w'"
proof -
  obtain sent where sent: "lg = sent @ ch_queue (sh_chans sh c)" "wr_written w = concat (map frame_of sent)"
    using assms(1,2) by (auto simp: hist_at_def)
  show ?thesis
  proof (cases "ch_queue (sh_chans sh c)")
    case Nil
    then show ?thesis using assms by (simp add: writer_step_def)
  next
    case (Cons p ps)
    obtain r where r: "send_message w p = (w', r)" "sh_chans sh' c = (case r of
        Inr _ \<Rightarrow> (sh_chans sh c)\<lparr>ch_queue := ps\<rparr> | Inl _ \<Rightarrow> \<lparr>ch_queue = [], ch_open = False\<rparr>)"
      using assms(4) Cons by (auto simp: writer_step_def split: prod.splits sum.splits)
    obtain part where part: "wr_written w' = wr_written w @ part" "prefix part (frame_of p)"
      "r = Inr () \<longrightarrow> part = frame_of p" "writer_ok w'" using send_message_part [OF r(1) assms(3)] .
    show ?thesis
    proof (cases r)
      case (Inl e)
      then show ?thesis unfolding hist_at_def using sent part r(2) Cons
        by (intro conjI exI [of _ sent] exI [of _ "p # ps"] exI [of _ part]) auto
    next
      case (Inr u)
      then show ?thesis unfolding hist_at_def using sent part r(2) Cons assms(2)
        by (intro conjI exI [of _ "sent @ [p]"] exI [of _ ps] exI [of _ "[]"]) auto
    qed
  qed
qed

lemma hist_at_eof:
  assumes "hist_at w ch lg" "writer_ok w" "ch_open ch \<or> ch_queue ch = []"
    and "prefix part (concat (map frame_of (take 1 (ch_queue ch))))"
  shows "hist_at (fst (write_all w part)) \<lparr>ch_queue = [], ch_open = False\<rparr> lg \<and> writer_ok (fst (write_all w part))"
proof -
  obtain w' r where w: "write_all w part = (w', r)" by fastforce
  obtain part' where p: "wr_written w' = wr_written w @ part'" "prefix part' part" "writer_ok w'"
    using write_all_part [OF w assms(2)] .
  show ?thesis
  proof (cases "ch_open ch")
    case True
    then obtain sent where "lg = sent @ ch_queue ch" "wr_written w = concat (map frame_of sent)"
      using assms(1) by (auto simp: hist_at_def)
    then show ?thesis using p w prefix_order.trans [OF p(2) assms(4)] unfolding hist_at_def
      by (intro conjI exI [of _ sent] exI [of _ "ch_queue ch"] exI [of _ part']) simp_all
  next
    case False
    then have "part' = []" using assms(3,4) p(2) by simp
    then show ?thesis using assms(1) False p w unfolding hist_at_def by auto
  qed
qed

lemma hist_at_extends:
  assumes "hist_at w (sh_chans sh c) lg" "chan_extends c sh sh'"
  shows "hist_at w (sh_chans sh' c) (lg @ drop (length (ch_queue (sh_chans sh c))) (ch_queue (sh_chans sh' c)))"
proof -
  obtain ps where ps: "ch_queue (sh_chans sh' c) = ch_queue (sh_chans sh c) @ ps"
    "ch_open (sh_chans sh' c) = ch_open (sh_chans sh c)" "\<not> ch_open (sh_chans sh c) \<longrightarrow> ps = []"
    using assms(2) by (auto simp: chan_extends_def)
  then show ?thesis using assms(1) by (cases "ch_open (sh_chans sh c)") (auto simp: hist_at_def)
qed

lemma hist_step_at:
  assumes inv: "hist_inv (s, lg)" and step: "sys_step L s e s'"
  shows "writer_ok (sys_out s' c) \<and> hist_at (sys_out s' c) (sh_chans (sys_shared s') c) (lg c @ accepted e s s' c)"
proof -
  have wf: "sys_wf s" and at: "hist_at (sys_out s c) (sh_chans (sys_shared s) c) (lg c)" "writer_ok (sys_out s c)"
    and new: "sys_next s \<le> c \<Longrightarrow> lg c = [] \<and> written c s = []"
    using inv by (auto simp: hist_inv_def)
  consider "e = Ev_Write c" | "e = Ev_Eof c" | "e \<noteq> Ev_Write c" "e \<noteq> Ev_Eof c" by blast
  then show ?thesis
  proof cases
    case 1
    with step obtain w sh where "ch_open (sh_chans (sys_shared s) c)"
      "writer_step c (sys_out s c) (sys_shared s) = (w, sh)" "s' = s\<lparr>sys_shared := sh, sys_out := (sys_out s)(c := w)\<rparr>"
      by (auto elim: sys_step.cases)
    then show ?thesis using hist_at_sent [OF at(1) _ at(2)] 1 by (simp add: accepted_def)
  next
    case 2
    with step obtain h part where h: "sys_tasks s c = Some (h, False)"
      "prefix part (concat (map frame_of (take 1 (queue c s))))" "sys_shared s' = cleanup h (sys_shared s)"
      "sys_out s' c = fst (write_all (sys_out s c) part)"
      by (auto elim!: sys_step.cases)
    then have "sh_chans (sys_shared s') c = \<lparr>ch_queue = [], ch_open = False\<rparr>"
      using sys_wfD(1) [OF wf h(1)] by (auto simp: cleanup_def Let_def split: option.splits)
    then show ?thesis
      using hist_at_eof [OF at _ h(2)] sys_wfD(4) [OF wf, of c] h(4) 2 by (auto simp: accepted_def)
  next
    case 3
    note oth = other_step [OF wf step 3]
    show ?thesis
    proof (cases "chan_extends c (sys_shared s) (sys_shared s')")
      case True
      then show ?thesis using hist_at_extends [OF at(1) True] oth at(2) 3 by (simp add: accepted_def)
    next
      case False
      then have "lg c = []" "written c s = []" "sh_chans (sys_shared s') c = \<lparr>ch_queue = [], ch_open = True\<rparr>"
        using oth new by auto
      then show ?thesis using oth at(2) by (auto simp: accepted_def hist_at_def)
    qed
  qed
qed

lemma hist_step_new:
  assumes inv: "hist_inv (s, lg)" and step: "sys_step L s e s'" and c: "sys_next s' \<le> c"
  shows "lg c @ accepted e s s' c = [] \<and> written c s' = []"
proof -
  have wf: "sys_wf s" using inv by (simp add: hist_inv_def)
  then have wf': "sys_wf s'" using step by (rule sys_wf_step)
  have mono: "sys_next s \<le> sys_next s'" using step by (auto elim: sys_step.cases)
  then have "lg c = []" "written c s = []" using inv c by (auto simp: hist_inv_def)
  moreover have "\<not> ch_open (sh_chans (sys_shared s') c)" using sys_wfD(3) [OF wf', of c] c by auto
  then have "accepted e s s' c = []" using sys_wfD(4) [OF wf'] by (simp add: accepted_def)
  moreover have "\<not> ch_open (sh_chans (sys_shared s) c)" using sys_wfD(3) [OF wf, of c] c mono by auto
  then have "e \<noteq> Ev_Write c" using step by (auto elim: sys_step.cases)
  moreover have "e \<noteq> Ev_Eof c" using step sys_wfD(1) [OF wf, of c] c mono by (fastforce elim!: sys_step.cases)
  ultimately show ?thesis using other_step [OF wf step] by auto
qed

interpretation hist: trace_invariant "hist_step L" "\<lambda>_. hist_inv" for L
proof
  fix tr sl e sl'
  assume inv: "hist_inv sl" and "hist_step L sl e sl'"
  then have step: "sys_step L (fst sl) e (fst sl')"
    and lg: "snd sl' = (\<lambda>c. snd sl c @ accepted e (fst sl) (fst sl') c)" by (simp_all add: hist_step_def)
  have inv': "hist_inv (fst sl, snd sl)" using inv by simp
  show "hist_inv sl'"
    using hist_step_at [OF inv' step] hist_step_new [OF inv' step] sys_wf_step [OF _ step] inv
    unfolding hist_inv_def lg by simp
qed

lemma hist_run_inv:
  assumes "hist_run L (sys_init ac out) tr s lg" "\<And>c. wr_written (out c) = []"
  shows "hist_inv (s, lg)"
proof -
  have "hist_inv (sys_init ac out, \<lambda>_. [])"
    using assms(2)
    by (simp add: hist_inv_def hist_at_def writer_ok_def sys_wf_def sys_init_def Server_new_def split: option.split)
  then show ?thesis by (rule hist.inv_run [OF assms(1)])
qed

section \<open>Properties\<close>

text \<open>C4: The server implements its access policy: in every execution, under every interleaving, every
  session is one that the reference monitor has admitted, with the key the monitor derived from
  that connection's key exchange, and every task uses the key the monitor has for it.\<close>

theorem server_refines_access_monitor:
  assumes "sys_run L (sys_init ac out) tr s"
  shows "(\<forall>i sess. sh_sessions (sys_shared s) i = Some sess \<longrightarrow>
        (sess_tx sess, sess_crypto sess) \<in> acc_members (fold (access_after L ac) tr access_init))
    \<and> (\<forall>c h b. sys_tasks s c = Some (h, b) \<longrightarrow>
        hc_crypto_session h = acc_key (fold (access_after L ac) tr access_init) c)"
  using access_run [OF assms] by (auto simp: access_sim_def)

theorem server_refines_access_monitor_witness:
  "\<exists>tr s sess. sys_run (demo_libs demo_talk) demo_start tr s \<and> sh_sessions (sys_shared s) ''a'' = Some sess
     \<and> (sess_tx sess, sess_crypto sess) \<in> members (demo_libs demo_talk) demo_code tr"
proof -
  obtain tr s where run: "sys_run (demo_libs demo_talk) demo_start tr s"
    "dom (sh_sessions (sys_shared s)) = {''a''}" by (rule demo_run)
  then obtain x where "sh_sessions (sys_shared s) ''a'' = Some x" by blast
  then show ?thesis using run(1) server_refines_access_monitor [OF run(1)] by blast
qed

text \<open>C5: Frames are confidential: whatever a captured frame adds to a connection's channel is that
  frame's message, sealed under a key that the reference monitor has admitted for this very
  connection. A connection that is no member gets nothing.\<close>

theorem frames_sealed_for_members:
  assumes "sys_run L (sys_init ac out) tr s" "sys_step L s (Ev_Frame f) s'"
  shows "\<exists>ps. ch_queue (sh_chans (sys_shared s') c) = ch_queue (sh_chans (sys_shared s) c) @ ps
    \<and> (\<forall>p \<in> set ps. \<exists>m n K. frame_message f = Some m \<and> seal_message L n m (Some K) = Inr p
         \<and> (c, K) \<in> acc_members (fold (access_after L ac) tr access_init))"
proof -
  obtain env ids where s': "s' = s\<lparr>sys_shared := serve_frame L env f ids (sys_shared s)\<rparr>"
    and n: "\<forall>i. length (dr_nonce (env i)) = 12"
    using assms(2) by (rule sys_step_frameE)
  have "endpoints (sys_shared s) \<subseteq> members L ac tr"
    using access_run [OF assms(1)] by (auto simp: endpoints_def endpoint_def access_sim_def)
  then show ?thesis
    using serve_frame_packets [OF n, of L f ids "sys_shared s" c] s' by (fastforce simp: frame_packets_def)
qed

theorem frames_sealed_for_members_witness:
  "\<exists>tr s s' ps. sys_run (demo_libs demo_talk) demo_start tr s \<and> sh_sessions (sys_shared s) \<noteq> Map.empty
     \<and> sys_step (demo_libs demo_talk) s (Ev_Frame demo_frame) s'
     \<and> ch_queue (sh_chans (sys_shared s') 0) = ch_queue (sh_chans (sys_shared s) 0) @ ps
     \<and> (\<forall>p \<in> set ps. \<exists>K. (0, K) \<in> members (demo_libs demo_talk) demo_code tr)"
proof -
  obtain tr s where run: "sys_run (demo_libs demo_talk) demo_start tr s"
    "dom (sh_sessions (sys_shared s)) = {''a''}" by (rule demo_run)
  obtain s' where st: "sys_step (demo_libs demo_talk) s (Ev_Frame demo_frame) s'"
    using sys_step.frame [of "[''a'']" s "\<lambda>_. demo_draws 0" "demo_libs demo_talk" demo_frame] run(2)
    by (auto simp: demo_draws_def)
  then show ?thesis
    using run frames_sealed_for_members [OF run(1) st, of 0] by (metis dom_empty insert_not_empty)
qed

text \<open>C13: The server's output is a queue for every connection. Let the log of a connection be the packets
  its channel has accepted since the start of an execution, in their order. The bytes written to an open
  connection are then always exactly the frames of the first packets of the log, and the packets that are
  left are those in the queue: none is lost, sent twice or overtaken. When the connection has ended or
  broken, the bytes written are the frames of the first packets and possibly the beginning of the next.\<close>

theorem outgoing_streams_are_fifo:
  assumes "run_of (hist_step L) (sys_init ac out, \<lambda>_. []) tr (s, lg)" "\<And>c. wr_written (out c) = []"
  shows "\<exists>sent rest part. lg c = sent @ rest \<and> wr_written (sys_out s c) = concat (map frame_of sent) @ part
    \<and> (if ch_open (sh_chans (sys_shared s) c)
       then rest = ch_queue (sh_chans (sys_shared s) c) \<and> part = []
       else prefix part (concat (map frame_of (take 1 rest))))"
  using hist_run_inv [OF assms] by (simp add: hist_inv_def hist_at_def)

text \<open>The login of the demonstration run, and a turn of the writer.\<close>

theorem outgoing_streams_are_fifo_witness:
  "\<exists>s lg rest. run_of (hist_step (demo_libs demo_talk)) (demo_start, \<lambda>_. []) (demo_events @ [Ev_Write 0]) (s, lg)
     \<and> wr_written (sys_out s 0) = frame_of [1] \<and> lg 0 = rest @ ch_queue (sh_chans (sys_shared s) 0)
     \<and> concat (map frame_of rest) = frame_of [1] \<and> ch_queue (sh_chans (sys_shared s) 0) = [demo_grant]"
proof -
  let ?L = "demo_libs demo_talk"
  obtain s where s: "sys_run ?L demo_start demo_events s" "sys_out s = sys_out demo_start"
    "sh_chans (sys_shared s) 0 = \<lparr>ch_queue = [[1], demo_grant], ch_open = True\<rparr>" using demo_run by metis
  have out: "sys_out s 0 = \<lparr>wr_written = [], wr_limit = None\<rparr>" using s(2) by (simp add: sys_init_def)
  obtain s1 where 1: "sys_step ?L s (Ev_Write 0) s1" "wr_written (sys_out s1 0) = frame_of [1]"
    "sh_chans (sys_shared s1) 0 = \<lparr>ch_queue = [demo_grant], ch_open = True\<rparr>"
    using sys_step.sent [of s 0 _ _ ?L] s(3) out by (simp add: writer_step_def send_message_ok)
  obtain lg where run: "hist_run ?L demo_start (demo_events @ [Ev_Write 0]) s1 lg"
    using sys_run_hist [OF sys_run_snoc [OF s(1) 1(1)]] by blast
  have "wr_written ((\<lambda>_ :: nat. \<lparr>wr_written = [], wr_limit = None\<rparr>) c) = []" for c by simp
  from outgoing_streams_are_fifo [OF run this, of 0] obtain rest where
    "lg 0 = rest @ queue 0 s1" "written 0 s1 = concat (map frame_of rest)" using 1(3) by auto
  then show ?thesis using run 1(2,3) by (intro exI [of _ s1] exI [of _ lg] exI [of _ rest]) simp
qed

end
