(* ===== verification/Server_Isolation.thy ===== *)
theory Server_Isolation
  imports Server_Refinement
begin

text \<open>
  The connections of the server do not disturb one another. The view of a connection is its task
  (with buffer, key, session identifier and pending answer), its channel, its outgoing stream and its sessions;
  \<open>isolation\<close> is interpreted by the system: whatever other connections do, it stays as it is, as
  long as the identifiers drawn for sessions (UUIDs) are all different.
\<close>

section \<open>The view of a connection\<close>

fun concerns :: "nat \<Rightarrow> sys_event \<Rightarrow> bool" where
  "concerns c (Ev_Accept c') \<longleftrightarrow> c = c'"
| "concerns c (Ev_Read c' bs) \<longleftrightarrow> c = c'"
| "concerns c (Ev_Idle c') \<longleftrightarrow> c = c'"
| "concerns c (Ev_Message c' d m) \<longleftrightarrow> c = c'"
| "concerns c (Ev_Reply c') \<longleftrightarrow> c = c'"
| "concerns c (Ev_Reject c') \<longleftrightarrow> c = c'"
| "concerns c (Ev_Eof c') \<longleftrightarrow> c = c'"
| "concerns c (Ev_ReadError c') \<longleftrightarrow> c = c'"
| "concerns c (Ev_Write c') \<longleftrightarrow> c = c'"
| "concerns c (Ev_Frame f) \<longleftrightarrow> True"

definition own_sessions :: "nat \<Rightarrow> Shared \<Rightarrow> string \<rightharpoonup> ClientSession" where
  "own_sessions c sh i = (case sh_sessions sh i of
     Some x \<Rightarrow> if sess_tx x = c then Some x else None | None \<Rightarrow> None)"

definition sys_view ::
  "nat \<Rightarrow> System \<Rightarrow>
   (Handler \<times> bool) option \<times> (bytes \<times> Message) option \<times> Chan \<times> Writer \<times> (string \<rightharpoonup> ClientSession)" where
  "sys_view c s = (sys_tasks s c, sys_pending s c, sh_chans (sys_shared s) c, sys_out s c, own_sessions c (sys_shared s))"

text \<open>The identifiers drawn so far, one per authentication request.\<close>

fun drawn_id :: "sys_event \<Rightarrow> string list" where
  "drawn_id (Ev_Message c d (Msg_AuthRequest code)) = [dr_uuid d]"
| "drawn_id _ = []"

definition drawn_ids :: "sys_event list \<Rightarrow> string list" where
  "drawn_ids tr = concat (map drawn_id tr)"

lemma drawn_ids_snoc [simp]: "drawn_ids (tr @ [e]) = drawn_ids tr @ drawn_id e"
  by (simp add: drawn_ids_def)

section \<open>What a message changes\<close>

lemma own_sessionsI:
  assumes "\<And>i. sh_sessions sh' i = sh_sessions sh i
      \<or> (\<forall>x. sh_sessions sh i = Some x \<longrightarrow> sess_tx x \<noteq> c) \<and> (\<forall>x. sh_sessions sh' i = Some x \<longrightarrow> sess_tx x \<noteq> c)"
  shows "own_sessions c sh' = own_sessions c sh"
proof
  fix i show "own_sessions c sh' i = own_sessions c sh i"
    using assms [of i] by (cases "sh_sessions sh i"; cases "sh_sessions sh' i") (auto simp: own_sessions_def)
qed

text \<open>A message changes no session but the handler's own, which keeps its channel, and the one it
  opens for the handler's connection.\<close>

definition opens :: "draws \<Rightarrow> Message \<Rightarrow> Handler \<Rightarrow> Shared \<Rightarrow> string \<Rightarrow> bool" where
  "opens d m h sh' i \<longleftrightarrow> (\<exists>code x. m = Msg_AuthRequest code \<and> i = dr_uuid d
     \<and> sh_sessions sh' i = Some x \<and> sess_tx x = hc_conn h)"

definition retunes :: "Handler \<Rightarrow> Shared \<Rightarrow> Shared \<Rightarrow> string \<Rightarrow> bool" where
  "retunes h sh sh' i \<longleftrightarrow> hc_session_id h = Some i
     \<and> map_option identity (sh_sessions sh' i) = map_option identity (sh_sessions sh i)"

lemma identity_tx:
  "map_option identity a = map_option identity b \<Longrightarrow> map_option sess_tx a = map_option sess_tx b"
  by (cases a; cases b) (simp_all add: identity_def endpoint_def)

lemma retunes_tx:
  "retunes h sh sh' i \<Longrightarrow> map_option sess_tx (sh_sessions sh' i) = map_option sess_tx (sh_sessions sh i)"
  unfolding retunes_def by (blast intro: identity_tx)

lemma put_controller_retunes:
  assumes "hc_session_id h = Some j" "sh_sessions sh' = sh_sessions (put_controller j ctl sh)"
  shows "sh_sessions sh' i = sh_sessions sh i \<or> retunes h sh sh' i"
  using assms by (cases "sh_sessions sh j") (auto simp: put_controller_def retunes_def identity_def endpoint_def)

lemma handle_message_own:
  assumes "handle_message L d m h sh = ((h', sh'), r)"
  shows "(sh_sessions sh' i = sh_sessions sh i \<or> retunes h sh sh' i \<or> opens d m h sh' i)
    \<and> (hc_session_id h' = hc_session_id h
       \<or> hc_session_id h' = Some (dr_uuid d) \<and> opens d m h sh' (dr_uuid d))"
  using assms
proof (cases rule: handle_message_cases)
  case (auth code u)
  from auth(2) show ?thesis
    by (cases rule: on_auth_request_cases) (auto simp: same_but_chan_def new_session_def auth(1) opens_def)
next
  case (key key u)
  then show ?thesis using on_key_exchange_cases [OF key] by (auto simp: same_but_chan_def)
next
  case (start u)
  then show ?thesis by (auto simp: on_start_stream_def Let_def same_but_chan_def
        split: option.splits prod.splits dest!: send_encrypted_frame)
next
  case (input act u)
  then show ?thesis using replay_frame [OF input] by simp
next
  case (ack t t' u)
  then have "h' = h \<and> (sh' = sh \<or> (\<exists>j ctl. hc_session_id h = Some j \<and> sh' = put_controller j ctl sh))"
    by (auto simp: on_frame_ack_def session_of_def Let_def split: option.splits prod.splits)
  then show ?thesis using put_controller_retunes [of h _ sh' _ sh i] by blast
next
  case (mode q u)
  then have "h' = h \<and> (sh_sessions sh' = sh_sessions sh
      \<or> (\<exists>j ctl. hc_session_id h = Some j \<and> sh_sessions sh' = sh_sessions (put_controller j ctl sh)))"
    by (auto simp: on_request_quality_def session_of_def Let_def same_but_chan_def
        split: option.splits prod.splits dest!: send_encrypted_frame)
  then show ?thesis using put_controller_retunes [of h _ sh' _ sh i] by metis
qed simp

lemma handles_own:
  assumes "handles L d m h sh h' sh'"
  shows "(sh_sessions sh' i = sh_sessions sh i \<or> retunes h sh sh' i \<or> opens d m h sh' i)
    \<and> (hc_session_id h' = hc_session_id h
       \<or> hc_session_id h' = Some (dr_uuid d) \<and> opens d m h sh' (dr_uuid d))"
  using assms unfolding handles_def
proof (elim disjE exE)
  fix r assume "prepare L d m h sh = Some ((h', sh'), r)"
  then show ?thesis by (cases rule: prepare_cases) (auto simp: new_session_def opens_def)
qed (rule handle_message_own)

section \<open>The invariant\<close>

text \<open>Every task's identifier and every session's identifier has been drawn, and the session under
  a task's identifier is the task's own.\<close>

definition ids_inv :: "sys_event list \<Rightarrow> System \<Rightarrow> bool" where
  "ids_inv tr s \<longleftrightarrow>
     (\<forall>c h b. sys_tasks s c = Some (h, b) \<longrightarrow> hc_conn h = c \<and> c < sys_next s
        \<and> (\<forall>i. hc_session_id h = Some i \<longrightarrow> i \<in> set (drawn_ids tr)
             \<and> (\<forall>x. sh_sessions (sys_shared s) i = Some x \<longrightarrow> sess_tx x = c)))
     \<and> dom (sh_sessions (sys_shared s)) \<subseteq> set (drawn_ids tr)"

lemma ids_invD:
  assumes "ids_inv tr s" "sys_tasks s c = Some (h, b)"
  shows "hc_conn h = c" "c < sys_next s" "hc_session_id h = Some i \<Longrightarrow> i \<in> set (drawn_ids tr)"
    "hc_session_id h = Some i \<Longrightarrow> sh_sessions (sys_shared s) i = Some x \<Longrightarrow> sess_tx x = c"
  using assms by (auto simp: ids_inv_def)

text \<open>A step whose tasks keep connection and identifier and whose sessions all existed before, with
  the same channel, keeps the invariant.\<close>

lemma ids_inv_keep:
  assumes "ids_inv tr s" "drawn_id e = []" "sys_next s \<le> sys_next s'"
    and "\<And>c h b. sys_tasks s' c = Some (h, b) \<Longrightarrow> hc_conn h = c \<and> c < sys_next s' \<and> hc_session_id h = None
      \<or> (\<exists>h0 b0. sys_tasks s c = Some (h0, b0) \<and> hc_conn h = hc_conn h0 \<and> hc_session_id h = hc_session_id h0)"
    and "\<And>i x. sh_sessions (sys_shared s') i = Some x \<Longrightarrow>
      \<exists>y. sh_sessions (sys_shared s) i = Some y \<and> sess_tx x = sess_tx y"
  shows "ids_inv (tr @ [e]) s'"
  unfolding ids_inv_def
proof (intro conjI allI impI)
  fix c h b assume t: "sys_tasks s' c = Some (h, b)"
  from assms(4) [OF t] show "hc_conn h = c" "c < sys_next s'"
    using ids_invD(1,2) [OF assms(1), of c] assms(3) by fastforce+
  fix i assume i: "hc_session_id h = Some i"
  from assms(4) [OF t] i obtain h0 b0 where "sys_tasks s c = Some (h0, b0)" "hc_session_id h0 = Some i"
    by auto
  note own = ids_invD(3,4) [OF assms(1) this]
  show "i \<in> set (drawn_ids (tr @ [e]))" using own(1) by simp
  fix x assume "sh_sessions (sys_shared s') i = Some x"
  then show "sess_tx x = c" using assms(5) own(2) by metis
next
  show "dom (sh_sessions (sys_shared s')) \<subseteq> set (drawn_ids (tr @ [e]))"
    using assms(1,2,5) by (fastforce simp: ids_inv_def)
qed

text \<open>A handled message.\<close>

lemma fresh_id:
  assumes "distinct (drawn_ids (tr @ [Ev_Message c d m]))" "opens d m h sh' i"
  shows "i = dr_uuid d" "i \<notin> set (drawn_ids tr)" "i \<in> set (drawn_id (Ev_Message c d m))"
  using assms by (auto simp: opens_def)

lemma message_keeps_tx:
  assumes "handles L d m h sh h' sh'" "distinct (drawn_ids (tr @ [Ev_Message c d m]))"
    and "i \<in> set (drawn_ids tr)"
  shows "map_option sess_tx (sh_sessions sh' i) = map_option sess_tx (sh_sessions sh i)"
  using handles_own [OF assms(1), of i] fresh_id(2) [OF assms(2)] assms(3)
  by (auto dest: retunes_tx)

lemma ids_inv_message:
  assumes inv: "ids_inv tr s" and task: "sys_tasks s c = Some (h, True)"
    and hm: "handles L d m (taken h rest) (sys_shared s) h' sh'"
    and fresh: "distinct (drawn_ids (tr @ [Ev_Message c d m]))"
    and t': "t' = (sys_tasks s)(c := None) \<or> t' = (sys_tasks s)(c \<mapsto> (h', b))"
  shows "ids_inv (tr @ [Ev_Message c d m]) (s\<lparr>sys_shared := sh', sys_tasks := t', sys_pending := q\<rparr>)"
  unfolding ids_inv_def
proof (intro conjI allI impI)
  let ?tr = "tr @ [Ev_Message c d m]"
  have own: "hc_conn (taken h rest) = c" "hc_session_id (taken h rest) = hc_session_id h"
    using ids_invD(1) [OF inv task] by (simp_all add: taken_def)
  have c: "hc_conn h' = c" using handles_frame [OF hm] own by (simp add: handler_frame_def)
  have kept: "sess_tx x = k" if "sys_tasks s k = Some (g, b)" "hc_session_id g = Some i" "sh_sessions sh' i = Some x"
    for k g b i x
    using message_keeps_tx [OF hm fresh ids_invD(3) [OF inv that(1,2)]] that(3) ids_invD(4) [OF inv that(1,2)]
    by (cases "sh_sessions (sys_shared s) i") auto
  fix k g b assume "sys_tasks (s\<lparr>sys_shared := sh', sys_tasks := t', sys_pending := q\<rparr>) k = Some (g, b)"
  then have k: "k \<noteq> c \<and> sys_tasks s k = Some (g, b) \<or> k = c \<and> g = h'" using t' by (auto split: if_splits)
  then show "hc_conn g = k" "k < sys_next (s\<lparr>sys_shared := sh', sys_tasks := t', sys_pending := q\<rparr>)"
    using ids_invD(1,2) [OF inv] c task by auto
  fix i assume i: "hc_session_id g = Some i"
  have new: "hc_session_id h = Some i \<or> opens d m (taken h rest) sh' i" if "g = h'"
    using handles_own [OF hm, of i, THEN conjunct2] own(2) i that by auto
  have "i \<in> set (drawn_ids tr)" if "\<not> opens d m (taken h rest) sh' i"
    using k new that i ids_invD(3) [OF inv] task by blast
  then show "i \<in> set (drawn_ids ?tr)" using fresh_id(3) [OF fresh] by auto
  fix x assume x: "sh_sessions (sys_shared (s\<lparr>sys_shared := sh', sys_tasks := t', sys_pending := q\<rparr>)) i = Some x"
  show "sess_tx x = k"
  proof (cases "k = c \<and> opens d m (taken h rest) sh' i")
    case True
    then show ?thesis using x own(1) by (auto simp: opens_def)
  next
    case False
    then have "k \<noteq> c \<and> sys_tasks s k = Some (g, b) \<or> k = c \<and> hc_session_id h = Some i" using k new by auto
    then show ?thesis using kept i x task by auto
  qed
next
  show "dom (sh_sessions (sys_shared (s\<lparr>sys_shared := sh', sys_tasks := t', sys_pending := q\<rparr>))) \<subseteq> set (drawn_ids (tr @ [Ev_Message c d m]))"
  proof
    fix i assume "i \<in> dom (sh_sessions (sys_shared (s\<lparr>sys_shared := sh', sys_tasks := t', sys_pending := q\<rparr>)))"
    then obtain x where "sh_sessions sh' i = Some x" by auto
    then have "i \<in> dom (sh_sessions (sys_shared s)) \<or> opens d m (taken h rest) sh' i"
      using handles_own [OF hm, of i] by (cases "sh_sessions (sys_shared s) i") (auto simp: retunes_def)
    then show "i \<in> set (drawn_ids (tr @ [Ev_Message c d m]))"
      using inv fresh_id(3) [OF fresh] by (auto simp: ids_inv_def)
  qed
qed

lemma message_keeps_view:
  assumes inv: "ids_inv tr s" and task: "sys_tasks s c = Some (h, True)"
    and hm: "handles L d m (taken h rest) (sys_shared s) h' sh'"
    and fresh: "distinct (drawn_ids (tr @ [Ev_Message c d m]))" and other: "k \<noteq> c"
  shows "own_sessions k sh' = own_sessions k (sys_shared s)" "sh_chans sh' k = sh_chans (sys_shared s) k"
proof -
  have own: "hc_conn (taken h rest) = c" "hc_session_id (taken h rest) = hc_session_id h"
    using ids_invD(1) [OF inv task] by (simp_all add: taken_def)
  show "sh_chans sh' k = sh_chans (sys_shared s) k"
    using handles_frame [OF hm] own(1) other by (simp add: handler_frame_def)
  show "own_sessions k sh' = own_sessions k (sys_shared s)"
  proof (rule own_sessionsI)
    fix i
    consider "sh_sessions sh' i = sh_sessions (sys_shared s) i" | "retunes (taken h rest) (sys_shared s) sh' i"
      | "opens d m (taken h rest) sh' i" using handles_own [OF hm, of i] by blast
    then show "sh_sessions sh' i = sh_sessions (sys_shared s) i
      \<or> (\<forall>x. sh_sessions (sys_shared s) i = Some x \<longrightarrow> sess_tx x \<noteq> k)
        \<and> (\<forall>x. sh_sessions sh' i = Some x \<longrightarrow> sess_tx x \<noteq> k)"
    proof cases
      case 2
      then have id: "hc_session_id h = Some i"
        and tx: "map_option sess_tx (sh_sessions sh' i) = map_option sess_tx (sh_sessions (sys_shared s) i)"
        using own(2) retunes_tx [OF 2] by (simp_all add: retunes_def)
      have "sess_tx x \<noteq> k" if "sh_sessions (sys_shared s) i = Some x" for x
        using ids_invD(4) [OF inv task id that] other by simp
      then show ?thesis using tx by (cases "sh_sessions (sys_shared s) i") auto
    next
      case 3
      then show ?thesis using fresh_id(2) [OF fresh 3] inv own(1) other
        by (fastforce simp: opens_def ids_inv_def)
    qed simp
  qed
qed

section \<open>The system is isolated\<close>

lemma cleanup_own:
  assumes "ids_inv tr s" "sys_tasks s c = Some (h, b)" "k \<noteq> c"
  shows "own_sessions k (cleanup h (sys_shared s)) = own_sessions k (sys_shared s)"
    "sh_chans (cleanup h (sys_shared s)) k = sh_chans (sys_shared s) k"
proof -
  show "own_sessions k (cleanup h (sys_shared s)) = own_sessions k (sys_shared s)"
    using ids_invD(4) [OF assms(1,2)] assms(3)
    by (intro own_sessionsI) (auto simp: cleanup_def Let_def split: option.splits)
  show "sh_chans (cleanup h (sys_shared s)) k = sh_chans (sys_shared s) k"
    using ids_invD(1) [OF assms(1,2)] assms(3) by (auto simp: cleanup_def Let_def split: option.splits)
qed

lemma ids_inv_step:
  assumes "ids_inv tr s" "sys_step L s e s'" "distinct (drawn_ids (tr @ [e]))"
  shows "ids_inv (tr @ [e]) s'"
  using assms(2)
proof (cases rule: sys_step.cases)
  case (message c h p rest m d h' sh' f)
  note m = ids_inv_message [OF assms(1) message(3) handlesI(1) [OF message(6)]]
  show ?thesis using m [of "(sys_tasks s)(c \<mapsto> (h', f = Next))" "f = Next" "sys_pending s"] message assms(3) by simp
next
  case (failed c h p rest m d h' sh' e')
  note m = ids_inv_message [OF assms(1) failed(3) handlesI(1) [OF failed(6)]]
  show ?thesis using m [of "(sys_tasks s)(c := None)" _ "sys_pending s"] failed assms(3) by simp
next
  case (prepared c h p rest m d h' sh' answer)
  then show ?thesis
    using ids_inv_message [OF assms(1) prepared(3) handlesI(2) [OF prepared(6)]] assms(3) by blast
next
  case (replied c h nonce answer sh')
  then show ?thesis using send_encrypted_frame [OF replied(5)]
    by (intro ids_inv_keep [OF assms(1)]) (auto simp: same_but_chan_def)
next
  case (reply_failed c h nonce answer sh' e')
  then show ?thesis using send_encrypted_frame [OF reply_failed(5)]
    by (intro ids_inv_keep [OF assms(1)]) (auto simp: same_but_chan_def split: if_splits)
next
  case (frame ids env f)
  have "\<exists>y. sh_sessions (sys_shared s) i = Some y \<and> sess_tx x = sess_tx y"
    if "sh_sessions (serve_frame L env f ids (sys_shared s)) i = Some x" for i x
    using serve_frame_sessions(1) [of L env f ids "sys_shared s" i] that
    by (cases "sh_sessions (sys_shared s) i") simp_all
  then show ?thesis using frame by (intro ids_inv_keep [OF assms(1)]) auto
next
  case (accept c h sh)
  then show ?thesis by (intro ids_inv_keep [OF assms(1)]) (auto simp: accept_client_def split: if_splits)
next
  case (sent c w sh)
  then show ?thesis using writer_step_frame [OF sent(4)] by (intro ids_inv_keep [OF assms(1)]) auto
next
  case (eof c h part)
  then show ?thesis
    by (intro ids_inv_keep [OF assms(1)]) (auto split: if_splits dest: cleanup_frame(2))
qed (rule ids_inv_keep [OF assms(1)]; auto split: if_splits)+

lemma sys_view_step:
  assumes "ids_inv tr s" "sys_step L s e s'" "distinct (drawn_ids (tr @ [e]))" "\<not> concerns k e"
  shows "sys_view k s' = sys_view k s"
  using assms(2)
proof (cases rule: sys_step.cases)
  case (message c h p rest m d h' sh' f)
  then show ?thesis using message_keeps_view [OF assms(1) message(3) handlesI(1) [OF message(6)]] assms(3,4)
    by (simp add: sys_view_def)
next
  case (failed c h p rest m d h' sh' e')
  then show ?thesis using message_keeps_view [OF assms(1) failed(3) handlesI(1) [OF failed(6)]] assms(3,4)
    by (simp add: sys_view_def)
next
  case (prepared c h p rest m d h' sh' answer)
  then show ?thesis using message_keeps_view [OF assms(1) prepared(3) handlesI(2) [OF prepared(6)]] assms(3,4)
    by (simp add: sys_view_def)
next
  case (replied c h nonce answer sh')
  then show ?thesis using send_encrypted_frame [OF replied(5)] ids_invD(1) [OF assms(1) replied(3)] assms(4)
    by (simp add: sys_view_def same_but_chan_def own_sessions_def fun_eq_iff)
next
  case (reply_failed c h nonce answer sh' e')
  then show ?thesis using send_encrypted_frame [OF reply_failed(5)] ids_invD(1) [OF assms(1) reply_failed(3)] assms(4)
    by (simp add: sys_view_def same_but_chan_def own_sessions_def fun_eq_iff)
next
  case (eof c h part)
  then show ?thesis using cleanup_own [OF assms(1) eof(3)] assms(4) by (simp add: sys_view_def)
next
  case (accept c h sh)
  then show ?thesis using assms(4) by (auto simp: sys_view_def own_sessions_def accept_client_def fun_eq_iff)
next
  case (sent c w sh)
  have "sh_chans sh k = sh_chans (sys_shared s) k"
    using sent assms(4) by (auto simp: writer_step_def split: list.splits prod.splits sum.splits)
  then show ?thesis using sent writer_step_frame [OF sent(4)] assms(4)
    by (simp add: sys_view_def own_sessions_def fun_eq_iff)
qed (use assms(4) in \<open>simp_all add: sys_view_def\<close>)

interpretation conns: isolation "sys_step L" ids_inv "\<lambda>tr. distinct (drawn_ids tr)" concerns sys_view for L
  by unfold_locales (simp, rule ids_inv_step, assumption+, rule sys_view_step)

section \<open>Sessions without a task\<close>

text \<open>The task of the connection is gone, and its session is still in the table.\<close>

definition orphan :: "nat \<Rightarrow> string \<Rightarrow> CryptoSession \<Rightarrow> System \<Rightarrow> bool" where
  "orphan c i K s \<longleftrightarrow> sys_tasks s c = None \<and> c < sys_next s
     \<and> (\<exists>x. sh_sessions (sys_shared s) i = Some x \<and> endpoint x = (c, K))"

lemma message_keeps_session:
  assumes "ids_inv tr s" "handles L d m h sh h' sh'" "distinct (drawn_ids (tr @ [Ev_Message k d m]))"
    and "sh_sessions (sys_shared s) i \<noteq> None"
  shows "sh_sessions sh' i = sh_sessions sh i \<or> retunes h sh sh' i"
proof -
  have "i \<in> set (drawn_ids tr)" using assms(1,4) by (auto simp: ids_inv_def)
  then show ?thesis using handles_own [OF assms(2), of i] fresh_id(2) [OF assms(3)] by blast
qed

text \<open>A step that leaves the task of the connection gone, or ends it otherwise than by the end of the
  stream, keeps the session.\<close>

lemma session_kept:
  assumes inv: "ids_inv tr s" and step: "sys_step L s e s'" and fresh: "distinct (drawn_ids (tr @ [e]))"
    and x: "sh_sessions (sys_shared s) i = Some x" "sess_tx x = c" and e: "e \<noteq> Ev_Eof c"
  shows "map_option identity (sh_sessions (sys_shared s') i) = map_option identity (Some x)"
proof -
  have msg: "map_option identity (sh_sessions sh' i) = map_option identity (Some x)"
    if "handles L d m h (sys_shared s) h' sh'" "distinct (drawn_ids (tr @ [Ev_Message k d m]))" for k d m h h' sh'
    using message_keeps_session [OF inv that, of i] x(1) by (auto simp: retunes_def)
  from step show ?thesis
  proof (cases rule: sys_step.cases)
    case (message k h p rest m d h' sh' f)
    then show ?thesis using msg [OF handlesI(1) [OF message(6)], of k] fresh by simp
  next
    case (failed k h p rest m d h' sh' er)
    then show ?thesis using msg [OF handlesI(1) [OF failed(6)], of k] fresh by simp
  next
    case (prepared k h p rest m d h' sh' ans)
    then show ?thesis using msg [OF handlesI(2) [OF prepared(6)], of k] fresh by simp
  next
    case (replied k h n ans sh')
    then show ?thesis using send_encrypted_frame [OF replied(5)] x by (simp add: same_but_chan_def)
  next
    case (reply_failed k h n ans sh' er)
    then show ?thesis using send_encrypted_frame [OF reply_failed(5)] x by (simp add: same_but_chan_def)
  next
    case (frame ids env f)
    then show ?thesis using serve_frame_identity [of L env f ids "sys_shared s" i] x by simp
  next
    case (sent k w sh)
    then show ?thesis using writer_step_frame [OF sent(4)] x by simp
  next
    case (eof k h part)
    then have "hc_session_id h \<noteq> Some i" using ids_invD(4) [OF inv eof(3) _ x(1)] x(2) e by auto
    then show ?thesis using eof x by (auto simp: cleanup_def Let_def split: option.split)
  next
    case (accept k h sh)
    then show ?thesis using x by (auto simp: accept_client_def)
  qed (use x in simp_all)
qed

lemma orphan_step:
  assumes inv: "ids_inv tr s" and step: "sys_step L s e s'" and fresh: "distinct (drawn_ids (tr @ [e]))"
    and "orphan c i K s"
  shows "orphan c i K s'"
proof -
  obtain x where x: "sh_sessions (sys_shared s) i = Some x" "endpoint x = (c, K)"
    and c: "sys_tasks s c = None" "c < sys_next s" using assms(4) by (auto simp: orphan_def)
  have "e \<noteq> Ev_Eof c" using step c(1) by (auto elim: sys_step.cases)
  then have "map_option identity (sh_sessions (sys_shared s') i) = map_option identity (Some x)"
    using session_kept [OF inv step fresh x(1)] x(2) by (simp add: endpoint_def)
  then have "\<exists>y. sh_sessions (sys_shared s') i = Some y \<and> endpoint y = (c, K)"
    using x(2) by (cases "sh_sessions (sys_shared s') i") (simp_all add: identity_def)
  moreover have "sys_tasks s' c = None \<and> c < sys_next s'"
    using step c by (cases rule: sys_step.cases) auto
  ultimately show ?thesis by (simp add: orphan_def)
qed

interpretation orphans: trace_invariant "sys_step L"
  "\<lambda>tr' s. distinct (drawn_ids (tr @ tr')) \<longrightarrow> ids_inv (tr @ tr') s \<and> orphan c i K s" for L tr c i K
proof
  fix tr' s e s'
  assume inv: "distinct (drawn_ids (tr @ tr')) \<longrightarrow> ids_inv (tr @ tr') s \<and> orphan c i K s"
    and step: "sys_step L s e s'"
  show "distinct (drawn_ids (tr @ tr' @ [e])) \<longrightarrow> ids_inv (tr @ tr' @ [e]) s' \<and> orphan c i K s'"
  proof
    assume "distinct (drawn_ids (tr @ tr' @ [e]))"
    then have d: "distinct (drawn_ids ((tr @ tr') @ [e]))" by simp
    then have "distinct (drawn_ids (tr @ tr'))" by (simp only: drawn_ids_snoc distinct_append)
    then have "ids_inv (tr @ tr') s" "orphan c i K s" using inv by simp_all
    then show "ids_inv (tr @ tr' @ [e]) s' \<and> orphan c i K s'"
      using ids_inv_step [OF _ step d] orphan_step [OF _ step d] by simp
  qed
qed

text \<open>A frame that is due is queued for the session.\<close>

definition frame_due :: "draws \<Rightarrow> ClientSession \<Rightarrow> bool" where
  "frame_due d x \<longleftrightarrow> target_interval (snd (get_recommended_quality (dr_now d 0) (dr_now d 1) (sess_quality_controller x)))
     \<le> duration_since (dr_now d 2) (sess_last_frame_time x)"

lemma serve_session_due:
  assumes "frame_due d x" "frame_message f = Some m" "seal_message L (dr_nonce d) m (Some (sess_crypto x)) = Inr p"
  shows "snd (serve_session L d f x sh) = fst (chan_send (sess_tx x) p sh)"
  using assms
  by (auto simp: serve_session_def frame_due_def seal_message_def try_bind_Inr_iff Let_def split: prod.split)

lemma serve_one_other: "j \<noteq> i \<Longrightarrow> sh_sessions (serve_one L env f j sh) i = sh_sessions sh i"
  by (auto simp: serve_one_def same_but_chan_def split: option.split prod.split dest!: serve_session_fields(4))

lemma serve_frame_other:
  "i \<notin> set ids \<Longrightarrow> sh_sessions (serve_frame L env f ids sh) i = sh_sessions sh i"
  unfolding serve_frame_def by (induction ids arbitrary: sh) (auto simp: serve_one_other)

lemma serve_frame_due:
  assumes "\<forall>i. length (dr_nonce (env i)) = 12" "distinct ids" "i \<in> set ids" "sh_sessions sh i = Some x"
    and "frame_due (env i) x" "frame_message f = Some m"
    and "seal_message L (dr_nonce (env i)) m (Some (sess_crypto x)) = Inr p" "ch_open (sh_chans sh (sess_tx x))"
  shows "\<exists>ps. ch_queue (sh_chans (serve_frame L env f ids sh) (sess_tx x)) = ch_queue (sh_chans sh (sess_tx x)) @ ps
    \<and> p \<in> set ps"
proof -
  obtain as bs where ids: "ids = as @ i # bs" "i \<notin> set as" using assms(3) by (meson split_list_first)
  let ?sh1 = "serve_frame L env f as sh" and ?c = "sess_tx x"
  let ?sh2 = "serve_one L env f i ?sh1"
  have i: "sh_sessions ?sh1 i = Some x" using serve_frame_other [OF ids(2)] assms(4) by simp
  obtain ps where ps: "ch_queue (sh_chans ?sh1 ?c) = ch_queue (sh_chans sh ?c) @ ps" "ch_open (sh_chans ?sh1 ?c)"
    using serve_frame_packets [OF assms(1), of L f as sh ?c] assms(8) by auto
  have "sh_chans ?sh2 = sh_chans (fst (chan_send ?c p ?sh1))"
    using i serve_session_due [OF assms(5-7), of ?sh1] by (cases "serve_session L (env i) f x ?sh1") (simp add: serve_one_def)
  then have "ch_queue (sh_chans ?sh2 ?c) = ch_queue (sh_chans sh ?c) @ ps @ [p]"
    using ps by (simp add: chan_send_queue)
  moreover have "serve_frame L env f ids sh = serve_frame L env f bs ?sh2" by (simp add: serve_frame_def ids(1))
  ultimately show ?thesis using serve_frame_packets [OF assms(1), of L f bs ?sh2 ?c] by auto
qed

section \<open>Properties\<close>

text \<open>C9: Connections are isolated. In every execution of the server in which the identifiers drawn
  for sessions are all different, whatever the other connections send, and however their tasks end,
  changes nothing for a connection: its task with buffer, key, session identifier and pending answer, its
  channel, the bytes sent to it and its sessions stay as they are until an event of its own or a frame.\<close>

theorem connections_are_isolated:
  assumes "sys_run L (sys_init ac out) tr s" "sys_run L s tr' s'" "distinct (drawn_ids (tr @ tr'))"
    and "\<And>e. e \<in> set tr' \<Longrightarrow> \<not> concerns c e"
  shows "sys_tasks s' c = sys_tasks s c \<and> sh_chans (sys_shared s') c = sh_chans (sys_shared s) c
    \<and> sys_out s' c = sys_out s c \<and> own_sessions c (sys_shared s') = own_sessions c (sys_shared s)
    \<and> sys_pending s' c = sys_pending s c"
proof -
  have "ids_inv [] (sys_init ac out)" by (simp add: ids_inv_def sys_init_def Server_new_def)
  then have "sys_view c s' = sys_view c s"
    using conns.isolated_run [OF assms(2,1)] assms(3,4) by blast
  then show ?thesis by (simp add: sys_view_def)
qed

text \<open>A second client connects and sends a byte after the first has logged in.\<close>

theorem connections_are_isolated_witness:
  "\<exists>s c s'. sys_run (demo_libs demo_talk) demo_start demo_events s
    \<and> sys_run (demo_libs demo_talk) s [Ev_Accept c, Ev_Read c [0]] s'
    \<and> sh_chans (sys_shared s') 0 = \<lparr>ch_queue = [[1], demo_grant], ch_open = True\<rparr>"
proof -
  let ?L = "demo_libs demo_talk"
  obtain s where s: "sys_run ?L demo_start demo_events s"
    "sh_chans (sys_shared s) 0 = \<lparr>ch_queue = [[1], demo_grant], ch_open = True\<rparr>"
    using demo_run by metis
  obtain h sh where acc: "accept_client (sys_next s) (sys_shared s) = (h, sh)" by fastforce
  obtain s1 where 1: "sys_step ?L s (Ev_Accept (sys_next s)) s1" "sys_tasks s1 (sys_next s) = Some (h, False)"
    using sys_step.accept [OF refl acc] by fastforce
  obtain s2 where 2: "sys_step ?L s1 (Ev_Read (sys_next s) [0]) s2"
    using sys_step.read [OF 1(2), of "[0]"] by blast
  have run: "sys_run ?L s [Ev_Accept (sys_next s), Ev_Read (sys_next s) [0]] s2"
    using sys_run_snoc [OF sys_run_snoc [OF sys_run_start 1(1)] 2] by simp
  have "sys_wf s" using s(1) by (rule sys_run_wf)
  then have "0 < sys_next s" using sys_wfD(3) [of s 0] s(2) by simp
  then have "\<not> concerns 0 e" if "e \<in> set [Ev_Accept (sys_next s), Ev_Read (sys_next s) [0]]" for e
    using that by auto
  moreover have "distinct (drawn_ids (demo_events @ [Ev_Accept (sys_next s), Ev_Read (sys_next s) [0]]))"
    by (simp add: drawn_ids_def demo_events_def)
  ultimately have "sh_chans (sys_shared s2) 0 = sh_chans (sys_shared s) 0"
    using connections_are_isolated [OF s(1) run] by blast
  then show ?thesis using s run by metis
qed

text \<open>C34: A session outlives a task that ends with an error. Let the task of a connection end otherwise
  than at the end of its stream (by an undecodable packet, a failed read, or a message or an answer that
  fails) while the connection has a session. Then nobody ever removes the session, whatever happens later,
  provided the identifiers drawn are all different: it is still in the table, with its connection and its
  key, and as long as the channel is open every frame that is due is sealed and queued for it. The end of
  the stream does remove the task's session.\<close>

theorem failed_task_leaves_session:
  assumes "sys_run L (sys_init ac out) tr s" "sh_sessions (sys_shared s) i = Some x" "sess_tx x = c"
    and "sys_step L s e s1" "sys_tasks s c \<noteq> None" "sys_tasks s1 c = None" "e \<noteq> Ev_Eof c"
    and "sys_run L s1 tr' s'" "distinct (drawn_ids (tr @ [e] @ tr'))"
  shows "(\<exists>y. sh_sessions (sys_shared s') i = Some y \<and> sess_tx y = c \<and> sess_crypto y = sess_crypto x
      \<and> (\<forall>env ids f m p. (\<forall>j. length (dr_nonce (env j)) = 12) \<and> distinct ids
           \<and> set ids = dom (sh_sessions (sys_shared s')) \<and> frame_due (env i) y \<and> frame_message f = Some m
           \<and> seal_message L (dr_nonce (env i)) m (Some (sess_crypto x)) = Inr p
           \<and> ch_open (sh_chans (sys_shared s') c) \<longrightarrow>
           (\<exists>ps. ch_queue (sh_chans (serve_frame L env f ids (sys_shared s')) c)
              = ch_queue (sh_chans (sys_shared s') c) @ ps \<and> p \<in> set ps)))
    \<and> (\<forall>h b s2. sys_tasks s c = Some (h, b) \<and> hc_session_id h = Some i \<and> sys_step L s (Ev_Eof c) s2 \<longrightarrow>
         sh_sessions (sys_shared s2) i = None)"
proof
  have run1: "sys_run L (sys_init ac out) (tr @ [e]) s1" using assms(1,4) by (rule sys_run_snoc)
  have init: "ids_inv [] (sys_init ac out)" by (simp add: ids_inv_def sys_init_def Server_new_def)
  have d: "distinct (drawn_ids (tr @ [e]))" "distinct (drawn_ids tr)"
    using assms(9) by (auto simp: drawn_ids_def)
  have inv: "ids_inv tr s" "ids_inv (tr @ [e]) s1"
    using conns.guarded.inv_run [OF assms(1)] conns.guarded.inv_run [OF run1] init d by simp_all
  have "map_option identity (sh_sessions (sys_shared s1) i) = map_option identity (Some x)"
    by (rule session_kept [OF inv(1) assms(4) d(1) assms(2,3,7)])
  moreover have "c < sys_next s1" using sys_wfD(2) [OF sys_run_wf [OF assms(1)] assms(2)] assms(3,4)
    by (auto elim!: sys_step.cases)
  ultimately have "orphan c i (sess_crypto x) s1"
    using assms(3,6) by (cases "sh_sessions (sys_shared s1) i") (auto simp: orphan_def identity_def endpoint_def)
  then have "distinct (drawn_ids ((tr @ [e]) @ [])) \<longrightarrow> ids_inv ((tr @ [e]) @ []) s1 \<and> orphan c i (sess_crypto x) s1"
    using inv(2) by simp
  from orphans.inv_run [OF assms(8) this] have "orphan c i (sess_crypto x) s'" using assms(9) by simp
  then obtain y where y: "sh_sessions (sys_shared s') i = Some y" "sess_tx y = c" "sess_crypto y = sess_crypto x"
    by (auto simp: orphan_def endpoint_def)
  moreover have "\<exists>ps. ch_queue (sh_chans (serve_frame L env f ids (sys_shared s')) c)
      = ch_queue (sh_chans (sys_shared s') c) @ ps \<and> p \<in> set ps"
    if "(\<forall>j. length (dr_nonce (env j)) = 12) \<and> distinct ids
       \<and> set ids = dom (sh_sessions (sys_shared s')) \<and> frame_due (env i) y \<and> frame_message f = Some m
       \<and> seal_message L (dr_nonce (env i)) m (Some (sess_crypto x)) = Inr p
       \<and> ch_open (sh_chans (sys_shared s') c)" for env ids f m p
    using serve_frame_due [of env ids i "sys_shared s'" y f m L p] that y by auto
  ultimately show "\<exists>y. sh_sessions (sys_shared s') i = Some y \<and> sess_tx y = c \<and> sess_crypto y = sess_crypto x
      \<and> (\<forall>env ids f m p. (\<forall>j. length (dr_nonce (env j)) = 12) \<and> distinct ids
           \<and> set ids = dom (sh_sessions (sys_shared s')) \<and> frame_due (env i) y \<and> frame_message f = Some m
           \<and> seal_message L (dr_nonce (env i)) m (Some (sess_crypto x)) = Inr p
           \<and> ch_open (sh_chans (sys_shared s') c) \<longrightarrow>
           (\<exists>ps. ch_queue (sh_chans (serve_frame L env f ids (sys_shared s')) c)
              = ch_queue (sh_chans (sys_shared s') c) @ ps \<and> p \<in> set ps))" by blast
  show "\<forall>h b s2. sys_tasks s c = Some (h, b) \<and> hc_session_id h = Some i \<and> sys_step L s (Ev_Eof c) s2 \<longrightarrow>
      sh_sessions (sys_shared s2) i = None"
    by (auto elim!: sys_step.cases simp: cleanup_def Let_def)
qed

text \<open>After its login the client of the demonstration run sends a frame whose four bytes announce an
  empty packet, which cannot be decrypted; a second client connects later.\<close>

theorem failed_task_leaves_session_witness:
  "\<exists>tr s y. sys_run (demo_libs demo_talk) demo_start tr s \<and> Ev_Reject 0 \<in> set tr \<and> sys_tasks s 0 = None
     \<and> sh_sessions (sys_shared s) ''a'' = Some y \<and> sess_tx y = 0"
proof -
  let ?L = "demo_libs demo_talk"
  obtain s h where s: "sys_run ?L demo_start demo_events s" "sys_tasks s 0 = Some (h, True)" "hc_buffer h = []"
    "hc_crypto_session h = Some demo_key" "sys_pending s = Map.empty"
    "map_option sess_tx (sh_sessions (sys_shared s) ''a'') = Some 0"
    using demo_run by metis
  obtain s1 where 1: "sys_step ?L s (Ev_Idle 0) s1" "sys_tasks s1 0 = Some (h, False)"
    "sys_pending s1 = Map.empty" "sys_shared s1 = sys_shared s"
    using sys_step.idle [OF s(2), of ?L] s(3,5) by auto
  obtain s2 where 2: "sys_step ?L s1 (Ev_Read 0 [0, 0, 0, 0]) s2" "sys_pending s2 = Map.empty"
    "sys_tasks s2 0 = Some (h\<lparr>hc_buffer := [0, 0, 0, 0]\<rparr>, True)" "sys_shared s2 = sys_shared s"
    using sys_step.read [OF 1(2), of "[0, 0, 0, 0]" ?L] 1(3,4) s(3) by auto
  have nf: "next_frame [0, 0, 0, 0] = Some ([], [])" by (simp add: next_frame_def)
  obtain err where "open_payload ?L (Some demo_key) [] = Inl err"
    by (simp add: open_payload_def decrypt_def)
  then obtain s3 where 3: "sys_step ?L s2 (Ev_Reject 0) s3" "sys_tasks s3 0 = None"
    using sys_step.reject [OF 2(3), of "[]" "[]" ?L err] nf s(4) 2(2) by auto
  obtain k g where 4: "accept_client (sys_next s3) (sys_shared s3) = (k, g)" by fastforce
  obtain s4 where s4: "sys_step ?L s3 (Ev_Accept (sys_next s3)) s4" using sys_step.accept [OF refl 4] by blast
  note run2 = sys_run_snoc [OF sys_run_snoc [OF s(1) 1(1)] 2(1)]
  obtain x where x: "sh_sessions (sys_shared s2) ''a'' = Some x" "sess_tx x = 0" using s(6) 2(4) by auto
  have run4: "sys_run ?L s3 [Ev_Accept (sys_next s3)] s4" using s4 by (rule run_of_single)
  have d: "distinct (drawn_ids (((demo_events @ [Ev_Idle 0]) @ [Ev_Read 0 [0, 0, 0, 0]]) @ [Ev_Reject 0]
      @ [Ev_Accept (sys_next s3)]))"
    by (simp add: drawn_ids_def demo_events_def)
  have t: "sys_tasks s2 0 \<noteq> None" "Ev_Reject 0 \<noteq> Ev_Eof 0" using 2(3) by simp_all
  obtain y where y: "sh_sessions (sys_shared s4) ''a'' = Some y" "sess_tx y = 0"
    using failed_task_leaves_session [OF run2 x 3(1) t(1) 3(2) t(2) run4 d] by blast
  note run = sys_run_snoc [OF sys_run_snoc [OF run2 3(1)] s4]
  have "0 < sys_next s3" using sys_wfD(2) [OF sys_run_wf [OF run2] x(1)] x(2) 3(1) by (auto elim: sys_step.cases)
  then have "sys_tasks s4 0 = None" using s4 3(2) by (auto elim!: sys_step.cases)
  then show ?thesis using run y by fastforce
qed

end
