(* ===== verification/Server_Progress.thy ===== *)
theory Server_Progress
  imports Server_Refinement
begin

text \<open>
  Progress of the writer tasks. Under every schedule that gives the writer of a connection as many
  turns as packets are queued for it, all of them are sent, whatever the other tasks do meanwhile,
  as long as the connection neither breaks nor ends; and a turn of the writer is always possible.
\<close>

fun is_write :: "nat \<Rightarrow> sys_event \<Rightarrow> bool" where
  "is_write c (Ev_Write c') \<longleftrightarrow> c' = c"
| "is_write c _ \<longleftrightarrow> False"

fun is_eof :: "nat \<Rightarrow> sys_event \<Rightarrow> bool" where
  "is_eof c (Ev_Eof c') \<longleftrightarrow> c' = c"
| "is_eof c _ \<longleftrightarrow> False"

definition writes :: "nat \<Rightarrow> sys_event list \<Rightarrow> nat" where
  "writes c tr = length (filter (is_write c) tr)"

lemma writes_snoc [simp]: "writes c (tr @ [e]) = writes c tr + (if is_write c e then 1 else 0)"
  by (simp add: writes_def)

section \<open>One step\<close>

text \<open>The connection is open and does not break.\<close>

definition live :: "nat \<Rightarrow> System \<Rightarrow> bool" where
  "live c s \<longleftrightarrow> sys_wf s \<and> ch_open (sh_chans (sys_shared s) c) \<and> wr_limit (sys_out s c) = None"

text \<open>A step sends the first packet, if it is a turn of the writer and there is one; otherwise it
  keeps the stream and at most appends to the queue.\<close>

lemma live_step:
  assumes "live c s" "sys_step L s e s'" "\<not> is_eof c e"
  shows "live c s' \<and>
    ((\<exists>p ps. is_write c e \<and> queue c s = p # ps \<and> queue c s' = ps \<and> written c s' = written c s @ frame_of p)
     \<or> (\<exists>ps. (is_write c e \<longrightarrow> queue c s = []) \<and> queue c s' = queue c s @ ps \<and> written c s' = written c s))"
proof -
  have wf: "sys_wf s" and live: "ch_open (sh_chans (sys_shared s) c)" "wr_limit (sys_out s c) = None"
    using assms(1) by (simp_all add: live_def)
  have wf': "sys_wf s'" using sys_wf_step assms(2) wf by blast
  show ?thesis
  proof (cases "e = Ev_Write c")
    case True
    with assms(2) obtain w sh where "writer_step c (sys_out s c) (sys_shared s) = (w, sh)"
      "s' = s\<lparr>sys_shared := sh, sys_out := (sys_out s)(c := w)\<rparr>" by (auto elim: sys_step.cases)
    then show ?thesis using live wf' True
      by (cases "queue c s") (auto simp: writer_step_def send_message_ok live_def)
  next
    case False
    then have not: "e \<noteq> Ev_Write c" "e \<noteq> Ev_Eof c" "\<not> is_write c e" using assms(3) by (auto elim: is_write.elims)
    have "c \<noteq> sys_next s" using sys_wfD(3) [OF wf live(1)] by simp
    then show ?thesis using other_step [OF wf assms(2) not(1,2)] not(3) wf' live
      by (auto simp: live_def chan_extends_def)
  qed
qed

section \<open>Executions\<close>

text \<open>Relative to a state with queue \<open>qs\<close> and stream \<open>w\<close>: of these packets and those accepted later,
  at least as many have been sent as the writer had turns, up to the length of \<open>qs\<close>.\<close>

definition draining :: "nat \<Rightarrow> bytes list \<Rightarrow> bytes \<Rightarrow> sys_event list \<Rightarrow> System \<Rightarrow> bool" where
  "draining c qs w tr s \<longleftrightarrow> ((\<forall>e \<in> set tr. \<not> is_eof c e) \<longrightarrow> live c s
     \<and> (\<exists>sent later. qs @ later = sent @ queue c s \<and> written c s = w @ concat (map frame_of sent)
          \<and> min (writes c tr) (length qs) \<le> length sent))"

lemma draining_step:
  assumes "draining c qs w tr s" "sys_step L s e s'"
  shows "draining c qs w (tr @ [e]) s'"
  unfolding draining_def
proof
  assume no: "\<forall>x \<in> set (tr @ [e]). \<not> is_eof c x"
  then have live: "live c s" using assms(1) by (simp add: draining_def)
  obtain sent later where inv: "qs @ later = sent @ queue c s" "written c s = w @ concat (map frame_of sent)"
    "min (writes c tr) (length qs) \<le> length sent"
    using assms(1) no by (auto simp: draining_def)
  have "live c s'" using live_step [OF live assms(2)] no by simp
  moreover consider (sent) p ps where "is_write c e" "queue c s = p # ps" "queue c s' = ps"
      "written c s' = written c s @ frame_of p"
    | (kept) ps where "is_write c e \<longrightarrow> queue c s = []" "queue c s' = queue c s @ ps"
      "written c s' = written c s"
    using live_step [OF live assms(2)] no by auto
  then have "\<exists>sent later. qs @ later = sent @ queue c s' \<and> written c s' = w @ concat (map frame_of sent)
      \<and> min (writes c (tr @ [e])) (length qs) \<le> length sent"
  proof cases
    case (sent p ps)
    then show ?thesis using inv by (intro exI [of _ "sent @ [p]"] exI [of _ later]) auto
  next
    case (kept ps)
    have "min (writes c (tr @ [e])) (length qs) \<le> length sent"
    proof (cases "is_write c e")
      case True
      then have "length qs \<le> length sent"
        using kept(1) arg_cong [OF inv(1), of length] by simp
      then show ?thesis by simp
    qed (use inv(3) in simp)
    moreover have "qs @ later @ ps = sent @ queue c s'" using kept(2) inv(1) by (metis append.assoc)
    ultimately show ?thesis using kept(3) inv(2) by auto
  qed
  ultimately show "live c s' \<and> (\<exists>sent later. qs @ later = sent @ queue c s'
      \<and> written c s' = w @ concat (map frame_of sent) \<and> min (writes c (tr @ [e])) (length qs) \<le> length sent)"
    by blast
qed

interpretation writer: trace_invariant "sys_step L" "draining c qs w" for L c qs w
  by unfold_locales (rule draining_step)

text \<open>The writer can always take its turns.\<close>

lemma writer_turns:
  assumes "live c s"
  shows "\<exists>s'. sys_run L s (replicate n (Ev_Write c)) s' \<and> live c s'"
proof (induction n)
  case 0
  then show ?case using assms sys_run_start by auto
next
  case (Suc n)
  then obtain s1 where s1: "sys_run L s (replicate n (Ev_Write c)) s1" "live c s1" by blast
  obtain w sh where "writer_step c (sys_out s1 c) (sys_shared s1) = (w, sh)" by fastforce
  then obtain s2 where s2: "sys_step L s1 (Ev_Write c) s2"
    using sys_step.sent s1(2) unfolding live_def by blast
  then have "live c s2" using live_step [OF s1(2) s2] by simp
  then show ?case using sys_run_snoc [OF s1(1) s2] by (auto simp: replicate_append_same)
qed

section \<open>Properties\<close>

text \<open>C14: What is queued for a client is sent: in every execution of the server, from every reachable
  state, once the writer of an open and unbroken connection has had as many turns as packets are
  queued, the stream has these packets, in their order and right after what was sent before,
  whatever else happens in between, provided the client does not leave.\<close>

theorem queued_packets_are_sent:
  assumes "sys_run L (sys_init ac out) tr s" "ch_open (sh_chans (sys_shared s) c)" "wr_limit (sys_out s c) = None"
    and "sys_run L s tr' s'" "\<And>e. e \<in> set tr' \<Longrightarrow> \<not> is_eof c e"
    and "length (ch_queue (sh_chans (sys_shared s) c)) \<le> writes c tr'"
  shows "prefix (wr_written (sys_out s c) @ concat (map frame_of (ch_queue (sh_chans (sys_shared s) c))))
    (wr_written (sys_out s' c))"
proof -
  have "draining c (queue c s) (written c s) [] s"
    using sys_run_wf [OF assms(1)] assms(2,3)
    by (auto simp: draining_def live_def writes_def intro: exI [of _ "[]"])
  then have "draining c (queue c s) (written c s) tr' s'" by (rule writer.inv_run [OF assms(4)])
  then obtain sent later where "queue c s @ later = sent @ queue c s'"
    "written c s' = written c s @ concat (map frame_of sent)" "length (queue c s) \<le> length sent"
    using assms(5,6) unfolding draining_def by (metis min.absorb2)
  then show ?thesis by (auto simp: append_eq_append_conv2 prefix_def)
qed

text \<open>The answers to the login of the demonstration run.\<close>

theorem queued_packets_are_sent_witness:
  "\<exists>s s'. sys_run (demo_libs demo_talk) demo_start demo_events s
    \<and> sys_run (demo_libs demo_talk) s [Ev_Write 0, Ev_Write 0] s'
    \<and> prefix (frame_of [1] @ frame_of demo_grant) (wr_written (sys_out s' 0))"
proof -
  let ?L = "demo_libs demo_talk"
  obtain s where s: "sys_run ?L demo_start demo_events s" "sys_out s = sys_out demo_start"
    "sh_chans (sys_shared s) 0 = \<lparr>ch_queue = [[1], demo_grant], ch_open = True\<rparr>"
    using demo_run by metis
  then have out: "sys_out s 0 = \<lparr>wr_written = [], wr_limit = None\<rparr>" by (simp add: sys_init_def)
  then have "live 0 s" using s sys_run_wf [OF s(1)] by (simp add: live_def)
  then obtain s' where s': "sys_run ?L s [Ev_Write 0, Ev_Write 0] s'"
    using writer_turns [of 0 s ?L 2] by (auto simp: numeral_2_eq_2)
  have "\<not> is_eof 0 e" if "e \<in> set [Ev_Write 0, Ev_Write 0]" for e using that by auto
  from queued_packets_are_sent [OF s(1) _ _ s' this] s(3) out
  have "prefix (frame_of [1] @ frame_of demo_grant) (wr_written (sys_out s' 0))" by (simp add: writes_def)
  then show ?thesis using s(1) s' by blast
qed

end
