(* ===== verification/Client_Connection.thy ===== *)
theory Client_Connection
  imports Server
begin

text \<open>
  \<open>src/client/connection.rs\<close>: the client's handshake (key exchange, then authentication over the
  encrypted channel) and the two message loops it starts. The server is seen as the bytes it will
  send: \<open>stream\<close> is what is still to be read. The state of \<open>connect\<close> is the connection object, the
  stream and the outgoing side; every step keeps what has been written also when it fails.
\<close>

record Connection =
  cn_crypto :: "CryptoSession option"
  cn_session_token :: "string option"

type_synonym client_state = "Connection \<times> bytes \<times> Writer"

definition Connection_new :: Connection where
  "Connection_new = \<lparr>cn_crypto = None, cn_session_token = None\<rparr>"

section \<open>Messages on the stream\<close>

definition send_raw_message :: "libs \<Rightarrow> Message \<Rightarrow> client_state \<Rightarrow> client_state \<times> unit result" where
  "send_raw_message L msg st =
     and_then (st, Message_serialize (lb_bincode L) msg) (\<lambda>(cn, stream, w) data.
       case send_message w data of (w', r) \<Rightarrow> ((cn, stream, w'), r))"

definition read_raw_message :: "libs \<Rightarrow> client_state \<Rightarrow> client_state \<times> Message result" where
  "read_raw_message L st =
     (case st of (cn, stream, w) \<Rightarrow>
        (case receive_message stream of
           Inl e \<Rightarrow> (st, Inl e)
         | Inr (data, rest) \<Rightarrow> ((cn, rest, w), Message_deserialize (lb_bincode L) data)))"

definition send_encrypted_message ::
  "libs \<Rightarrow> bytes \<Rightarrow> Message \<Rightarrow> CryptoSession \<Rightarrow> client_state \<Rightarrow> client_state \<times> unit result" where
  "send_encrypted_message L nonce msg crypto st =
     and_then (st, Message_serialize (lb_bincode L) msg) (\<lambda>st data.
     and_then (st, encrypt (lb_crypto L) crypto nonce data) (\<lambda>(cn, stream, w) encrypted.
       case send_message w encrypted of (w', r) \<Rightarrow> ((cn, stream, w'), r)))"

definition read_encrypted_message ::
  "libs \<Rightarrow> CryptoSession \<Rightarrow> client_state \<Rightarrow> client_state \<times> Message result" where
  "read_encrypted_message L crypto st =
     (case st of (cn, stream, w) \<Rightarrow>
        (case receive_message stream of
           Inl e \<Rightarrow> (st, Inl e)
         | Inr (encrypted, rest) \<Rightarrow>
             ((cn, rest, w),
              try_bind (decrypt (lb_crypto L) crypto encrypted)
                (Message_deserialize (lb_bincode L)))))"

section \<open>The handshake\<close>

definition expect_ack :: "Message \<Rightarrow> bytes result" where
  "expect_ack m =
     (case m of
        Msg_KeyExchangeAck key \<Rightarrow> Inr key
      | _ \<Rightarrow> Inl (Anyhow ''Expected KeyExchangeAck''))"

definition exchange_keys ::
  "libs \<Rightarrow> bytes \<Rightarrow> client_state \<Rightarrow> client_state \<times> CryptoSession result" where
  "exchange_keys L secret st =
     (let lib = lb_crypto L;
          key_exchange = KeyExchange_new lib secret;
          our_public = public_key_bytes key_exchange
      in and_then (send_raw_message L (Msg_KeyExchange our_public) st) (\<lambda>st _.
         and_then (read_raw_message L st) (\<lambda>st their_key_msg.
         and_then (st, expect_ack their_key_msg) (\<lambda>st their_public_key.
         and_then (st, public_key_of_slice their_public_key) (\<lambda>st their_public.
         let shared_secret = compute_shared_secret lib key_exchange their_public
         in and_then (st, from_shared_secret lib shared_secret) (\<lambda>(cn, stream, w) crypto.
            ((cn\<lparr>cn_crypto := Some crypto\<rparr>, stream, w), Inr crypto)))))))"

definition expect_auth :: "Message \<Rightarrow> string option result" where
  "expect_auth m =
     (case m of
        Msg_AuthResponse success session_token \<Rightarrow>
          if \<not> success then Inl (Anyhow ''Authentication failed'') else Inr session_token
      | _ \<Rightarrow> Inl (Anyhow ''Expected AuthResponse''))"

text \<open>\<open>connect\<close> returns the messages already queued for the writer task. \<open>reachable\<close> is whether
  the TCP connection can be opened.\<close>

definition connect ::
  "libs \<Rightarrow> bool \<Rightarrow> bytes \<Rightarrow> bytes \<Rightarrow> string \<Rightarrow> client_state \<Rightarrow> client_state \<times> Message list result" where
  "connect L reachable secret nonce code st =
     (if \<not> reachable then (st, Inl (Anyhow ''Failed to connect to server''))
      else and_then (exchange_keys L secret st) (\<lambda>st crypto.
           and_then (send_encrypted_message L nonce (Msg_AuthRequest code) crypto st) (\<lambda>st _.
           and_then (read_encrypted_message L crypto st) (\<lambda>st auth_response.
           and_then (st, expect_auth auth_response) (\<lambda>(cn, stream, w) session_token.
             ((cn\<lparr>cn_session_token := session_token\<rparr>, stream, w), Inr [Msg_StartStream]))))))"

section \<open>The message loops\<close>

text \<open>
  The inner loop of the reader task: the messages handed to the application, the rest of the
  buffer, and whether the task goes on. \<open>alive\<close> says whether the application still takes
  messages; packets that do not decrypt or parse are skipped.
\<close>

function read_loop ::
  "libs \<Rightarrow> CryptoSession \<Rightarrow> bool \<Rightarrow> bytes \<Rightarrow> Message list \<times> bytes \<times> bool" where
  "read_loop L crypto alive buffer =
     (case next_frame buffer of
        None \<Rightarrow> ([], buffer, True)
      | Some (msg_data, rest) \<Rightarrow>
          (case decrypt (lb_crypto L) crypto msg_data of
             Inl _ \<Rightarrow> read_loop L crypto alive rest
           | Inr decrypted \<Rightarrow>
               (case Message_deserialize (lb_bincode L) decrypted of
                  Inl _ \<Rightarrow> read_loop L crypto alive rest
                | Inr msg \<Rightarrow>
                    if alive
                    then (case read_loop L crypto alive rest of (ms, r, b) \<Rightarrow> (msg # ms, r, b))
                    else ([], rest, False))))"
  by pat_completeness auto
termination
  by (relation "measure (\<lambda>(L, crypto, alive, buffer). length buffer)") (auto dest: tcp.nx_progress)

declare read_loop.simps [simp del]

text \<open>The reader task over a script of reads, each with the flag \<open>alive\<close>: what the application
  receives.\<close>

fun reader_task ::
  "libs \<Rightarrow> CryptoSession \<Rightarrow> (bool \<times> read_result) list \<Rightarrow> bytes \<Rightarrow> Message list" where
  "reader_task L crypto [] buffer = []"
| "reader_task L crypto ((alive, ReadError e) # rs) buffer = []"
| "reader_task L crypto ((alive, Data bs) # rs) buffer =
     (if bs = [] then []
      else case read_loop L crypto alive (buffer @ bs) of
             (ms, rest, go) \<Rightarrow> ms @ (if go then reader_task L crypto rs rest else []))"

text \<open>The writer task: one nonce per message; a message that cannot be encoded is skipped, a
  failing write ends the task.\<close>

fun writer_task ::
  "libs \<Rightarrow> CryptoSession \<Rightarrow> (Message \<times> bytes) list \<Rightarrow> Writer \<Rightarrow> Writer" where
  "writer_task L crypto [] w = w"
| "writer_task L crypto ((msg, nonce) # ms) w =
     (case Message_serialize (lb_bincode L) msg of
        Inl _ \<Rightarrow> writer_task L crypto ms w
      | Inr serialized \<Rightarrow>
          (case encrypt (lb_crypto L) crypto nonce serialized of
             Inl _ \<Rightarrow> writer_task L crypto ms w
           | Inr encrypted \<Rightarrow>
               (case send_message w encrypted of
                  (w', Inl _) \<Rightarrow> w'
                | (w', Inr _) \<Rightarrow> writer_task L crypto ms w')))"

section \<open>What the reader delivers\<close>

text \<open>The packets that open, in order.\<close>

definition opened :: "libs \<Rightarrow> CryptoSession \<Rightarrow> bytes list \<Rightarrow> Message list" where
  "opened L crypto ps =
     concat (map (\<lambda>p. case open_payload L (Some crypto) p of Inl _ \<Rightarrow> [] | Inr m \<Rightarrow> [m]) ps)"

lemma opened_simps [simp]:
  "opened L crypto [] = []" "opened L crypto (ps @ qs) = opened L crypto ps @ opened L crypto qs"
  by (simp_all add: opened_def)

lemma read_loop_frames:
  "read_loop L crypto True buffer =
    (case split_stream next_frame buffer of (ps, rest) \<Rightarrow> (opened L crypto ps, rest, True))"
proof (induction "length buffer" arbitrary: buffer rule: less_induct)
  case less
  show ?case
  proof (cases "next_frame buffer")
    case None
    then show ?thesis by (subst read_loop.simps, subst tcp.split_stream_unfold) simp
  next
    case (Some q)
    obtain p rest where q: "q = (p, rest)" by force
    have IH: "read_loop L crypto True rest =
        (case split_stream next_frame rest of (ps, r) \<Rightarrow> (opened L crypto ps, r, True))"
      using less.hyps [of rest] tcp.nx_progress Some q by blast
    show ?thesis
      using Some q IH
      by (subst read_loop.simps, subst tcp.split_stream_unfold)
        (auto simp: opened_def open_payload_def split: sum.split prod.split)
  qed
qed

lemma reader_task_frames:
  assumes "[] \<notin> set chunks" "next_frame buffer = None"
  shows "reader_task L crypto (map (\<lambda>c. (True, Data c)) chunks) buffer =
    opened L crypto (fst (split_stream next_frame (buffer @ concat chunks)))"
  using assms
proof (induction chunks arbitrary: buffer)
  case Nil
  then show ?case by (subst tcp.split_stream_unfold) simp
next
  case (Cons c cs)
  obtain ps rest where s: "split_stream next_frame (buffer @ c) = (ps, rest)" by force
  have "split_stream next_frame ((buffer @ c) @ concat cs) =
      (case split_stream next_frame (rest @ concat cs) of (ms', r') \<Rightarrow> (ps @ ms', r'))"
    using tcp.split_stream_append [of "buffer @ c" "concat cs"] s by simp
  then have "fst (split_stream next_frame (buffer @ c @ concat cs))
      = ps @ fst (split_stream next_frame (rest @ concat cs))"
    by (simp split: prod.splits)
  moreover have "c \<noteq> []" using Cons.prems(1) by auto
  ultimately show ?case using Cons s tcp.split_stream_rest [OF s] by (simp add: read_loop_frames)
qed

lemma client_reads_packet:
  assumes "[] \<notin> set chunks" "concat chunks = frame_of packet" "fits_u32 packet"
    and "open_payload L (Some K) packet = Inr m"
  shows "reader_task L K (map (\<lambda>c. (True, Data c)) chunks) [] = [m]"
proof -
  have "split_stream next_frame (frame_of packet) = ([packet], [])"
    using tcp.split_stream_encode [of "[packet]" "[]"] assms(3) by (simp add: split_stream_def)
  then show ?thesis using reader_task_frames [OF assms(1), of "[]" L K] assms(2,4)
    by (simp add: opened_def)
qed

lemma writer_task_stream:
  assumes "wr_limit w = None"
    and "list_all (\<lambda>((m, n), p). seal_message L n m (Some crypto) = Inr p) (zip mns ps)" "length mns = length ps"
  shows "wr_written (writer_task L crypto mns w) = wr_written w @ concat (map frame_of ps)"
  using assms(3,1,2)
proof (induction mns ps arbitrary: w rule: list_induct2)
  case (Cons x xs y ys)
  obtain m n where x: "x = (m, n)" by force
  then obtain ser where "Message_serialize (lb_bincode L) m = Inr ser"
    "encrypt (lb_crypto L) crypto n ser = Inr y"
    using Cons.prems by (auto simp: seal_message_def try_bind_Inr_iff)
  then show ?case using Cons x by (simp add: send_message_ok)
qed simp

section \<open>Properties\<close>

text \<open>C11: The client's message channel works end to end: everything its peer's writer task sends
  under the shared key is handed to the application, complete and in order, however the network
  cuts the stream into chunks.\<close>

theorem client_receives_what_was_sent:
  assumes "codec_correct (lb_bincode L)" "aead_correct (lb_crypto L)"
    and "list_all (\<lambda>(m, n). length n = 12) mns"
    and "list_all (\<lambda>((m, n), p). seal_message L n m (Some crypto) = Inr p) (zip mns ps)"
    and "list_all (\<lambda>p. length p < 2 ^ 32) ps" "length mns = length ps"
    and "[] \<notin> set chunks" "wr_limit w = None" "wr_written w = []"
    and "concat chunks = wr_written (writer_task L crypto mns w)"
  shows "reader_task L crypto (map (\<lambda>c. (True, Data c)) chunks) [] = map fst mns"
proof -
  have fits: "list_all fits_u32 ps" using assms(5) by (simp add: fits_u32_def [abs_def])
  have "concat chunks = concat (map frame_of ps)"
    using assms(10) writer_task_stream [OF assms(8,4,6)] assms(9) by simp
  then have "split_stream next_frame (concat chunks) = (ps, [])"
    using tcp.split_stream_encode [OF fits, of "[]"] by (simp add: split_stream_def)
  then have "reader_task L crypto (map (\<lambda>c. (True, Data c)) chunks) [] = opened L crypto ps"
    using reader_task_frames [OF assms(7), of "[]" L crypto] by simp
  also have "\<dots> = map fst mns"
    using assms(6,3,4)
  proof (induction mns ps rule: list_induct2)
    case (Cons x xs y ys)
    obtain m n where x: "x = (m, n)" by force
    then have "open_payload L (Some crypto) y = Inr m"
      using open_sealed [OF assms(1,2)] Cons.prems by auto
    then show ?case using Cons x by (simp add: opened_def)
  qed simp
  finally show ?thesis .
qed

theorem client_receives_what_was_sent_witness:
  "reader_task (demo_libs [Msg_Ping 5]) \<lparr>cs_cipher = [7]\<rparr>
     (map (\<lambda>c. (True, Data c)) [[0, 0], [0, 14] @ replicate 12 0, [0, 7]]) [] = [Msg_Ping 5]"
proof -
  let ?L = "demo_libs [Msg_Ping 5]" and ?w = "\<lparr>wr_written = [], wr_limit = None\<rparr>"
  let ?p = "replicate 12 0 @ [0, 7]" and ?c = "\<lparr>cs_cipher = [7]\<rparr>"
  have seal: "seal_message ?L (replicate 12 0) (Msg_Ping 5) (Some ?c) = Inr ?p"
    by (simp add: seal_message_def Message_serialize_def demo_libs_def table_bincode_def encrypt_def demo_lib_def)
  have "wr_written (writer_task ?L ?c [(Msg_Ping 5, replicate 12 0)] ?w) = frame_of ?p"
    using writer_task_stream [of ?w ?L ?c "[(Msg_Ping 5, replicate 12 0)]" "[?p]"] seal by simp
  then have "concat [[0, 0], [0, 14] @ replicate 12 0, [0, 7]]
      = wr_written (writer_task ?L ?c [(Msg_Ping 5, replicate 12 0)] ?w)"
    by (simp add: frame_of_def to_be_bytes_def)
  then show ?thesis
    using client_receives_what_was_sent [of ?L "[(Msg_Ping 5, replicate 12 0)]" ?c "[?p]"
        "[[0, 0], [0, 14] @ replicate 12 0, [0, 7]]" ?w] seal
    by (simp add: demo_libs_def table_bincode_correct demo_lib_ok)
qed

end
