(* ===== verification/Server_Channel.thy ===== *)
theory Server_Channel
  imports Server_Refinement Client_Connection
begin

text \<open>
  What stands in the log of a connection (\<open>hist_step\<close> of \<open>Server_Refinement\<close>). As long as a connection
  exchanges keys once, the log has the server's public key first, and every later packet, whether the
  answer to a message, an answer queued late or a captured frame, is sealed under the key both ends have
  derived. So the client's reader, which skips what it cannot open, has nothing to skip.
\<close>

section \<open>The packets of a message\<close>

text \<open>The packet carries the message, sealed under the key.\<close>

definition carries :: "libs \<Rightarrow> CryptoSession \<Rightarrow> bytes \<Rightarrow> Message \<Rightarrow> bool" where
  "carries L K p m \<longleftrightarrow> (\<exists>n. length n = 12 \<and> seal_message L n m (Some K) = Inr p)"

definition sealed_under :: "libs \<Rightarrow> CryptoSession \<Rightarrow> bytes \<Rightarrow> bool" where
  "sealed_under L K p \<longleftrightarrow> (\<exists>m. carries L K p m)"

text \<open>Only packets sealed under the key are added to the queue.\<close>

definition adds_sealed :: "libs \<Rightarrow> CryptoSession \<Rightarrow> nat \<Rightarrow> Shared \<Rightarrow> Shared \<Rightarrow> bool" where
  "adds_sealed L K c sh sh' \<longleftrightarrow>
     (\<exists>ps. ch_queue (sh_chans sh' c) = ch_queue (sh_chans sh c) @ ps \<and> list_all (sealed_under L K) ps)"

lemma adds_sealed_same [simp]: "sh_chans sh' = sh_chans sh \<Longrightarrow> adds_sealed L K c sh sh'"
  by (simp add: adds_sealed_def)

lemma adds_sealed_cong: "sh_chans sh1 = sh_chans sh \<Longrightarrow> adds_sealed L K c sh1 sh' \<longleftrightarrow> adds_sealed L K c sh sh'"
  by (simp add: adds_sealed_def)

lemma send_encrypted_sealed:
  assumes "send_encrypted L n tx m (Some K) sh = (sh', r)" "length n = 12"
  shows "adds_sealed L K tx sh sh'"
proof (cases "seal_message L n m (Some K)")
  case (Inl e)
  then show ?thesis using assms(1) by (simp add: send_encrypted_def)
next
  case (Inr p)
  then have "sh' = fst (chan_send tx p sh)" using assms(1) by (simp add: send_encrypted_def)
  then show ?thesis using Inr assms(2)
    by (auto simp: adds_sealed_def chan_send_queue sealed_under_def carries_def)
qed

lemma prepare_frame:
  assumes "prepare L d m h sh = Some ((h', sh'), r)"
  shows "sh_chans sh' = sh_chans sh" "hc_conn h' = hc_conn h" "hc_crypto_session h' = hc_crypto_session h"
  using assms by (cases rule: prepare_cases; simp)+

text \<open>The arms of the \<open>match\<close> that send: those that are \<open>prepare\<close> and \<open>send_reply\<close>, the key exchange, and
  the change of quality.\<close>

lemma handle_message_sends:
  assumes "handle_message L d m h sh = ((h', sh'), r)"
  obtains (reply) q where "prepare L d m h sh = Some q"
  | (key) key u where "m = Msg_KeyExchange key" "on_key_exchange L d key h sh = ((h', sh'), u)"
  | (mode) q u where "on_request_quality L d q h sh = ((h', sh'), u)"
  | (quiet) "h' = h" "sh_chans sh' = sh_chans sh" "sh_sessions sh' = sh_sessions sh \<or> hc_session_id h \<noteq> None"
proof (cases m)
  case Msg_StartStream
  then show ?thesis using assms reply quiet
    by (cases "session_of h sh") (auto simp: on_start_stream_def go_on_def)
next
  case (Msg_FrameAck t t')
  then have "on_frame_ack d t t' h sh = ((h', sh'), Inr ()) \<or> (\<exists>u. on_frame_ack d t t' h sh = ((h', sh'), u))"
    using assms by (auto dest: go_on_state)
  then show ?thesis using quiet
    by (auto simp: on_frame_ack_def session_of_def Let_def split: option.splits prod.splits)
next
  case (Msg_KeyExchange key)
  then show ?thesis using assms that(2) by (auto dest: go_on_state)
next
  case (Msg_RequestQualityChange q)
  then show ?thesis using assms that(3) by (auto dest: go_on_state)
qed (use assms reply quiet in \<open>auto simp: input_defs dest!: go_on_state dest: replay_frame\<close>)

lemma handle_message_sealed:
  assumes hm: "handle_message L d m h sh = ((h', sh'), r)" and "\<And>key. m \<noteq> Msg_KeyExchange key"
    and K: "hc_crypto_session h = Some K" and n: "length (dr_nonce d) = 12"
  shows "adds_sealed L K (hc_conn h) sh sh'"
  using hm
proof (cases rule: handle_message_sends)
  case (reply q)
  obtain h1 sh1 a where q: "q = ((h1, sh1), a)" by (metis prod.exhaust)
  note fr = prepare_frame [OF reply [unfolded q]]
  have r: "go_on (send_reply L (dr_nonce d) ((h1, sh1), a)) = ((h', sh'), r)"
    using hm prepare_handle [OF reply] q by simp
  show ?thesis
  proof (cases a)
    case (Inl e)
    then show ?thesis using r fr(1) by (auto simp: send_reply_def go_on_def)
  next
    case (Inr msg)
    then obtain u where "send_encrypted L (dr_nonce d) (hc_conn h) msg (Some K) sh1 = (sh', u)"
      using r fr K by (auto simp: send_reply_def dest!: go_on_state split: prod.splits)
    then show ?thesis using send_encrypted_sealed [OF _ n] adds_sealed_cong [OF fr(1)] by blast
  qed
next
  case (key key u)
  then show ?thesis using assms(2) by blast
next
  case (mode q u)
  show ?thesis
  proof (cases "session_of h sh")
    case None
    then show ?thesis using mode by (simp add: on_request_quality_def)
  next
    case (Some js)
    then obtain ctl u' where "send_encrypted L (dr_nonce d) (hc_conn h) (Msg_QualityChange q) (Some K)
        (put_controller (fst js) ctl sh) = (sh', u')"
      using mode K by (auto simp: on_request_quality_def Let_def split: prod.splits)
    from send_encrypted_sealed [OF this n] show ?thesis
      using adds_sealed_cong [of "put_controller (fst js) ctl sh" sh] by simp
  qed
qed simp

text \<open>Before the key exchange a task has nothing to answer with.\<close>

lemma unkeyed_quiet:
  assumes "hc_crypto_session h = None" "hc_session_id h = None" "\<And>key. m \<noteq> Msg_KeyExchange key"
  shows "handle_message L d m h sh = ((h', sh'), r) \<Longrightarrow> h' = h \<and> sh_chans sh' = sh_chans sh"
    "prepare L d m h sh \<noteq> Some (x, Inr a)"
proof -
  show no: "prepare L d m h sh \<noteq> Some (x, Inr a)" for x a
    using assms by (cases m) (auto simp: admit_def session_of_def)
  assume hm: "handle_message L d m h sh = ((h', sh'), r)"
  then show "h' = h \<and> sh_chans sh' = sh_chans sh"
  proof (cases rule: handle_message_sends)
    case (reply q)
    obtain h1 sh1 e where q: "q = ((h1, sh1), Inl e)" using no reply by (metis prod.exhaust sumE)
    have "h1 = h \<and> sh1 = sh" using reply unfolding q
      by (cases rule: prepare_cases) (use assms(1) in simp_all)
    then show ?thesis using hm prepare_handle [OF reply] q by (simp add: send_reply_def go_on_def)
  next
    case (mode q u)
    then show ?thesis using assms(2) by (simp add: on_request_quality_def session_of_def)
  qed (use assms(3) in simp_all)
qed

lemma on_key_exchange_queue:
  assumes "on_key_exchange L d key h sh = ((h', sh'), r)"
  shows "\<exists>ps. ch_queue (sh_chans sh' (hc_conn h)) = ch_queue (sh_chans sh (hc_conn h)) @ ps \<and> length ps \<le> 1"
proof -
  have "ch_queue (sh_chans sh1 tx) = ch_queue (sh_chans sh tx) @ [p] \<or> sh1 = sh"
    if "chan_send tx p sh = (sh1, u)" for tx p sh1 u
    using that by (rule chan_send_cases) simp_all
  then show ?thesis using assms
    by (fastforce simp: on_key_exchange_def Let_def and_then_def split: sum.splits prod.splits)
qed

section \<open>The steps of a connection\<close>

fun is_key_exchange :: "nat \<Rightarrow> sys_event \<Rightarrow> bool" where
  "is_key_exchange c (Ev_Message c' d (Msg_KeyExchange key)) \<longleftrightarrow> c' = c"
| "is_key_exchange c _ \<longleftrightarrow> False"

lemma serve_frame_endpoints: "endpoints (serve_frame L env f ids sh) = endpoints sh"
  by (auto simp only: endpoints_iff serve_frame_identity)

lemma accepted_same: "sh_chans (sys_shared s') c = sh_chans (sys_shared s) c \<Longrightarrow> accepted e s s' c = []"
  by (simp add: accepted_def)

text \<open>What a step can be for one connection.\<close>

definition untouched :: "nat \<Rightarrow> sys_event \<Rightarrow> System \<Rightarrow> System \<Rightarrow> bool" where
  "untouched c e s s' \<longleftrightarrow>
     (\<forall>d m. e \<noteq> Ev_Message c d m) \<and> accepted e s s' c = [] \<and> sys_pending s' c = sys_pending s c
     \<and> (\<forall>K. (c, K) \<in> endpoints (sys_shared s') \<longrightarrow> (c, K) \<in> endpoints (sys_shared s))
     \<and> (\<forall>h' b'. sys_tasks s' c = Some (h', b') \<longrightarrow> (\<exists>h b. sys_tasks s c = Some (h, b)
          \<and> hc_crypto_session h' = hc_crypto_session h \<and> hc_session_id h' = hc_session_id h))"

lemma handles_endpoints:
  assumes "handles L d m h sh h' sh'" "(c, K) \<in> endpoints sh'"
  shows "(c, K) \<in> endpoints sh \<or> c = hc_conn h \<and> hc_crypto_session h = Some K \<and> (\<exists>code. m = Msg_AuthRequest code)"
proof -
  obtain i x where x: "sh_sessions sh' i = Some x" "endpoint x = (c, K)"
    using assms(2) unfolding endpoints_def by auto
  then show ?thesis using handles_sessions [OF assms(1) x(1)] by (auto simp: endpoint_def endpoints_def)
qed

lemma untouchedI:
  assumes "\<And>d m. e \<noteq> Ev_Message c d m" "sys_pending s' c = sys_pending s c"
    and "sh_chans (sys_shared s') c = sh_chans (sys_shared s) c \<or> e = Ev_Write c \<or> e = Ev_Eof c"
    and "\<And>i x. sh_sessions (sys_shared s') i = Some x \<Longrightarrow> sess_tx x = c \<Longrightarrow>
      \<exists>y. sh_sessions (sys_shared s) i = Some y \<and> endpoint x = endpoint y"
    and "\<And>h' b'. sys_tasks s' c = Some (h', b') \<Longrightarrow> \<exists>h b. sys_tasks s c = Some (h, b)
          \<and> hc_crypto_session h' = hc_crypto_session h \<and> hc_session_id h' = hc_session_id h"
  shows "untouched c e s s'"
proof -
  have "(c, K) \<in> endpoints (sys_shared s)" if K: "(c, K) \<in> endpoints (sys_shared s')" for K
  proof -
    obtain i x where x: "sh_sessions (sys_shared s') i = Some x" "endpoint x = (c, K)"
      using K unfolding endpoints_def by auto
    then have "sess_tx x = c" by (simp add: endpoint_def)
    then show ?thesis using assms(4) [OF x(1)] x(2) unfolding endpoints_def by auto
  qed
  moreover have "accepted e s s' c = []" using assms(3) by (auto simp: accepted_def)
  ultimately show ?thesis using assms(1,2,5) unfolding untouched_def by blast
qed

lemma other_message:
  assumes "sys_wf s" "sys_tasks s k = Some (h, True)" "handles L d m (taken h rest) (sys_shared s) h' sh'" "k \<noteq> c"
  shows "sh_chans sh' c = sh_chans (sys_shared s) c"
    "sh_sessions sh' i = Some x \<Longrightarrow> sess_tx x = c \<Longrightarrow>
      \<exists>y. sh_sessions (sys_shared s) i = Some y \<and> endpoint x = endpoint y"
proof -
  have k: "hc_conn (taken h rest) = k" using sys_wfD(1) [OF assms(1,2)] by (simp add: taken_def)
  show "sh_chans sh' c = sh_chans (sys_shared s) c"
    using handles_frame [OF assms(3)] k assms(4) by (simp add: handler_frame_def)
  show "\<exists>y. sh_sessions (sys_shared s) i = Some y \<and> endpoint x = endpoint y"
    if "sh_sessions sh' i = Some x" "sess_tx x = c"
    using handles_sessions [OF assms(3) that(1)] that(2) k assms(4) by (auto simp: endpoint_def)
qed

lemma conn_cases:
  assumes wf: "sys_wf s" and step: "sys_step L s e s'"
  obtains
    (handled) h rest d m h' r where "e = Ev_Message c d m" "sys_tasks s c = Some (h, True)"
      "sys_pending s' c = sys_pending s c" "length (dr_nonce d) = 12"
      "handle_message L d m (taken h rest) (sys_shared s) = ((h', sys_shared s'), r)"
      "\<forall>k b. sys_tasks s' c = Some (k, b) \<longrightarrow> k = h' \<and> (\<exists>f. r = Inr f)"
  | (prepared) h rest d m h' a where "e = Ev_Message c d m" "sys_tasks s c = Some (h, True)"
      "length (dr_nonce d) = 12" "prepare L d m (taken h rest) (sys_shared s) = Some ((h', sys_shared s'), Inr a)"
      "sys_tasks s' c = Some (h', True)" "sys_pending s' c = Some (dr_nonce d, a)"
  | (replied) h n a r where "e = Ev_Reply c" "sys_tasks s c = Some (h, True)" "sys_pending s c = Some (n, a)"
      "send_encrypted L n c a (hc_crypto_session h) (sys_shared s) = (sys_shared s', r)" "sys_pending s' c = None"
      "\<forall>k b. sys_tasks s' c = Some (k, b) \<longrightarrow> k = h"
  | (opened) "e = Ev_Accept c" "c = sys_next s" "sh_sessions (sys_shared s') = sh_sessions (sys_shared s)"
      "queue c s' = []" "sys_pending s' c = sys_pending s c"
      "\<forall>h b. sys_tasks s' c = Some (h, b) \<longrightarrow> hc_crypto_session h = None \<and> hc_session_id h = None"
  | (frame) f env ids where "e = Ev_Frame f" "\<forall>i. length (dr_nonce (env i)) = 12"
      "sys_shared s' = serve_frame L env f ids (sys_shared s)" "sys_tasks s' = sys_tasks s" "sys_pending s' = sys_pending s"
  | (other) "untouched c e s s'"
  using step
proof (cases rule: sys_step.cases)
  case (accept k h sh)
  show ?thesis
  proof (cases "k = c")
    case True
    then show ?thesis using accept by (intro opened) (auto simp: accept_client_def)
  next
    case False
    then show ?thesis using accept
      by (intro other untouchedI) (auto simp: accept_client_def)
  qed
next
  case (message k h p rest m d h' sh' f)
  show ?thesis
  proof (cases "k = c")
    case True
    then show ?thesis using message by (intro handled) auto
  next
    case False
    note o = other_message [OF wf message(3) handlesI(1) [OF message(6)] False]
    then show ?thesis using message False by (intro other untouchedI) auto
  qed
next
  case (failed k h p rest m d h' sh' er)
  show ?thesis
  proof (cases "k = c")
    case True
    then show ?thesis using failed by (intro handled) auto
  next
    case False
    note o = other_message [OF wf failed(3) handlesI(1) [OF failed(6)] False]
    then show ?thesis using failed False by (intro other untouchedI) auto
  qed
next
  case (prepared k h p rest m d h' sh' ans)
  show ?thesis
  proof (cases "k = c")
    case True
    then show ?thesis using prepared by (intro that(2)) auto
  next
    case False
    note o = other_message [OF wf prepared(3) handlesI(2) [OF prepared(6)] False]
    then show ?thesis using prepared False by (intro other untouchedI) auto
  qed
next
  case (replied k h n ans sh')
  have k: "hc_conn h = k" using sys_wfD(1) [OF wf replied(3)] by simp
  show ?thesis
  proof (cases "k = c")
    case True
    then show ?thesis using replied k by (intro that(3)) auto
  next
    case False
    then show ?thesis using replied k send_encrypted_frame [OF replied(5)]
      by (intro other untouchedI) (auto simp: same_but_chan_def)
  qed
next
  case (reply_failed k h n ans sh' er)
  have k: "hc_conn h = k" using sys_wfD(1) [OF wf reply_failed(3)] by simp
  show ?thesis
  proof (cases "k = c")
    case True
    then show ?thesis using reply_failed k by (intro that(3)) auto
  next
    case False
    then show ?thesis using reply_failed k send_encrypted_frame [OF reply_failed(5)]
      by (intro other untouchedI) (auto simp: same_but_chan_def)
  qed
next
  case (frame ids env f)
  then show ?thesis by (intro that(5)) auto
next
  case (eof k h part)
  have k: "hc_conn h = k" using sys_wfD(1) [OF wf eof(3)] by simp
  have "sh_chans (cleanup h (sys_shared s)) c = sh_chans (sys_shared s) c" if "k \<noteq> c"
    using that k by (auto simp: cleanup_def Let_def split: option.split)
  then show ?thesis using eof by (intro other untouchedI) (auto dest: cleanup_frame(2) split: if_splits)
next
  case (sent k w sh)
  have "sh_chans sh c = sh_chans (sys_shared s) c" if "k \<noteq> c"
    using that sent(4) by (auto simp: writer_step_def split: list.splits prod.splits sum.splits)
  then show ?thesis using sent writer_step_frame [OF sent(4)]
    by (intro other untouchedI) auto
next
  case (read k h bs)
  then show ?thesis by (intro other untouchedI) (auto split: if_splits)
next
  case (idle k h)
  then show ?thesis by (intro other untouchedI) (auto split: if_splits)
next
  case (reject k h p rest er)
  then show ?thesis by (intro other untouchedI) (auto split: if_splits)
next
  case (read_error k h)
  then show ?thesis by (intro other untouchedI) (auto split: if_splits)
qed

section \<open>The key of a connection\<close>

text \<open>The keys under which packets may be put on the channel of a connection: that of its task and those
  of its sessions.\<close>

definition may_seal :: "nat \<Rightarrow> System \<Rightarrow> CryptoSession \<Rightarrow> bool" where
  "may_seal c s K \<longleftrightarrow>
     (\<exists>h b. sys_tasks s c = Some (h, b) \<and> hc_crypto_session h = Some K) \<or> (c, K) \<in> endpoints (sys_shared s)"

text \<open>A connection before its key exchange, and after it.\<close>

definition unkeyed :: "nat \<Rightarrow> System \<Rightarrow> bool" where
  "unkeyed c s \<longleftrightarrow> sys_pending s c = None \<and> (\<forall>K. (c, K) \<notin> endpoints (sys_shared s))
     \<and> (\<forall>h b. sys_tasks s c = Some (h, b) \<longrightarrow> hc_crypto_session h = None \<and> hc_session_id h = None)"

definition keyed :: "nat \<Rightarrow> System \<Rightarrow> bool" where
  "keyed c s \<longleftrightarrow> c < sys_next s \<and> (\<forall>n m. sys_pending s c = Some (n, m) \<longrightarrow> length n = 12)
     \<and> (\<forall>h b. sys_tasks s c = Some (h, b) \<longrightarrow> hc_crypto_session h \<noteq> None)"

lemma unkeyed_step:
  assumes "sys_wf s" "sys_step L s e s'" "\<not> is_key_exchange c e" "unkeyed c s"
  shows "unkeyed c s' \<and> accepted e s s' c = []"
  using assms(1,2)
proof (cases rule: conn_cases [where c = c])
  case (handled h rest d m h' r)
  have h: "hc_crypto_session (taken h rest) = None" "hc_session_id (taken h rest) = None" "hc_conn (taken h rest) = c"
    using assms(4) handled(2) sys_wfD(1) [OF assms(1) handled(2)] by (auto simp: unkeyed_def taken_def)
  have m: "m \<noteq> Msg_KeyExchange key" for key using assms(3) handled(1) by auto
  have q: "h' = taken h rest" "sh_chans (sys_shared s') = sh_chans (sys_shared s)"
    using unkeyed_quiet(1) [OF h(1,2) m handled(5)] by simp_all
  have "(c, K) \<notin> endpoints (sys_shared s')" for K
    using handles_endpoints [OF handlesI(1) [OF handled(5)]] h(1) assms(4) by (auto simp: unkeyed_def)
  then show ?thesis using assms(4) handled(3,6) q h accepted_same by (auto simp: unkeyed_def)
next
  case (prepared h rest d m h' a)
  have h: "hc_crypto_session (taken h rest) = None" "hc_session_id (taken h rest) = None"
    using assms(4) prepared(2) by (auto simp: unkeyed_def taken_def)
  have "m \<noteq> Msg_KeyExchange key" for key using assms(3) prepared(1) by auto
  then show ?thesis using unkeyed_quiet(2) [OF h] prepared(4) by blast
next
  case (replied h n a r)
  then show ?thesis using assms(4) by (simp add: unkeyed_def)
next
  case opened
  then show ?thesis using assms(4) by (auto simp: unkeyed_def endpoints_def accepted_def)
next
  case (frame f env ids)
  have "accepted e s s' c = []"
    using serve_frame_packets [OF frame(2), of L f ids "sys_shared s" c] frame(3) assms(4)
    by (auto simp: accepted_def unkeyed_def frame_packets_def)
  then show ?thesis using assms(4) frame serve_frame_endpoints by (simp add: unkeyed_def)
next
  case other
  then show ?thesis using assms(4) by (fastforce simp: unkeyed_def untouched_def)
qed

lemma keyed_step:
  assumes wf: "sys_wf s" and step: "sys_step L s e s'" and k: "\<not> is_key_exchange c e" "keyed c s"
  shows "keyed c s' \<and> (\<forall>K. may_seal c s' K \<longrightarrow> may_seal c s K)
    \<and> (\<forall>p \<in> set (accepted e s s' c). \<exists>K. may_seal c s K \<and> sealed_under L K p)"
proof -
  have next': "c < sys_next s'" using step k(2) by (auto simp: keyed_def elim!: sys_step.cases)
  have crypto: "\<exists>K. hc_crypto_session h = Some K" if "sys_tasks s c = Some (h, b)" for h b
    using k(2) that by (auto simp: keyed_def)
  have task: "may_seal c s K" if "sys_tasks s c = Some (h, b)" "hc_crypto_session h = Some K" for h b K
    using that by (auto simp: may_seal_def)
  from wf step show ?thesis
  proof (cases rule: conn_cases [where c = c])
    case (handled h rest d m h' r)
    obtain K0 where K0: "hc_crypto_session h = Some K0" using crypto [OF handled(2)] by blast
    have h: "hc_crypto_session (taken h rest) = Some K0" "hc_conn (taken h rest) = c"
      using K0 sys_wfD(1) [OF wf handled(2)] by (auto simp: taken_def)
    have m: "m \<noteq> Msg_KeyExchange key" for key using k(1) handled(1) by auto
    have h': "hc_crypto_session g = Some K0" if "sys_tasks s' c = Some (g, b)" for g b
      using handled(5,6) that handle_message_crypto [of L d m "taken h rest" "sys_shared s" h' "sys_shared s'"] h(1) m
      by (cases m) auto
    have "may_seal c s K" if "may_seal c s' K" for K
      using that h' handles_endpoints [OF handlesI(1) [OF handled(5)]] h(1) K0 handled(2) task
      unfolding may_seal_def by fastforce
    moreover have "adds_sealed L K0 c (sys_shared s) (sys_shared s')"
      using handle_message_sealed [OF handled(5) m h(1) handled(4)] h(2) by simp
    then have "\<forall>p \<in> set (accepted e s s' c). sealed_under L K0 p"
      by (auto simp: adds_sealed_def accepted_def list_all_iff)
    ultimately show ?thesis using h' next' handled(3) k(2) task [OF handled(2) K0] by (auto simp: keyed_def)
  next
    case (prepared h rest d m h' a)
    obtain K0 where K0: "hc_crypto_session h = Some K0" using crypto [OF prepared(2)] by blast
    note fr = prepare_frame [OF prepared(4)]
    have "may_seal c s K" if "may_seal c s' K" for K
      using that prepared(5) fr(3) handles_endpoints [OF handlesI(2) [OF prepared(4)]] task [OF prepared(2)]
      unfolding may_seal_def by (fastforce simp: taken_def)
    then show ?thesis using next' prepared(3,5,6) fr K0 accepted_same by (auto simp: keyed_def taken_def)
  next
    case (replied h n a r)
    obtain K0 where K0: "hc_crypto_session h = Some K0" using crypto [OF replied(2)] by blast
    have "length n = 12" using k(2) replied(3) by (simp add: keyed_def)
    then have "adds_sealed L K0 c (sys_shared s) (sys_shared s')"
      using send_encrypted_sealed replied(4) K0 by metis
    then have "\<forall>p \<in> set (accepted e s s' c). sealed_under L K0 p"
      by (auto simp: adds_sealed_def accepted_def list_all_iff)
    moreover have "may_seal c s K" if "may_seal c s' K" for K
      using that replied(2,6) send_encrypted_frame [OF replied(4)]
      by (auto simp: may_seal_def same_but_chan_def endpoints_def)
    ultimately show ?thesis using next' replied(5,6) K0 task [OF replied(2) K0] by (auto simp: keyed_def)
  next
    case opened
    then show ?thesis using k(2) by (simp add: keyed_def)
  next
    case (frame f env ids)
    obtain ps where ps: "queue c s' = queue c s @ ps" "frame_packets L f (endpoints (sys_shared s)) c ps"
      using serve_frame_packets [OF frame(2), of L f ids "sys_shared s" c] frame(3) by auto
    have "\<exists>K. may_seal c s K \<and> sealed_under L K p" if "p \<in> set (accepted e s s' c)" for p
    proof -
      have "p \<in> set ps" using that ps(1) frame(1) by (simp add: accepted_def)
      then obtain m n K where "length n = 12" "seal_message L n m (Some K) = Inr p" "(c, K) \<in> endpoints (sys_shared s)"
        using ps(2) unfolding frame_packets_def by blast
      then show ?thesis unfolding may_seal_def sealed_under_def carries_def by blast
    qed
    then show ?thesis using frame k(2) next' serve_frame_endpoints by (auto simp: keyed_def may_seal_def)
  next
    case other
    then show ?thesis using k(2) next' by (fastforce simp: keyed_def untouched_def may_seal_def)
  qed
qed

text \<open>The key exchange itself.\<close>

lemma key_exchange_step:
  assumes wf: "sys_wf s" and step: "sys_step L s (Ev_Message c d (Msg_KeyExchange key)) s'" and "unkeyed c s"
  shows "keyed c s' \<and> (\<forall>K. may_seal c s' K \<longrightarrow> K = derived_key L d key)
    \<and> length (accepted (Ev_Message c d (Msg_KeyExchange key)) s s' c) \<le> 1"
  using wf step
proof (cases rule: conn_cases [where c = c])
  case (handled h rest d' m h' r)
  then have m: "m = Msg_KeyExchange key" "d' = d" by simp_all
  have c: "hc_conn (taken h rest) = c" "c < sys_next s" "c < sys_next s'"
    using sys_wfD(1) [OF wf handled(2)] step by (auto simp: taken_def elim!: sys_step.cases)
  obtain u where kx: "on_key_exchange L d key (taken h rest) (sys_shared s) = ((h', sys_shared s'), u)"
    using handled(5) m by (auto dest: go_on_state)
  have "hc_crypto_session g = Some (derived_key L d key)" if "sys_tasks s' c = Some (g, b)" for g b
    using handled(5,6) that handle_message_crypto [of L d m "taken h rest" "sys_shared s" h' "sys_shared s'"] m by auto
  moreover have "(c, K) \<notin> endpoints (sys_shared s')" for K
    using handles_endpoints [OF handlesI(1) [OF handled(5)]] m assms(3) by (auto simp: unkeyed_def)
  moreover have "length (accepted (Ev_Message c d (Msg_KeyExchange key)) s s' c) \<le> 1"
    using on_key_exchange_queue [OF kx] c(1) by (auto simp: accepted_def)
  ultimately show ?thesis using assms(3) handled(3) c(3) by (auto simp: keyed_def may_seal_def unkeyed_def)
next
  case (prepared h rest d' m h' a)
  then have "m = Msg_KeyExchange key" by simp
  then show ?thesis using prepared(4) by simp
next
  case other
  then show ?thesis by (simp add: untouched_def)
qed simp_all

section \<open>The log of a connection\<close>

definition key_exchanges :: "nat \<Rightarrow> sys_event list \<Rightarrow> sys_event list" where
  "key_exchanges c tr = filter (is_key_exchange c) tr"

definition talk_inv :: "libs \<Rightarrow> nat \<Rightarrow> sys_event list \<Rightarrow> System \<times> (nat \<Rightarrow> bytes list) \<Rightarrow> bool" where
  "talk_inv L c tr sl \<longleftrightarrow> sys_wf (fst sl)
     \<and> (key_exchanges c tr = [] \<longrightarrow> unkeyed c (fst sl) \<and> snd sl c = [])
     \<and> (\<forall>d key. key_exchanges c tr = [Ev_Message c d (Msg_KeyExchange key)] \<longrightarrow> keyed c (fst sl)
          \<and> (\<forall>K. may_seal c (fst sl) K \<longrightarrow> K = derived_key L d key)
          \<and> list_all (sealed_under L (derived_key L d key)) (tl (snd sl c)))"

lemma tl_sealed: "list_all P (tl xs) \<Longrightarrow> list_all P ys \<Longrightarrow> list_all P (tl (xs @ ys))"
  by (cases xs; cases ys) simp_all

lemma talk_inv_step:
  assumes inv: "talk_inv L c tr sl" and "hist_step L sl e sl'"
  shows "talk_inv L c (tr @ [e]) sl'"
proof -
  have wf: "sys_wf (fst sl)" and step: "sys_step L (fst sl) e (fst sl')"
    and lg: "snd sl' c = snd sl c @ accepted e (fst sl) (fst sl') c"
    using assms by (simp_all add: talk_inv_def hist_step_def)
  note wf' = sys_wf_step [OF wf step]
  show ?thesis
  proof (cases "is_key_exchange c e")
    case True
    then obtain d key where e: "e = Ev_Message c d (Msg_KeyExchange key)" by (auto elim: is_key_exchange.elims)
    show ?thesis
    proof (cases "key_exchanges c tr = []")
      case none: True
      then have un: "unkeyed c (fst sl)" "snd sl c = []" using inv by (simp_all add: talk_inv_def)
      note ke = key_exchange_step [OF wf step [unfolded e] un(1)]
      have "tl (snd sl' c) = []"
        using ke lg un(2) e by (cases "accepted e (fst sl) (fst sl') c") auto
      then show ?thesis using ke wf' none e by (simp add: talk_inv_def key_exchanges_def)
    next
      case False
      then show ?thesis using wf' True by (simp add: talk_inv_def key_exchanges_def)
    qed
  next
    case False
    then have same: "key_exchanges c (tr @ [e]) = key_exchanges c tr" by (simp add: key_exchanges_def)
    have "unkeyed c (fst sl') \<and> snd sl' c = []" if "key_exchanges c tr = []"
      using unkeyed_step [OF wf step False] inv that lg by (simp add: talk_inv_def)
    moreover have "keyed c (fst sl') \<and> (\<forall>K. may_seal c (fst sl') K \<longrightarrow> K = derived_key L d key)
        \<and> list_all (sealed_under L (derived_key L d key)) (tl (snd sl' c))"
      if ke: "key_exchanges c tr = [Ev_Message c d (Msg_KeyExchange key)]" for d key
    proof -
      have k: "keyed c (fst sl)" "\<forall>K. may_seal c (fst sl) K \<longrightarrow> K = derived_key L d key"
        "list_all (sealed_under L (derived_key L d key)) (tl (snd sl c))"
        using inv ke unfolding talk_inv_def by blast+
      note ks = keyed_step [OF wf step False k(1)]
      have "list_all (sealed_under L (derived_key L d key)) (accepted e (fst sl) (fst sl') c)"
        using ks k(2) unfolding list_all_iff by blast
      then show ?thesis using ks k(2) tl_sealed [OF k(3)] lg by simp
    qed
    ultimately show ?thesis using wf' unfolding talk_inv_def same by blast
  qed
qed

interpretation talk: trace_invariant "hist_step L" "talk_inv L c" for L c
  by unfold_locales (rule talk_inv_step)

lemma log_sealed:
  assumes "hist_run L (sys_init ac out) tr s lg"
    and "key_exchanges c tr = [Ev_Message c d (Msg_KeyExchange key)]"
  shows "list_all (sealed_under L (derived_key L d key)) (tl (lg c))"
proof -
  have "talk_inv L c [] (sys_init ac out, \<lambda>_. [])"
    by (simp add: talk_inv_def key_exchanges_def unkeyed_def sys_wf_def sys_init_def Server_new_def endpoints_def)
  then have "talk_inv L c tr (s, lg)" by (rule talk.inv_run [OF assms(1)])
  then show ?thesis using assms(2) by (simp add: talk_inv_def)
qed

text \<open>The messages of packets that are sealed under a key are what the client opens with it.\<close>

lemma opened_sealed:
  assumes "codec_correct (lb_bincode L)" "aead_correct (lb_crypto L)" "list_all2 (carries L K) ps ms"
  shows "opened L K ps = ms"
  using assms(3)
proof (induction rule: list_all2_induct)
  case (Cons p ps m ms)
  then have "open_payload L (Some K) p = Inr m"
    using open_sealed [OF assms(1,2)] by (auto simp: carries_def)
  then show ?case using Cons.IH by (simp add: opened_def)
qed simp

lemma sealed_messages:
  assumes "list_all (sealed_under L K) ps"
  shows "\<exists>ms. list_all2 (carries L K) ps ms"
  using assms
proof (induction ps)
  case (Cons p ps)
  then obtain ms m where "list_all2 (carries L K) ps ms" "carries L K p m"
    by (auto simp: sealed_under_def)
  then show ?case by (intro exI [of _ "m # ms"]) simp
qed (intro exI [of _ "[]"], simp)

end
