(* ===== verification/Authenticity.thy ===== *)
theory Authenticity
  imports Server_Refinement Client_Connection
begin

text \<open>
  Authenticity of the messages at both ends, against a network that delivers any bytes whatever.
  Once a key is agreed on, the client hands its application, and the server handles, only messages
  that were sealed under this key and stand in the byte stream that was received. The hypothesis is
  that the AEAD cipher accepts only what it produced (\<open>aead_authentic\<close>).
\<close>

text \<open>A packet of the stream that carries the message, sealed under the key.\<close>

definition sealed_in :: "libs \<Rightarrow> CryptoSession \<Rightarrow> bytes \<Rightarrow> Message \<Rightarrow> bool" where
  "sealed_in L K stream m \<longleftrightarrow>
     (\<exists>nonce plain packet before after. length nonce = 12 \<and> encrypt (lb_crypto L) K nonce plain = Inr packet
        \<and> Message_deserialize (lb_bincode L) plain = Inr m \<and> stream = before @ frame_of packet @ after)"

lemma sealed_in_extend: "sealed_in L K t m \<Longrightarrow> sealed_in L K (a @ t @ b) m"
  unfolding sealed_in_def by (metis append.assoc)

lemma sealed_in_suffix: "sealed_in L K t m \<Longrightarrow> suffix t u \<Longrightarrow> sealed_in L K u m"
  using sealed_in_extend [of L K t m _ "[]"] by (auto simp: suffix_def)

lemma opened_is_sealed:
  assumes "aead_authentic (lb_crypto L)" "next_frame buf = Some (p, rest)" "open_payload L (Some K) p = Inr m"
  shows "sealed_in L K buf m"
proof -
  obtain plain where plain: "decrypt (lb_crypto L) K p = Inr plain" "Message_deserialize (lb_bincode L) plain = Inr m"
    using assms(3) by (auto simp: open_payload_def try_bind_Inr_iff)
  obtain nonce where "length nonce = 12" "encrypt (lb_crypto L) K nonce plain = Inr p"
    using decrypt_authentic [OF assms(1) plain(1)] .
  then show ?thesis
    using plain(2) next_frame_sound [OF assms(2)] unfolding sealed_in_def by (metis append_Nil)
qed

section \<open>The client\<close>

text \<open>The bytes of a script of reads.\<close>

fun bytes_read :: "(bool \<times> read_result) list \<Rightarrow> bytes" where
  "bytes_read [] = []"
| "bytes_read ((alive, Data bs) # rs) = bs @ bytes_read rs"
| "bytes_read ((alive, ReadError e) # rs) = bytes_read rs"

lemma read_loop_sound:
  assumes "aead_authentic (lb_crypto L)" "read_loop L K alive buf = (ms, rest, go)"
  shows "suffix rest buf \<and> (\<forall>m \<in> set ms. sealed_in L K buf m)"
  using assms(2)
proof (induction "length buf" arbitrary: buf ms rest go rule: less_induct)
  case less
  show ?case
  proof (cases "next_frame buf")
    case None
    then show ?thesis using less.prems by (subst (asm) read_loop.simps) simp
  next
    case (Some q)
    then obtain p r where q: "next_frame buf = Some (p, r)" by (cases q) simp
    obtain ms' rest' go' where r: "read_loop L K alive r = (ms', rest', go')" by (metis prod.exhaust)
    have sub: "suffix r buf" using next_frame_sound [OF q] by (simp add: suffix_def)
    then have IH: "suffix rest' buf" "\<forall>m \<in> set ms'. sealed_in L K buf m"
      using less.hyps [OF tcp.nx_progress [OF q] r] sealed_in_suffix suffix_order.trans by blast+
    show ?thesis
    proof (cases "open_payload L (Some K) p")
      case (Inl e)
      then have "read_loop L K alive buf = read_loop L K alive r"
        by (subst read_loop.simps) (auto simp: q open_payload_def split: sum.splits)
      then show ?thesis using less.prems r IH by simp
    next
      case (Inr m)
      then have "read_loop L K alive buf = (if alive then (m # ms', rest', go') else ([], r, False))"
        using r by (subst read_loop.simps) (auto simp: q open_payload_def try_bind_Inr_iff)
      then show ?thesis using less.prems IH sub opened_is_sealed [OF assms(1) q Inr] by (auto split: if_splits)
    qed
  qed
qed

lemma reader_task_sound:
  assumes "aead_authentic (lb_crypto L)" "m \<in> set (reader_task L K reads buf)"
  shows "sealed_in L K (buf @ bytes_read reads) m"
  using assms(2)
proof (induction reads arbitrary: buf)
  case (Cons rd reads)
  obtain alive res where rd: "rd = (alive, res)" by (cases rd)
  with Cons.prems obtain bs where res: "res = Data bs" by (cases res) simp_all
  obtain ms rest go where loop: "read_loop L K alive (buf @ bs) = (ms, rest, go)" by (metis prod.exhaust)
  note sound = read_loop_sound [OF assms(1) loop]
  obtain a where a: "buf @ bs = a @ rest" using sound by (auto simp: suffix_def)
  consider "m \<in> set ms" | "m \<in> set (reader_task L K reads rest)"
    using Cons.prems loop by (auto simp: rd res split: if_splits)
  then show ?case
  proof cases
    case 1
    then show ?thesis
      using sound sealed_in_extend [of L K "buf @ bs" m "[]" "bytes_read reads"] by (simp add: rd res)
  next
    case 2
    have "sealed_in L K ((buf @ bs) @ bytes_read reads) m"
      unfolding a using sealed_in_extend [OF Cons.IH [OF 2], of a "[]"] by simp
    then show ?thesis by (simp add: rd res)
  qed
qed simp

section \<open>The server\<close>

text \<open>The bytes that have been read from a connection.\<close>

fun read_from :: "nat \<Rightarrow> sys_event \<Rightarrow> bytes" where
  "read_from c (Ev_Read c' bs) = (if c' = c then bs else [])"
| "read_from c _ = []"

definition heard :: "nat \<Rightarrow> sys_event list \<Rightarrow> bytes" where
  "heard c tr = concat (map (read_from c) tr)"

lemma heard_snoc [simp]: "heard c (tr @ [e]) = heard c tr @ read_from c e"
  by (simp add: heard_def)

text \<open>A task's buffer is the end of what was read from its connection.\<close>

definition buffers_heard :: "sys_event list \<Rightarrow> System \<Rightarrow> bool" where
  "buffers_heard tr s \<longleftrightarrow> (\<forall>c h b. sys_tasks s c = Some (h, b) \<longrightarrow> suffix (hc_buffer h) (heard c tr))"

lemma buffers_heard_step:
  assumes "buffers_heard tr s" "sys_step L s e s'"
  shows "buffers_heard (tr @ [e]) s'"
proof -
  have msg: "suffix (hc_buffer h') (heard c tr)"
    if "sys_tasks s c = Some (h, b)" "next_frame (hc_buffer h) = Some (p, rest)"
      "handles L d m (taken h rest) (sys_shared s) h' sh'" for c h b p rest d m h' sh'
  proof -
    have "hc_buffer h' = rest" using handles_frame [OF that(3)] by (simp add: handler_frame_def taken_def)
    moreover have "suffix rest (hc_buffer h)" using next_frame_sound [OF that(2)] by (simp add: suffix_def)
    ultimately show ?thesis using assms(1) that(1) suffix_order.trans unfolding buffers_heard_def by blast
  qed
  from assms(2) show ?thesis
  proof (cases rule: sys_step.cases)
    case (message c h p rest m d h' sh' f)
    then show ?thesis using assms(1) msg [OF message(3,4) handlesI(1) [OF message(6)]]
      by (auto simp: buffers_heard_def split: if_splits)
  next
    case (prepared c h p rest m d h' sh' answer)
    then show ?thesis using assms(1) msg [OF prepared(3,4) handlesI(2) [OF prepared(6)]]
      by (auto simp: buffers_heard_def split: if_splits)
  next
    case (accept c h sh)
    then show ?thesis using assms(1) by (auto simp: buffers_heard_def accept_client_def split: if_splits)
  next
    case (read c h bs)
    then show ?thesis using assms(1) by (auto simp: buffers_heard_def split: if_splits)
  qed (use assms(1) in \<open>auto simp: buffers_heard_def split: if_splits\<close>)
qed

interpretation hearing: trace_invariant "sys_step L" buffers_heard for L
  by unfold_locales (rule buffers_heard_step)

lemma message_event:
  assumes "sys_step L s (Ev_Message c d m) s'"
  obtains h p rest where "sys_tasks s c = Some (h, True)" "next_frame (hc_buffer h) = Some (p, rest)"
    "open_payload L (hc_crypto_session h) p = Inr m"
  using assms by (cases rule: sys_step.cases) auto

section \<open>Properties\<close>

text \<open>C12: Whatever bytes the network delivers to the client, in whatever chunks, with errors at any
  point, every message that the client's reader task hands to the application was sealed under the
  session's key, and its packet stands in the bytes received.\<close>

theorem client_accepts_only_sealed:
  assumes "aead_authentic (lb_crypto L)" "m \<in> set (reader_task L K reads [])"
  shows "\<exists>nonce plain packet before after. length nonce = 12 \<and> encrypt (lb_crypto L) K nonce plain = Inr packet
    \<and> Message_deserialize (lb_bincode L) plain = Inr m
    \<and> bytes_read reads = before @ frame_of packet @ after"
  using reader_task_sound [OF assms] by (simp add: sealed_in_def)

theorem client_accepts_only_sealed_witness:
  "\<exists>nonce plain packet before after. length nonce = 12
    \<and> encrypt demo_lib \<lparr>cs_cipher = [7]\<rparr> nonce plain = Inr packet
    \<and> frame_of (replicate 12 0 @ [0, 7]) = before @ frame_of packet @ after"
proof -
  let ?L = "demo_libs [Msg_Ping 5]" and ?p = "replicate 12 0 @ [0, 7] :: bytes" and ?K = "\<lparr>cs_cipher = [7]\<rparr>"
  have "open_payload ?L (Some ?K) ?p = Inr (Msg_Ping 5)"
    by (simp add: open_payload_def decrypt_def demo_libs_def demo_lib_def table_bincode_def Message_deserialize_def)
  then have "reader_task ?L ?K (map (\<lambda>c. (True, Data c)) [frame_of ?p]) [] = [Msg_Ping 5]"
    by (intro client_reads_packet [of _ ?p]) (simp_all add: fits_u32_def frame_of_def)
  then have "Msg_Ping 5 \<in> set (reader_task ?L ?K [(True, Data (frame_of ?p))] [])" by simp
  moreover have lib: "lb_crypto ?L = demo_lib" by (simp add: demo_libs_def)
  ultimately show ?thesis
    using client_accepts_only_sealed [of ?L "Msg_Ping 5" ?K "[(True, Data (frame_of ?p))]"] demo_lib_authentic
    unfolding lib bytes_read.simps append_Nil2 by blast
qed

text \<open>C8: Once the key exchange of a connection is done, the server handles a message on it only if the
  message was sealed under the key that the reference monitor holds for the connection, and the packet
  stands in the bytes read from this very connection: somebody who holds the key has produced each
  message that is handled, so that no new message can be made up without it. (That the packet was meant
  to arrive now, or only once, is not claimed: the code keeps no counter, and a recorded packet that is
  delivered again on the connection is handled again.)\<close>

theorem server_obeys_only_key_holders:
  assumes "aead_authentic (lb_crypto L)" "sys_run L (sys_init ac out) (tr @ [Ev_Message c d m]) s"
    and "acc_key (fold (access_after L ac) tr access_init) c = Some K"
  shows "\<exists>nonce plain packet before after. length nonce = 12 \<and> encrypt (lb_crypto L) K nonce plain = Inr packet
    \<and> Message_deserialize (lb_bincode L) plain = Inr m \<and> heard c tr = before @ frame_of packet @ after"
proof -
  obtain s0 where run: "sys_run L (sys_init ac out) tr s0" and step: "sys_step L s0 (Ev_Message c d m) s"
    using assms(2) by (rule run_of_snocE)
  obtain h p rest where h: "sys_tasks s0 c = Some (h, True)" "next_frame (hc_buffer h) = Some (p, rest)"
    "open_payload L (hc_crypto_session h) p = Inr m" using step by (rule message_event)
  have "hc_crypto_session h = Some K"
    using access_run [OF run] h(1) assms(3) unfolding access_sim_def by metis
  then have "sealed_in L K (hc_buffer h) m" using opened_is_sealed [OF assms(1) h(2)] h(3) by simp
  moreover have "buffers_heard [] (sys_init ac out)" by (simp add: buffers_heard_def sys_init_def)
  then have "buffers_heard tr s0" by (rule hearing.inv_run [OF run])
  ultimately have "sealed_in L K (heard c tr) m"
    using h(1) sealed_in_suffix unfolding buffers_heard_def by blast
  then show ?thesis unfolding sealed_in_def .
qed

text \<open>The login of the demonstration run.\<close>

theorem server_obeys_only_key_holders_witness:
  "\<exists>nonce plain packet before after. length nonce = 12 \<and> encrypt demo_lib demo_key nonce plain = Inr packet
    \<and> Message_deserialize (lb_bincode (demo_libs demo_talk)) plain = Inr (Msg_AuthRequest ''1'')
    \<and> demo_bytes = before @ frame_of packet @ after"
proof -
  let ?L = "demo_libs demo_talk" and ?d = "demo_draws 0"
  let ?tr = "[Ev_Accept 0, Ev_Read 0 demo_bytes, Ev_Message 0 ?d (Msg_KeyExchange (replicate 32 0))]"
  obtain s where "sys_run ?L demo_start (?tr @ [Ev_Message 0 ?d (Msg_AuthRequest ''1'')]) s"
    using demo_run by (metis demo_events_def append_Cons append_Nil)
  moreover have "derived_key ?L ?d (replicate 32 0) = demo_key"
    by (simp add: derived_key_def demo_key_def demo_libs_def demo_draws_def)
  then have "acc_key (fold (access_after ?L demo_code) ?tr access_init) 0 = Some demo_key" by simp
  moreover have heard: "heard 0 ?tr = demo_bytes" by (simp add: heard_def)
  moreover have lib: "lb_crypto ?L = demo_lib" by (simp add: demo_libs_def)
  ultimately show ?thesis
    using server_obeys_only_key_holders [of ?L demo_code _ ?tr 0 ?d "Msg_AuthRequest ''1''" s demo_key]
      demo_lib_authentic unfolding lib heard by blast
qed

end
