(* ===== verification/Server_Stream.thy ===== *)
theory Server_Stream
  imports Client_Connection
begin

text \<open>
  What a client task does with its byte stream (\<open>handle_client\<close> of \<open>src/server/server.rs\<close>): the task
  on reads of arbitrary size implements a loop over messages. \<open>serve_payloads\<close> is that loop, the
  reference definition; it stops at a failure and at \<open>Disconnect\<close>, whose \<open>break\<close> makes the task wait
  for another read before it looks at the rest of its buffer.
\<close>

fun serve_payloads ::
  "libs \<Rightarrow> (nat \<Rightarrow> draws) \<Rightarrow> bytes list \<Rightarrow> Handler \<Rightarrow> Shared \<Rightarrow> (Handler \<times> Shared) \<times> flow result" where
  "serve_payloads L env [] h sh = ((h, sh), Inr Next)"
| "serve_payloads L env (p # ps) h sh =
     (case handle_payload L (env (hc_msgs h)) p (h\<lparr>hc_msgs := Suc (hc_msgs h)\<rparr>) sh of
        ((h', sh'), Inr Next) \<Rightarrow> serve_payloads L env ps h' sh'
      | r \<Rightarrow> r)"

section \<open>A message does not look at the buffer\<close>

definition set_buffer :: "bytes \<Rightarrow> (Handler \<times> Shared) \<times> 'a result \<Rightarrow> (Handler \<times> Shared) \<times> 'a result" where
  "set_buffer b r = (case r of ((h, sh), x) \<Rightarrow> ((h\<lparr>hc_buffer := b\<rparr>, sh), x))"

lemma set_buffer_simp [simp]: "set_buffer b ((h, sh), x) = ((h\<lparr>hc_buffer := b\<rparr>, sh), x)"
  by (simp add: set_buffer_def)

lemma set_buffer_and_then:
  assumes "\<And>h sh x. f (h\<lparr>hc_buffer := b\<rparr>, sh) x = set_buffer b (f (h, sh) x)"
  shows "and_then (set_buffer b r) f = set_buffer b (and_then r f)"
  using assms by (cases r; cases "snd r") (auto simp: set_buffer_def)

lemma set_buffer_go_on: "go_on (set_buffer b r) = set_buffer b (go_on r)"
  unfolding go_on_def by (rule set_buffer_and_then) simp

lemma on_auth_request_buffer:
  "on_auth_request L d code (h\<lparr>hc_buffer := b\<rparr>) sh = set_buffer b (on_auth_request L d code h sh)"
  by (cases "hc_crypto_session h"; cases "handle_auth L (dr_clock d 0) code (sh_access_code sh)";
      cases "SessionToken_generate (dr_alnum d) (dr_clock d 1) 24")
    (auto simp: auth_defs open_session_def split: prod.split)

lemma on_key_exchange_buffer:
  "on_key_exchange L d key (h\<lparr>hc_buffer := b\<rparr>) sh = set_buffer b (on_key_exchange L d key h sh)"
  by (cases "Message_serialize (lb_bincode L)
        (Msg_KeyExchangeAck (public_key_bytes (KeyExchange_new (lb_crypto L) (dr_secret d))))";
      cases "public_key_of_slice key")
    (auto simp: on_key_exchange_def Let_def and_then_def split: prod.split sum.split)

lemma session_of_buffer [simp]: "session_of (h\<lparr>hc_buffer := b\<rparr>) sh = session_of h sh"
  by (simp add: session_of_def)

lemma replay_buffer: "replay L act (h\<lparr>hc_buffer := b\<rparr>) sh = set_buffer b (replay L act h sh)"
  by (auto simp: replay_def and_then_def split: prod.split sum.split)

lemma quality_buffer:
  "on_start_stream L d (h\<lparr>hc_buffer := b\<rparr>) sh = set_buffer b (on_start_stream L d h sh)"
  "on_frame_ack d t t' (h\<lparr>hc_buffer := b\<rparr>) sh = set_buffer b (on_frame_ack d t t' h sh)"
  "on_request_quality L d q (h\<lparr>hc_buffer := b\<rparr>) sh = set_buffer b (on_request_quality L d q h sh)"
  by (auto simp: on_start_stream_def on_frame_ack_def on_request_quality_def Let_def
      split: prod.split option.split)

lemmas buffer_irrelevant = on_auth_request_buffer on_key_exchange_buffer replay_buffer quality_buffer

lemma handle_message_buffer:
  "handle_message L d m (h\<lparr>hc_buffer := b\<rparr>) sh = set_buffer b (handle_message L d m h sh)"
  by (cases m) (simp_all add: buffer_irrelevant input_defs set_buffer_go_on)

lemma handle_payload_buffer:
  "handle_payload L d p (h\<lparr>hc_buffer := b\<rparr>) sh = set_buffer b (handle_payload L d p h sh)"
  by (cases "open_payload L (hc_crypto_session h) p")
    (simp_all add: handle_payload_def handle_message_buffer)

lemma buffer_after_msgs: "h\<lparr>hc_msgs := n, hc_buffer := b\<rparr> = h\<lparr>hc_buffer := b, hc_msgs := n\<rparr>"
  by (cases h) simp

section \<open>The inner loop\<close>

text \<open>A buffer is the frames it starts with and an incomplete rest; the inner loop handles the
  former, if nothing stops it, and keeps the latter.\<close>

lemma split_stream_Cons:
  assumes "split_stream next_frame buf = (p # ps, rest)"
  obtains later where "next_frame buf = Some (p, later)" "split_stream next_frame later = (ps, rest)"
  using assms by (subst (asm) tcp.split_stream_unfold) (auto split: option.splits prod.splits)

lemma split_stream_Nil:
  "split_stream next_frame buf = ([], rest) \<Longrightarrow> next_frame buf = None \<and> rest = buf"
  by (subst (asm) tcp.split_stream_unfold) (auto split: option.splits prod.splits)

lemma buffer_step_frame:
  assumes "next_frame buf = Some (p, later)"
    and "handle_payload L (env (hc_msgs h)) p (h\<lparr>hc_msgs := Suc (hc_msgs h)\<rparr>) sh = ((h1, sh1), r)"
  shows "buffer_step L env (h\<lparr>hc_buffer := buf\<rparr>) sh = Some ((h1\<lparr>hc_buffer := later\<rparr>, sh1), r)"
  using assms handle_payload_buffer [of L "env (hc_msgs h)" p later "h\<lparr>hc_msgs := Suc (hc_msgs h)\<rparr>" sh]
  by (simp add: buffer_step_def buffer_after_msgs)

lemma drain_buffer_frames:
  assumes "split_stream next_frame buf = (ps, rest)"
    and "serve_payloads L env ps h sh = ((h', sh'), Inr Next)"
  shows "drain_buffer L env (h\<lparr>hc_buffer := buf\<rparr>) sh = ((h'\<lparr>hc_buffer := rest\<rparr>, sh'), Inr ())"
  using assms
proof (induction ps arbitrary: buf h sh)
  case Nil
  then show ?case using split_stream_Nil [OF Nil(1)] by (simp add: drain_buffer_idle)
next
  case (Cons p ps)
  obtain later where nf: "next_frame buf = Some (p, later)" "split_stream next_frame later = (ps, rest)"
    using Cons.prems(1) by (rule split_stream_Cons)
  obtain h1 sh1 where hp: "handle_payload L (env (hc_msgs h)) p (h\<lparr>hc_msgs := Suc (hc_msgs h)\<rparr>) sh
      = ((h1, sh1), Inr Next)" and sp: "serve_payloads L env ps h1 sh1 = ((h', sh'), Inr Next)"
    using Cons.prems(2) by (auto split: prod.splits sum.splits flow.splits)
  show ?case
    using Cons.IH [OF nf(2) sp] buffer_step_frame [where env = env, OF nf(1) hp] by (subst drain_buffer.simps) simp
qed

lemma drain_buffer_fails:
  assumes "split_stream next_frame buf = (ps, rest)"
    and "serve_payloads L env ps h sh = ((h', sh'), Inl e)"
  shows "\<exists>b. drain_buffer L env (h\<lparr>hc_buffer := buf\<rparr>) sh = ((h'\<lparr>hc_buffer := b\<rparr>, sh'), Inl e)"
  using assms
proof (induction ps arbitrary: buf h sh)
  case (Cons p ps)
  obtain later where nf: "next_frame buf = Some (p, later)" "split_stream next_frame later = (ps, rest)"
    using Cons.prems(1) by (rule split_stream_Cons)
  obtain h1 sh1 r where hp: "handle_payload L (env (hc_msgs h)) p (h\<lparr>hc_msgs := Suc (hc_msgs h)\<rparr>) sh
      = ((h1, sh1), r)" by (metis prod.exhaust)
  note step = buffer_step_frame [where env = env, OF nf(1) hp]
  show ?case
  proof (cases r)
    case (Inl e')
    then show ?thesis using Cons.prems(2) hp step by (subst drain_buffer.simps) auto
  next
    case (Inr f)
    then have "f = Next" "serve_payloads L env ps h1 sh1 = ((h', sh'), Inl e)"
      using Cons.prems(2) hp by (auto split: flow.splits)
    then show ?thesis using Cons.IH [OF nf(2)] step Inr by (subst drain_buffer.simps) simp
  qed
qed simp

lemma serve_payloads_append:
  "serve_payloads L env (ps @ qs) h sh =
    (case serve_payloads L env ps h sh of
       ((h', sh'), Inr Next) \<Rightarrow> serve_payloads L env qs h' sh'
     | r \<Rightarrow> r)"
  by (induction ps arbitrary: h sh) (auto split: prod.splits sum.splits flow.splits)

lemma set_same_buffer: "hc_buffer h = b \<Longrightarrow> h\<lparr>hc_buffer := b\<rparr> = h"
  by (cases h) simp

text \<open>The whole task, from a state in which it waits for a read.\<close>

lemma client_loop_frames:
  assumes "[] \<notin> set chunks" "next_frame buf = None"
    and "split_stream next_frame (buf @ concat chunks) = (ps, rest)"
    and "serve_payloads L env ps h sh = ((h', sh'), Inr Next)"
  shows "client_loop L env (map Data chunks) (h\<lparr>hc_buffer := buf\<rparr>) sh
    = ((h'\<lparr>hc_buffer := rest\<rparr>, sh'), None)"
  using assms
proof (induction chunks arbitrary: buf ps h sh)
  case Nil
  then have "ps = []" "rest = buf" by (subst (asm) tcp.split_stream_unfold; simp)+
  then show ?case using Nil by simp
next
  case (Cons c cs)
  obtain ps1 r1 where s1: "split_stream next_frame (buf @ c) = (ps1, r1)" by force
  obtain ps2 r2 where s2: "split_stream next_frame (r1 @ concat cs) = (ps2, r2)" by force
  have ps: "ps = ps1 @ ps2" "rest = r2"
    using Cons.prems(3) tcp.split_stream_append [of "buf @ c" "concat cs"] s1 s2 by auto
  obtain h1 sh1 where 1: "serve_payloads L env ps1 h sh = ((h1, sh1), Inr Next)"
    "serve_payloads L env ps2 h1 sh1 = ((h', sh'), Inr Next)"
    using Cons.prems(4) unfolding ps serve_payloads_append
    by (auto split: prod.splits sum.splits flow.splits)
  have "client_loop L env (map Data cs) (h1\<lparr>hc_buffer := r1\<rparr>) sh1 = ((h'\<lparr>hc_buffer := rest\<rparr>, sh'), None)"
    using Cons.IH [OF _ tcp.split_stream_rest [OF s1] _ 1(2)] Cons.prems(1) s2 ps(2) by simp
  moreover have "c \<noteq> []" using Cons.prems(1) by auto
  ultimately show ?case using drain_buffer_frames [OF s1 1(1)] by simp
qed

lemma client_loop_fails:
  assumes "[] \<notin> set chunks" "next_frame buf = None"
    and "split_stream next_frame (buf @ concat chunks) = (ps, rest)"
    and "serve_payloads L env ps h sh = ((h', sh'), Inl e)"
  shows "\<exists>b. client_loop L env (map Data chunks) (h\<lparr>hc_buffer := buf\<rparr>) sh
    = ((h'\<lparr>hc_buffer := b\<rparr>, sh'), Some (Inl e))"
  using assms
proof (induction chunks arbitrary: buf ps h sh)
  case Nil
  then have "ps = []" by (subst (asm) tcp.split_stream_unfold) simp
  then show ?case using Nil by simp
next
  case (Cons c cs)
  obtain ps1 r1 where s1: "split_stream next_frame (buf @ c) = (ps1, r1)" by force
  obtain ps2 r2 where s2: "split_stream next_frame (r1 @ concat cs) = (ps2, r2)" by force
  have ps: "ps = ps1 @ ps2" and r2: "rest = r2"
    using Cons.prems(3) tcp.split_stream_append [of "buf @ c" "concat cs"] s1 s2 by auto
  have c: "c \<noteq> []" using Cons.prems(1) by auto
  obtain h1 sh1 r where 1: "serve_payloads L env ps1 h sh = ((h1, sh1), r)" by (metis prod.exhaust)
  consider "r = Inl e" "h1 = h'" "sh1 = sh'" | "r = Inr Next" "serve_payloads L env ps2 h1 sh1 = ((h', sh'), Inl e)"
    using Cons.prems(4) 1 unfolding ps serve_payloads_append by (auto split: sum.splits flow.splits)
  then show ?case
  proof cases
    case a: 1
    then show ?thesis using drain_buffer_fails [OF s1, of L env h sh h' sh' e] 1 c by auto
  next
    case 2
    then show ?thesis
      using Cons.IH [OF _ tcp.split_stream_rest [OF s1] s2 [folded r2], of h1 sh1] Cons.prems(1) c
        drain_buffer_frames [OF s1, of L env h sh h1 sh1] 1 by simp
  qed
qed

lemma serve_payloads_keeps_buffer:
  "serve_payloads L env ps h sh = ((h', sh'), r) \<Longrightarrow> hc_buffer h' = hc_buffer h"
proof (induction ps arbitrary: h sh)
  case (Cons p ps)
  obtain h1 sh1 x where hp: "handle_payload L (env (hc_msgs h)) p (h\<lparr>hc_msgs := Suc (hc_msgs h)\<rparr>) sh
      = ((h1, sh1), x)" by (metis prod.exhaust)
  then have "hc_buffer h1 = hc_buffer h" using handle_payload_frame [OF hp] by (simp add: handler_frame_def)
  then show ?case using Cons hp by (auto split: sum.splits flow.splits)
qed simp

section \<open>Input\<close>

text \<open>The calls that an input message stands for.\<close>

fun input_calls :: "Message \<Rightarrow> enigo_call list option" where
  "input_calls (Msg_MouseMove x y) = Some [MoveMouseAbs x y]"
| "input_calls (Msg_MouseClick button pressed x y) =
     Some [MoveMouseAbs x y, ButtonEvent (enigo_button button) (direction_of pressed)]"
| "input_calls (Msg_KeyEvent key pressed modifiers) =
     Some (case enigo_key key of None \<Rightarrow> [] | Some k \<Rightarrow> [KeyEvent k (direction_of pressed)])"
| "input_calls _ = None"

text \<open>enigo is set up and accepts every call.\<close>

definition enigo_works :: "libs \<Rightarrow> bool" where
  "enigo_works L \<longleftrightarrow> lb_enigo_new L = None \<and> (\<forall>c. lb_enigo L c = None)"

lemma input_replayed:
  assumes "enigo_works L" "input_calls m = Some cs"
  shows "handle_message L d m h sh = ((h, sh\<lparr>sh_input := sh_input sh @ cs\<rparr>), Inr Next)"
  using assms
  by (cases m) (auto simp: enigo_works_def go_on_def input_defs replay_def InputHandler_new_def
      mouse_move_def mouse_click_def key_event_def run_calls_ok split: option.splits)

lemma serve_input:
  assumes "codec_correct (lb_bincode L)" "aead_correct (lb_crypto L)" "enigo_works L"
    and "hc_crypto_session h = Some K" "length mns = length ps"
    and "list_all (\<lambda>(m, n). length n = 12 \<and> input_calls m \<noteq> None) mns"
    and "list_all (\<lambda>((m, n), p). seal_message L n m (Some K) = Inr p) (zip mns ps)"
  shows "serve_payloads L env ps h sh =
    ((h\<lparr>hc_msgs := hc_msgs h + length mns\<rparr>,
      sh\<lparr>sh_input := sh_input sh @ concat (map (\<lambda>(m, n). the (input_calls m)) mns)\<rparr>), Inr Next)"
  using assms(5,4,6,7)
proof (induction mns ps arbitrary: h sh rule: list_induct2)
  case Nil
  then show ?case by simp
next
  case (Cons x xs p ps)
  obtain m n where x: "x = (m, n)" by force
  obtain cs where cs: "input_calls m = Some cs" using Cons.prems(2) x by auto
  have "open_payload L (Some K) p = Inr m"
    using Cons.prems x by (intro open_sealed [OF assms(1,2)]) auto
  then have "handle_payload L (env (hc_msgs h)) p (h\<lparr>hc_msgs := Suc (hc_msgs h)\<rparr>) sh
      = ((h\<lparr>hc_msgs := Suc (hc_msgs h)\<rparr>, sh\<lparr>sh_input := sh_input sh @ cs\<rparr>), Inr Next)"
    using Cons.prems(1) input_replayed [OF assms(3) cs] by (simp add: handle_payload_def)
  then show ?case using Cons x cs by simp
qed

section \<open>Properties\<close>

text \<open>C15: The server's task works on messages, whatever the reads look like: on frames that the
  network has cut into chunks in any way it does exactly what the loop over the messages does, up to
  a failure; then it ends with that failure, otherwise it waits for the next read with an empty
  buffer. (Only \<open>Disconnect\<close> makes a difference.)\<close>

theorem server_task_ignores_chunking:
  assumes "list_all (\<lambda>p. length p < 2 ^ 32) ps" "[] \<notin> set chunks"
    and "concat chunks = concat (map frame_of ps)" "hc_buffer h = []"
    and "serve_payloads L env ps h sh = ((h', sh'), r)" "r \<noteq> Inr Break"
  shows "\<exists>b. client_loop L env (map Data chunks) h sh =
      ((h'\<lparr>hc_buffer := b\<rparr>, sh'), case r of Inl e \<Rightarrow> Some (Inl e) | Inr _ \<Rightarrow> None)
    \<and> (r = Inr Next \<longrightarrow> b = [] \<and> hc_buffer h' = [])"
proof -
  have fits: "list_all fits_u32 ps" using assms(1) by (simp add: fits_u32_def [abs_def])
  then have s: "split_stream next_frame ([] @ concat chunks) = (ps, [])"
    using tcp.split_stream_encode [OF fits, of "[]"] assms(3) by (simp add: split_stream_def)
  have b: "h\<lparr>hc_buffer := []\<rparr> = h" using assms(4) by (rule set_same_buffer)
  show ?thesis
  proof (cases r)
    case (Inl e)
    then show ?thesis
      using client_loop_fails [OF assms(2) _ s, of L env h sh h' sh' e] assms(5) b by simp
  next
    case (Inr f)
    then have "f = Next" using assms(6) by (cases f) auto
    then show ?thesis
      using client_loop_frames [OF assms(2) _ s, of L env h sh h' sh'] assms(4,5) b Inr
        serve_payloads_keeps_buffer [OF assms(5)] by auto
  qed
qed

theorem server_task_ignores_chunking_witness:
  "\<exists>b. client_loop (demo_libs [Msg_MouseMove 5 6, Msg_AuthRequest ''1'']) (\<lambda>_. demo_draws 0)
      (map Data [[0, 0], [0, 1, 0, 0, 0], [0, 1, 1]]) demo_handler (Server_new None)
    = ((demo_handler\<lparr>hc_msgs := 2, hc_buffer := b\<rparr>, (Server_new None)\<lparr>sh_input := [MoveMouseAbs 5 6]\<rparr>),
       Some (Inl (Anyhow ''Key exchange must happen before authentication'')))"
proof -
  let ?L = "demo_libs [Msg_MouseMove 5 6, Msg_AuthRequest ''1'']"
  have "open_payload ?L None [0] = Inr (Msg_MouseMove 5 6)" "open_payload ?L None [1] = Inr (Msg_AuthRequest ''1'')"
    by (simp_all add: open_payload_def demo_libs_def table_bincode_def Message_deserialize_def)
  moreover have "handle_message ?L d (Msg_MouseMove 5 6) h sh
      = ((h, sh\<lparr>sh_input := sh_input sh @ [MoveMouseAbs 5 6]\<rparr>), Inr Next)" for d h sh
    by (rule input_replayed) (simp_all add: enigo_works_def demo_libs_def)
  ultimately have "serve_payloads ?L (\<lambda>_. demo_draws 0) [[0], [1]] demo_handler (Server_new None)
      = ((demo_handler\<lparr>hc_msgs := 2\<rparr>, (Server_new None)\<lparr>sh_input := [MoveMouseAbs 5 6]\<rparr>),
         Inl (Anyhow ''Key exchange must happen before authentication''))"
    by (simp add: handle_payload_def demo_handler_def go_on_def auth_defs Server_new_def
        del: handle_message.simps(5))
  then show ?thesis
    using server_task_ignores_chunking [of "[[0], [1]]" "[[0, 0], [0, 1, 0, 0, 0], [0, 1, 1]]" demo_handler
        ?L "\<lambda>_. demo_draws 0" "Server_new None"]
    by (simp add: frame_of_def to_be_bytes_def demo_handler_def)
qed

text \<open>C3: Remote input is exact: the mouse and key messages that the client's writer task encrypts and
  sends are replayed on the server completely, in order and once, however the network cuts the
  stream; nothing else of the server's state changes.\<close>

theorem remote_input_is_exact:
  assumes "codec_correct (lb_bincode L)" "aead_correct (lb_crypto L)" "enigo_works L"
    and "list_all (\<lambda>(m, n). length n = 12 \<and> input_calls m \<noteq> None) mns"
    and "list_all (\<lambda>((m, n), p). seal_message L n m (Some K) = Inr p) (zip mns ps)"
    and "list_all (\<lambda>p. length p < 2 ^ 32) ps" "length mns = length ps"
    and "wr_limit w = None" "wr_written w = []" "[] \<notin> set chunks"
    and "concat chunks = wr_written (writer_task L K mns w)"
    and "hc_buffer h = []" "hc_crypto_session h = Some K"
  shows "client_loop L env (map Data chunks) h sh =
    ((h\<lparr>hc_msgs := hc_msgs h + length mns\<rparr>,
      sh\<lparr>sh_input := sh_input sh @ concat (map (\<lambda>(m, n). the (input_calls m)) mns)\<rparr>), None)"
proof -
  have fits: "list_all fits_u32 ps" using assms(6) by (simp add: fits_u32_def [abs_def])
  have "concat chunks = concat (map frame_of ps)"
    using writer_task_stream [OF assms(8,5,7)] assms(9,11) by simp
  then have s: "split_stream next_frame ([] @ concat chunks) = (ps, [])"
    using tcp.split_stream_encode [OF fits, of "[]"] by (simp add: split_stream_def)
  have b: "h\<lparr>hc_buffer := []\<rparr> = h" using assms(12) by (rule set_same_buffer)
  have "h\<lparr>hc_msgs := n, hc_buffer := []\<rparr> = h\<lparr>hc_msgs := n\<rparr>" for n
    using b by (simp add: buffer_after_msgs)
  then show ?thesis
    using client_loop_frames [OF assms(10) _ s serve_input [OF assms(1-3,13,7,4,5)]] b by simp
qed

theorem remote_input_is_exact_witness:
  "client_loop (demo_libs [Msg_MouseClick Left True 3 4]) (\<lambda>_. demo_draws 0)
     (map Data [[0, 0], [0, 14] @ replicate 12 0, [0, 7]])
     (demo_handler\<lparr>hc_crypto_session := Some \<lparr>cs_cipher = [7]\<rparr>\<rparr>) (Server_new None)
   = ((demo_handler\<lparr>hc_crypto_session := Some \<lparr>cs_cipher = [7]\<rparr>, hc_msgs := 1\<rparr>,
       (Server_new None)\<lparr>sh_input := [MoveMouseAbs 3 4, ButtonEvent EB_Left Press]\<rparr>), None)"
proof -
  let ?m = "Msg_MouseClick Left True 3 4" and ?n = "replicate 12 0 :: bytes" and ?K = "\<lparr>cs_cipher = [7]\<rparr>"
  let ?L = "demo_libs [?m]" and ?w = "\<lparr>wr_written = [], wr_limit = None\<rparr>"
    and ?p = "replicate 12 0 @ [0, 7] :: bytes" and ?cs = "[[0, 0], [0, 14] @ replicate 12 0, [0, 7]] :: bytes list"
  have seal: "seal_message ?L ?n ?m (Some ?K) = Inr ?p"
    by (simp add: seal_message_def Message_serialize_def demo_libs_def table_bincode_def encrypt_def demo_lib_def)
  have "concat ?cs = wr_written (writer_task ?L ?K [(?m, ?n)] ?w)"
    using writer_task_stream [of ?w ?L ?K "[(?m, ?n)]" "[?p]"] seal
    by (simp add: frame_of_def to_be_bytes_def)
  then show ?thesis
    using remote_input_is_exact [of ?L "[(?m, ?n)]" ?K "[?p]" ?w ?cs
        "demo_handler\<lparr>hc_crypto_session := Some ?K\<rparr>" "\<lambda>_. demo_draws 0" "Server_new None"] seal
    by (simp add: demo_libs_def table_bincode_correct demo_lib_ok enigo_works_def demo_handler_def
        Server_new_def direction_of_def)
qed

end
