(* ===== verification/Float_Bounds.thy ===== *)
theory Float_Bounds
  imports Ieee
begin

text \<open>
  Error analysis for the \<open>f32\<close> arithmetic of the colour conversions: every operation is within a
  known distance of the exact one. \<open>near x e t\<close> composes through sums, differences and products
  with a coefficient, so that a conversion is bounded for all its inputs at once, without
  evaluating it.
\<close>

lemma rne_err: "\<bar>of_int (rne x) - x\<bar> \<le> 1 / 2"
proof -
  have "of_int \<lfloor>x\<rfloor> \<le> x" "x < of_int \<lfloor>x\<rfloor> + 1" by linarith+
  then show ?thesis by (auto simp: rne_def Let_def abs_le_iff)
qed

text \<open>The rounding error is at most half a unit in the last place.\<close>

lemma round_err:
  assumes "\<bar>x\<bar> < pow2 k" "emin F < k"
  shows "\<bar>round_fmt F x - x\<bar> \<le> pow2 (k - prec F - 1)"
proof (cases "x = 0")
  case False
  define q where "q = pow2 (ulp_exp F x)"
  have "pow2 (ilog2 \<bar>x\<bar>) < pow2 k" using ilog2_bounds(1) [of "\<bar>x\<bar>"] False assms(1)
    by (metis abs_ge_zero abs_0_eq le_less le_less_trans)
  then have "ulp_exp F x \<le> k - prec F" using assms(2) by (simp add: ulp_exp_def)
  then have q: "q \<le> pow2 (k - prec F)" "0 < q" unfolding q_def by (auto intro: pow2_mono)
  have "round_fmt F x - x = (of_int (rne (x / q)) - x / q) * q"
    using False q(2) by (simp add: round_fmt_def q_def [symmetric] left_diff_distrib)
  then have "\<bar>round_fmt F x - x\<bar> = \<bar>of_int (rne (x / q)) - x / q\<bar> * q"
    using q(2) by (simp add: abs_mult)
  also have "\<dots> \<le> 1 / 2 * q" using rne_err q(2) by (intro mult_right_mono) auto
  also have "\<dots> \<le> 1 / 2 * pow2 (k - prec F)" using q(1) by simp
  also have "\<dots> = pow2 (k - prec F - 1)"
  proof -
    have "pow2 1 = 2" by (simp add: pow2_def)
    then show ?thesis by (simp only: pow2_diff [of "k - prec F" 1])
  qed
  finally show ?thesis .
qed simp

lemma f32_near:
  assumes "\<bar>x\<bar> < 512"
  obtains z where "f32 x = Fin z" "\<bar>z - x\<bar> \<le> 1 / 65536"
proof
  have "\<bar>x\<bar> \<le> pow2 127" using assms by (simp add: pow2_def)
  then show "f32 x = Fin (round_fmt f32_fmt x)" by (intro fround_Fin) simp_all
  show "\<bar>round_fmt f32_fmt x - x\<bar> \<le> 1 / 65536"
    using round_err [of x 9 f32_fmt] assms by (simp add: pow2_def)
qed

lemma f32_near_small:
  assumes "\<bar>x\<bar> < 2"
  obtains z where "f32 x = Fin z" "\<bar>z - x\<bar> \<le> 1 / 16777216"
proof
  have "\<bar>x\<bar> \<le> pow2 127" using assms by (simp add: pow2_def)
  then show "f32 x = Fin (round_fmt f32_fmt x)" by (intro fround_Fin) simp_all
  show "\<bar>round_fmt f32_fmt x - x\<bar> \<le> 1 / 16777216"
    using round_err [of x 1 f32_fmt] assms by (simp add: pow2_def)
qed

text \<open>A coefficient of a colour matrix times a sample.\<close>

lemma mul32_near:
  assumes "\<bar>c\<bar> < 2" "\<bar>s\<bar> \<le> 255"
  obtains z where "mul32 (f32 c) (Fin s) = Fin z" "\<bar>z - c * s\<bar> \<le> 1 / 32768"
proof -
  obtain c' where c': "f32 c = Fin c'" "\<bar>c' - c\<bar> \<le> 1 / 16777216"
    using f32_near_small assms(1) by blast
  have "\<bar>(c' - c) * s\<bar> \<le> 1 / 16777216 * 255"
    unfolding abs_mult using c'(2) assms(2) by (intro mult_mono) auto
  then have e: "\<bar>c' * s - c * s\<bar> \<le> 1 / 65536" by (simp add: left_diff_distrib)
  have "\<bar>c * s\<bar> \<le> 2 * 255" unfolding abs_mult using assms by (intro mult_mono) auto
  then have "\<bar>c' * s\<bar> < 512" using e by linarith
  then obtain z where z: "f32 (c' * s) = Fin z" "\<bar>z - c' * s\<bar> \<le> 1 / 65536" using f32_near by blast
  have "\<bar>z - c * s\<bar> \<le> 1 / 32768" using z(2) e by linarith
  moreover have "mul32 (f32 c) (Fin s) = Fin z" using c'(1) z(1) by simp
  ultimately show ?thesis using that by blast
qed

lemma nat_f32_u8: "n \<le> 255 \<Longrightarrow> nat_as_f32 n = Fin (of_nat n)"
  using fround_of_int [of f32_fmt "int n"] by simp

lemma fp_as_u8_near:
  assumes "fp_as_u8 (Fin z) = w" "- 1 < z" "z < 256"
  shows "of_nat (unat w) \<le> max 0 z" "z - 1 < of_nat (unat w)"
proof -
  define n where "n = fp_as_int 0 255 (Fin z)"
  have n: "0 \<le> n" "n \<le> 255" using fp_as_int_bounds [of 0 255 "Fin z"] by (simp_all add: n_def)
  then have "w = word_of_nat (nat n)" using assms(1) unfolding fp_as_u8_def n_def [symmetric] by simp
  moreover have "nat n < 2 ^ LENGTH(8)" using n by simp
  ultimately have "unat w = nat n" by (simp only: unat_of_nat_small)
  then have w: "(of_nat (unat w) :: rat) = of_int n" using n by simp
  have nz: "n = (if 0 \<le> z then \<lfloor>z\<rfloor> else 0)"
  proof (cases "0 \<le> z")
    case True
    then have "0 \<le> \<lfloor>z\<rfloor>" "\<lfloor>z\<rfloor> \<le> 255" using assms(3) by (simp_all add: floor_le_iff)
    then show ?thesis using True by (simp add: n_def rat_trunc_def)
  next
    case False
    then have "\<lceil>z\<rceil> = 0" using assms(2) by (simp add: ceiling_eq_iff)
    then show ?thesis using False by (simp add: n_def rat_trunc_def)
  qed
  have "of_int \<lfloor>z\<rfloor> \<le> z" "z < of_int \<lfloor>z\<rfloor> + 1" by linarith+
  then show "of_nat (unat w) \<le> max 0 z" "z - 1 < of_nat (unat w)" unfolding w nz by simp_all
qed

text \<open>\<open>near x e t\<close>: the value of \<open>t\<close> is within \<open>e\<close> of \<open>x\<close>.\<close>

definition near :: "rat \<Rightarrow> rat \<Rightarrow> fp \<Rightarrow> bool" where
  "near x e t \<longleftrightarrow> (\<exists>z. t = Fin z \<and> x - e \<le> z \<and> z \<le> x + e)"

lemma near_coeff:
  assumes "\<bar>c\<bar> < 2" "- 255 \<le> s" "s \<le> 255"
  shows "near (c * s) (1 / 32768) (mul32 (f32 c) (Fin s))"
proof -
  have "\<bar>s\<bar> \<le> 255" using assms(2,3) by linarith
  then obtain z where z: "mul32 (f32 c) (Fin s) = Fin z" "\<bar>z - c * s\<bar> \<le> 1 / 32768"
    using mul32_near [OF assms(1)] by blast
  have "c * s - 1 / 32768 \<le> z" "z \<le> c * s + 1 / 32768" using z(2) by linarith+
  then show ?thesis using z(1) by (auto simp: near_def)
qed

lemma near_f32:
  assumes "x - e \<le> z" "z \<le> x + e" "- 511 < x" "x < 511" "e \<le> 1"
  shows "near x (e + 1 / 65536) (f32 z)"
proof -
  have "\<bar>z\<bar> < 512" using assms by linarith
  then obtain w where w: "f32 z = Fin w" "\<bar>w - z\<bar> \<le> 1 / 65536" using f32_near by blast
  have "x - (e + 1 / 65536) \<le> w" "w \<le> x + (e + 1 / 65536)" using w(2) assms by linarith+
  then show ?thesis using w(1) by (auto simp: near_def)
qed

lemma near_add:
  assumes "near x e a" "near y f b" "- 511 < x + y" "x + y < 511" "e + f \<le> 1"
  shows "near (x + y) (e + f + 1 / 65536) (add32 a b)"
proof -
  obtain u v where "a = Fin u" "x - e \<le> u" "u \<le> x + e" "b = Fin v" "y - f \<le> v" "v \<le> y + f"
    using assms(1,2) by (auto simp: near_def)
  then show ?thesis using near_f32 [of "x + y" "e + f" "u + v"] assms(3-5) by simp
qed

lemma near_sub:
  assumes "near x e a" "near y f b" "- 511 < x - y" "x - y < 511" "e + f \<le> 1"
  shows "near (x - y) (e + f + 1 / 65536) (sub32 a b)"
proof -
  obtain u v where "a = Fin u" "x - e \<le> u" "u \<le> x + e" "b = Fin v" "y - f \<le> v" "v \<le> y + f"
    using assms(1,2) by (auto simp: near_def)
  then show ?thesis using near_f32 [of "x - y" "e + f" "u - v"] assms(3-5) by simp
qed

lemma near_exact: "near x 0 (Fin x)"
  by (simp add: near_def)

lemma near_u8:
  assumes "near x e t" "- 1 < x - e" "x + e < 256"
  shows "of_nat (unat (fp_as_u8 t)) \<le> max 0 (x + e)" "x - e - 1 < of_nat (unat (fp_as_u8 t))"
proof -
  obtain z where z: "t = Fin z" "x - e \<le> z" "z \<le> x + e" using assms(1) by (auto simp: near_def)
  then have "- 1 < z" "z < 256" using assms(2,3) by linarith+
  note n = fp_as_u8_near [OF refl this]
  show "of_nat (unat (fp_as_u8 t)) \<le> max 0 (x + e)" using n(1) z by simp
  show "x - e - 1 < of_nat (unat (fp_as_u8 t))" using n(2) z by simp
qed

lemma near_u8_clamped:
  assumes "near x e t"
  shows "of_nat (unat (fp_as_u8 (fclamp t (Fin 0) (Fin 255)))) \<le> max 0 (x + e)"
    "min 255 (x - e) - 1 < of_nat (unat (fp_as_u8 (fclamp t (Fin 0) (Fin 255))))"
proof -
  obtain z where z: "t = Fin z" "x - e \<le> z" "z \<le> x + e" using assms(1) by (auto simp: near_def)
  define z' where "z' = max 0 (min 255 z)"
  have f: "fclamp t (Fin 0) (Fin 255) = Fin z'" by (auto simp: fclamp_def z z'_def)
  have "- 1 < z'" "z' < 256" by (auto simp: z'_def)
  note n = fp_as_u8_near [OF refl this]
  show "of_nat (unat (fp_as_u8 (fclamp t (Fin 0) (Fin 255)))) \<le> max 0 (x + e)"
    using n(1) z unfolding f by (simp add: z'_def)
  show "min 255 (x - e) - 1 < of_nat (unat (fp_as_u8 (fclamp t (Fin 0) (Fin 255))))"
    using n(2) z unfolding f by (simp add: z'_def)
qed

lemma u8_less: "unat (b :: u8) \<le> 255"
  using unsigned_less [of b, where ?'a = nat] by simp

lemma u8_bounds: "(0 :: rat) \<le> of_nat (unat (b :: u8))" "(of_nat (unat (b :: u8)) :: rat) \<le> 255"
proof -
  have "(of_nat (unat b) :: rat) \<le> of_nat 255" using u8_less [of b] by (simp only: of_nat_le_iff)
  then show "(of_nat (unat b) :: rat) \<le> 255" by simp
qed (rule of_nat_0_le_iff)

lemma f32_ints: "f32 128 = Fin 128" "f32 255 = Fin 255"
  using fround_of_int [of f32_fmt 128] fround_of_int [of f32_fmt 255] by simp_all

lemma fneg_f32: "\<bar>c\<bar> < 2 \<Longrightarrow> fneg (f32 c) = f32 (- c)"
proof -
  assume "\<bar>c\<bar> < 2"
  then have "\<bar>c\<bar> \<le> pow2 127" "\<bar>- c\<bar> \<le> pow2 127" by (simp_all add: pow2_def)
  then show ?thesis using fround_Fin [of f32_fmt c] fround_Fin [of f32_fmt "- c"]
    by (simp add: round_minus)
qed

abbreviation byte_val :: "u8 \<Rightarrow> rat" where "byte_val b \<equiv> of_nat (unat b)"

lemma nat_less_of_rat: "(of_nat m :: rat) < of_nat n + numeral k \<Longrightarrow> m < n + numeral k"
  by (metis of_nat_add of_nat_less_iff of_nat_numeral)

lemma nat_less_of_rat_1: "(of_nat m :: rat) < of_nat n + 1 \<Longrightarrow> m < n + 1"
  by (metis of_nat_1 of_nat_add of_nat_less_iff)

end
