(* ===== verification/H264_Decoder.thy ===== *)
theory H264_Decoder
  imports Ffmpeg_Encoder Float_Bounds
begin

text \<open>
  \<open>src/client/h264_decoder.rs\<close>: the client's decoder on top of FFmpeg and the conversion of its
  planar frames to RGB, with the source's \<open>f32\<close> arithmetic. The library is the record
  \<open>ffmpeg_dec\<close>; \<open>'d\<close> is the state of an open decoder. Also here: how far a pixel can
  move on its way through the encoder's conversion and back.
\<close>

datatype receive_error = EAGAIN | OtherError string

record 'd ffmpeg_dec =
  fd_init :: "string option"
  fd_find_h264 :: "string option"
  fd_video :: "string \<Rightarrow> string + 'd"
  fd_empty_frame :: VideoFrame
  fd_send_packet :: "'d \<Rightarrow> bytes \<Rightarrow> 'd \<times> string option"
  fd_receive_frame :: "'d \<Rightarrow> 'd \<times> (receive_error + VideoFrame)"
  fd_send_eof :: "'d \<Rightarrow> 'd \<times> string option"

text \<open>The frame field is read only after \<open>receive_frame\<close> has filled it.\<close>

record 'd H264Decoder =
  hd_decoder :: 'd
  hd_frame :: VideoFrame
  hd_packet :: bytes
  hd_width :: u32
  hd_height :: u32

definition H264Decoder_new :: "'d ffmpeg_dec \<Rightarrow> u32 \<Rightarrow> u32 \<Rightarrow> 'd H264Decoder result" where
  "H264Decoder_new ff width height =
     (case fd_init ff of
        Some _ \<Rightarrow> Inl (Anyhow ''Failed to initialize FFmpeg'')
      | None \<Rightarrow>
          try_bind (ok_or ''Failed to find H.264 decoder'' (fd_find_h264 ff)) (\<lambda>codec.
            case fd_video ff codec of
              Inl e \<Rightarrow> Inl (External e)
            | Inr dec \<Rightarrow>
                Inr \<lparr>hd_decoder = dec, hd_frame = fd_empty_frame ff, hd_packet = [],
                     hd_width = width, hd_height = height\<rparr>))"

section \<open>YUV to RGB\<close>

definition yuv_pixel :: "u8 \<Rightarrow> u8 \<Rightarrow> u8 \<Rightarrow> bytes" where
  "yuv_pixel yb ub vb =
     (let y_val = u8_as_f32 yb;
          u_val = sub32 (u8_as_f32 ub) (f32 128);
          v_val = sub32 (u8_as_f32 vb) (f32 128)
      in [fp_as_u8 (fclamp (add32 y_val (mul32 (f32 (1402 / 1000)) v_val)) (f32 0) (f32 255)),
          fp_as_u8 (fclamp (sub32 (sub32 y_val (mul32 (f32 (344 / 1000)) u_val))
                                  (mul32 (f32 (714 / 1000)) v_val)) (f32 0) (f32 255)),
          fp_as_u8 (fclamp (add32 y_val (mul32 (f32 (1772 / 1000)) u_val)) (f32 0) (f32 255))])"

definition yuv_to_rgb :: "VideoFrame \<Rightarrow> bytes result" where
  "yuv_to_rgb frame =
     (let width = unat (vf_width frame); height = unat (vf_height frame)
      in try_bind (plane_of frame 0) (\<lambda>y_plane.
         try_bind (plane_of frame 1) (\<lambda>u_plane.
         try_bind (plane_of frame 2) (\<lambda>v_plane.
         try_bind (stride_of frame 0) (\<lambda>y_stride.
         try_bind (stride_of frame 1) (\<lambda>u_stride.
         try_bind (stride_of frame 2) (\<lambda>v_stride.
           fold_result (\<lambda>(x, y) rgb.
               try_bind (index_vec y_plane (y * y_stride + x)) (\<lambda>yb.
               try_bind (index_vec u_plane (y div 2 * u_stride + x div 2)) (\<lambda>ub.
               try_bind (index_vec v_plane (y div 2 * v_stride + x div 2)) (\<lambda>vb.
                 Inr (rgb @ yuv_pixel yb ub vb)))))
             (raster 1 width height) [])))))))"

section \<open>Decoding\<close>

definition decode ::
  "'d ffmpeg_dec \<Rightarrow> 'd H264Decoder \<Rightarrow> bytes \<Rightarrow> 'd H264Decoder \<times> bytes option result" where
  "decode ff self h264_data =
     (let self1 = self\<lparr>hd_packet := h264_data\<rparr>
      in case fd_send_packet ff (hd_decoder self1) (hd_packet self1) of
           (d1, Some e) \<Rightarrow> (self1\<lparr>hd_decoder := d1\<rparr>, Inl (External e))
         | (d1, None) \<Rightarrow>
             (case fd_receive_frame ff d1 of
                (d2, Inr frame) \<Rightarrow>
                  (self1\<lparr>hd_decoder := d2, hd_frame := frame, hd_width := vf_width frame,
                         hd_height := vf_height frame\<rparr>,
                   try_bind (yuv_to_rgb frame) (\<lambda>rgb_data. Inr (Some rgb_data)))
              | (d2, Inl EAGAIN) \<Rightarrow> (self1\<lparr>hd_decoder := d2\<rparr>, Inr None)
              | (d2, Inl (OtherError e)) \<Rightarrow> (self1\<lparr>hd_decoder := d2\<rparr>, Inl (External e))))"

definition dimensions :: "'d H264Decoder \<Rightarrow> u32 \<times> u32" where
  "dimensions self = (hd_width self, hd_height self)"

text \<open>The draining loop of \<open>flush\<close>; a frame that cannot be converted panics (its planes are
  indexed out of range), since \<open>yuv_to_rgb\<close> itself never returns an error.\<close>

partial_function (option) drain_frames ::
  "('d \<Rightarrow> 'd \<times> (receive_error + VideoFrame)) \<Rightarrow> 'd \<Rightarrow> bytes list \<Rightarrow> ('d \<times> bytes list result) option" where
  "drain_frames recv d frames =
     (case recv d of
        (d', Inl _) \<Rightarrow> Some (d', Inr frames)
      | (d', Inr frame) \<Rightarrow>
          (case yuv_to_rgb frame of
             Inl e \<Rightarrow> Some (d', Inl e)
           | Inr rgb_data \<Rightarrow> drain_frames recv d' (frames @ [rgb_data])))"

declare drain_frames.simps [code]

definition flush ::
  "'d ffmpeg_dec \<Rightarrow> 'd H264Decoder \<Rightarrow> ('d H264Decoder \<times> bytes list result) option" where
  "flush ff self =
     (case fd_send_eof ff (hd_decoder self) of
        (d1, Some e) \<Rightarrow> Some (self\<lparr>hd_decoder := d1\<rparr>, Inl (External e))
      | (d1, None) \<Rightarrow>
          map_option (\<lambda>(d2, r). (self\<lparr>hd_decoder := d2\<rparr>, r))
            (drain_frames (fd_receive_frame ff) d1 []))"

section \<open>The conversion succeeds on a well-formed frame\<close>

lemma raster_1: "raster 1 w h = concat (map (\<lambda>y. map (\<lambda>x. (x, y)) [0..<w]) [0..<h])"
  by (simp add: raster_def)

lemma length_raster_1: "length (raster 1 w h) = h * w"
  unfolding raster_1 by (simp add: length_concat_equal [where n = w])

lemma yuv_to_rgb_ok:
  assumes "yuv420p_ok (unat (vf_width fr)) (unat (vf_height fr)) fr"
  shows "yuv_to_rgb fr = Inr (concat (map (\<lambda>(x, y). yuv_pixel
      (vf_planes fr ! 0 ! (y * (vf_strides fr ! 0) + x))
      (vf_planes fr ! 1 ! (y div 2 * (vf_strides fr ! 1) + x div 2))
      (vf_planes fr ! 2 ! (y div 2 * (vf_strides fr ! 2) + x div 2)))
    (raster 1 (unat (vf_width fr)) (unat (vf_height fr)))))"
proof -
  let ?w = "unat (vf_width fr)" and ?h = "unat (vf_height fr)"
  let ?px = "\<lambda>(x, y). yuv_pixel (vf_planes fr ! 0 ! (y * (vf_strides fr ! 0) + x))
      (vf_planes fr ! 1 ! (y div 2 * (vf_strides fr ! 1) + x div 2))
      (vf_planes fr ! 2 ! (y div 2 * (vf_strides fr ! 2) + x div 2))"
  note ok = assms [unfolded yuv420p_ok_def]
  have idx: "y * (vf_strides fr ! 0) + x < length (vf_planes fr ! 0)"
    "y div 2 * (vf_strides fr ! 1) + x div 2 < length (vf_planes fr ! 1)"
    "y div 2 * (vf_strides fr ! 2) + x div 2 < length (vf_planes fr ! 2)"
    if "x < ?w" "y < ?h" for x y
    using plane_index_bound [of 1 ?w ?h "vf_strides fr ! 0" "vf_planes fr ! 0" x y]
      plane_index_bound [of 2 ?w ?h "vf_strides fr ! 1" "vf_planes fr ! 1" x y]
      plane_index_bound [of 2 ?w ?h "vf_strides fr ! 2" "vf_planes fr ! 2" x y] ok that by simp_all
  have "fold_result (\<lambda>(x, y) rgb.
       try_bind (index_vec (vf_planes fr ! 0) (y * (vf_strides fr ! 0) + x)) (\<lambda>yb.
       try_bind (index_vec (vf_planes fr ! 1) (y div 2 * (vf_strides fr ! 1) + x div 2)) (\<lambda>ub.
       try_bind (index_vec (vf_planes fr ! 2) (y div 2 * (vf_strides fr ! 2) + x div 2)) (\<lambda>vb.
         Inr (rgb @ yuv_pixel yb ub vb))))) qs acc = Inr (acc @ concat (map ?px qs))"
    if "set qs \<subseteq> set (raster 1 ?w ?h)" for qs acc
    using that
  proof (induction qs arbitrary: acc)
    case (Cons q qs)
    obtain x y where q: "q = (x, y)" by force
    then have "x < ?w" "y < ?h" using Cons.prems by (auto simp: set_raster)
    then show ?case using Cons q idx by simp
  qed simp
  then show ?thesis using ok
    by (simp add: yuv_to_rgb_def plane_of_def stride_of_def Let_def)
qed

lemma length_yuv_pixel [simp]: "length (yuv_pixel y u v) = 3"
  by (simp add: yuv_pixel_def Let_def)

lemma length_yuv_to_rgb:
  assumes "yuv420p_ok (unat (vf_width fr)) (unat (vf_height fr)) fr" "yuv_to_rgb fr = Inr rgb"
  shows "length rgb = unat (vf_width fr) * unat (vf_height fr) * 3"
  using yuv_to_rgb_ok [OF assms(1)] assms(2)
  by (simp add: length_concat_equal [where n = 3] length_raster_1 [simplified] split_beta mult.commute)

section \<open>The colour conversions are near-inverse\<close>

lemma u8_as_f32_Fin: "u8_as_f32 b = Fin (of_nat (unat b))"
  by (rule nat_f32_u8) (rule u8_less)

lemma luma_bounds:
  defines "Y r g b \<equiv> 299 / 1000 * byte_val r + 587 / 1000 * byte_val g + 114 / 1000 * byte_val b"
  shows "byte_val (luma r g b) \<le> Y r g b + 1 / 4096" "Y r g b - 1 - 1 / 4096 < byte_val (luma r g b)"
proof -
  note bnd = u8_bounds [of r] u8_bounds [of g] u8_bounds [of b]
  have "near (Y r g b) (1 / 32768 + 1 / 32768 + 1 / 65536 + 1 / 32768 + 1 / 65536)
      (add32 (add32 (mul32 (f32 (299 / 1000)) (Fin (byte_val r))) (mul32 (f32 (587 / 1000)) (Fin (byte_val g))))
             (mul32 (f32 (114 / 1000)) (Fin (byte_val b))))"
    unfolding Y_def by (intro near_add near_coeff) (use bnd in \<open>linarith | simp\<close>)+
  note n = near_u8 [OF this]
  show "byte_val (luma r g b) \<le> Y r g b + 1 / 4096"
    using n(1) bnd unfolding luma_def u8_as_f32_Fin Y_def by linarith
  show "Y r g b - 1 - 1 / 4096 < byte_val (luma r g b)"
    using n(2) bnd unfolding luma_def u8_as_f32_Fin Y_def by linarith
qed

lemma chroma_u_bounds:
  defines "U r g b \<equiv> - (169 / 1000) * byte_val r - 331 / 1000 * byte_val g + 1 / 2 * byte_val b + 128"
  shows "byte_val (chroma_u r g b) \<le> U r g b + 1 / 4096" "U r g b - 1 - 1 / 4096 < byte_val (chroma_u r g b)"
proof -
  note bnd = u8_bounds [of r] u8_bounds [of g] u8_bounds [of b]
  have n: "fneg (f32 (169 / 1000)) = f32 (- (169 / 1000))" by (rule fneg_f32) simp
  have "near (U r g b) (1 / 32768 + 1 / 32768 + 1 / 65536 + 1 / 32768 + 1 / 65536 + 0 + 1 / 65536)
      (add32 (add32 (sub32 (mul32 (fneg (f32 (169 / 1000))) (Fin (byte_val r)))
                           (mul32 (f32 (331 / 1000)) (Fin (byte_val g))))
                    (mul32 (f32 (1 / 2)) (Fin (byte_val b)))) (Fin 128))"
    unfolding U_def n by (intro near_add near_sub near_coeff near_exact) (use bnd in \<open>linarith | simp\<close>)+
  note n = near_u8 [OF this]
  show "byte_val (chroma_u r g b) \<le> U r g b + 1 / 4096"
    using n(1) bnd unfolding chroma_u_def u8_as_f32_Fin f32_ints U_def by linarith
  show "U r g b - 1 - 1 / 4096 < byte_val (chroma_u r g b)"
    using n(2) bnd unfolding chroma_u_def u8_as_f32_Fin f32_ints U_def by linarith
qed

lemma chroma_v_bounds:
  defines "V r g b \<equiv> 1 / 2 * byte_val r - 419 / 1000 * byte_val g - 81 / 1000 * byte_val b + 128"
  shows "byte_val (chroma_v r g b) \<le> V r g b + 1 / 4096" "V r g b - 1 - 1 / 4096 < byte_val (chroma_v r g b)"
proof -
  note bnd = u8_bounds [of r] u8_bounds [of g] u8_bounds [of b]
  have "near (V r g b) (1 / 32768 + 1 / 32768 + 1 / 65536 + 1 / 32768 + 1 / 65536 + 0 + 1 / 65536)
      (add32 (sub32 (sub32 (mul32 (f32 (1 / 2)) (Fin (byte_val r)))
                           (mul32 (f32 (419 / 1000)) (Fin (byte_val g))))
                    (mul32 (f32 (81 / 1000)) (Fin (byte_val b)))) (Fin 128))"
    unfolding V_def by (intro near_add near_sub near_coeff near_exact) (use bnd in \<open>linarith | simp\<close>)+
  note n = near_u8 [OF this]
  show "byte_val (chroma_v r g b) \<le> V r g b + 1 / 4096"
    using n(1) bnd unfolding chroma_v_def u8_as_f32_Fin f32_ints V_def by linarith
  show "V r g b - 1 - 1 / 4096 < byte_val (chroma_v r g b)"
    using n(2) bnd unfolding chroma_v_def u8_as_f32_Fin f32_ints V_def by linarith
qed

lemma f32_centred: "n \<le> 255 \<Longrightarrow> f32 (of_nat n - 128) = Fin (of_nat n - 128)"
  using fround_of_int [of f32_fmt "int n - 128"] by (simp add: abs_less_iff)

lemma chroma_val: "sub32 (Fin (byte_val c)) (Fin 128) = Fin (byte_val c - 128)"
  unfolding fsub_Fin by (rule f32_centred) (rule u8_less)

text \<open>The three channels of a decoded pixel.\<close>

lemma yuv_pixel_bounds:
  assumes "yuv_pixel y u v = [r', g', b']"
  shows "byte_val r' \<le> max 0 (byte_val y + 1402 / 1000 * (byte_val v - 128) + 1 / 8192)"
    "min 255 (byte_val y + 1402 / 1000 * (byte_val v - 128) - 1 / 8192) - 1 < byte_val r'"
    "byte_val g' \<le> max 0 (byte_val y - 344 / 1000 * (byte_val u - 128) - 714 / 1000 * (byte_val v - 128) + 1 / 8192)"
    "min 255 (byte_val y - 344 / 1000 * (byte_val u - 128) - 714 / 1000 * (byte_val v - 128) - 1 / 8192) - 1 < byte_val g'"
    "byte_val b' \<le> max 0 (byte_val y + 1772 / 1000 * (byte_val u - 128) + 1 / 8192)"
    "min 255 (byte_val y + 1772 / 1000 * (byte_val u - 128) - 1 / 8192) - 1 < byte_val b'"
proof -
  note bnd = u8_bounds [of y] u8_bounds [of u] u8_bounds [of v]
    right_diff_distrib [of "1402 / 1000" "byte_val v" 128] right_diff_distrib [of "714 / 1000" "byte_val v" 128]
    right_diff_distrib [of "344 / 1000" "byte_val u" 128] right_diff_distrib [of "1772 / 1000" "byte_val u" 128]
  note px = assms [unfolded yuv_pixel_def Let_def chroma_val u8_as_f32_Fin f32_ints fround_0]
  let ?y = "Fin (byte_val y)" and ?u = "Fin (byte_val u - 128)" and ?v = "Fin (byte_val v - 128)"
  have "near (byte_val y + 1402 / 1000 * (byte_val v - 128)) (0 + 1 / 32768 + 1 / 65536)
      (add32 ?y (mul32 (f32 (1402 / 1000)) ?v))"
    by (intro near_add near_coeff near_exact) (use bnd in \<open>linarith\<close>)+
  note r = near_u8_clamped [OF this]
  have "near (byte_val y - 344 / 1000 * (byte_val u - 128) - 714 / 1000 * (byte_val v - 128))
      (0 + 1 / 32768 + 1 / 65536 + 1 / 32768 + 1 / 65536)
      (sub32 (sub32 ?y (mul32 (f32 (344 / 1000)) ?u)) (mul32 (f32 (714 / 1000)) ?v))"
    by (intro near_sub near_coeff near_exact) (use bnd in \<open>linarith\<close>)+
  note g = near_u8_clamped [OF this]
  have "near (byte_val y + 1772 / 1000 * (byte_val u - 128)) (0 + 1 / 32768 + 1 / 65536)
      (add32 ?y (mul32 (f32 (1772 / 1000)) ?u))"
    by (intro near_add near_coeff near_exact) (use bnd in \<open>linarith\<close>)+
  note b = near_u8_clamped [OF this]
  have eq: "fp_as_u8 (fclamp (add32 ?y (mul32 (f32 (1402 / 1000)) ?v)) (Fin 0) (Fin 255)) = r'"
    "fp_as_u8 (fclamp (sub32 (sub32 ?y (mul32 (f32 (344 / 1000)) ?u)) (mul32 (f32 (714 / 1000)) ?v)) (Fin 0) (Fin 255)) = g'"
    "fp_as_u8 (fclamp (add32 ?y (mul32 (f32 (1772 / 1000)) ?u)) (Fin 0) (Fin 255)) = b'"
    using px by (simp_all only: list.inject)
  note r = r [unfolded eq] and g = g [unfolded eq] and b = b [unfolded eq]
  show "byte_val r' \<le> max 0 (byte_val y + 1402 / 1000 * (byte_val v - 128) + 1 / 8192)" using r(1) by linarith
  show "min 255 (byte_val y + 1402 / 1000 * (byte_val v - 128) - 1 / 8192) - 1 < byte_val r'" using r(2) by linarith
  show "byte_val g' \<le> max 0 (byte_val y - 344 / 1000 * (byte_val u - 128) - 714 / 1000 * (byte_val v - 128) + 1 / 8192)"
    using g(1) by linarith
  show "min 255 (byte_val y - 344 / 1000 * (byte_val u - 128) - 714 / 1000 * (byte_val v - 128) - 1 / 8192) - 1 < byte_val g'"
    using g(2) by linarith
  show "byte_val b' \<le> max 0 (byte_val y + 1772 / 1000 * (byte_val u - 128) + 1 / 8192)" using b(1) by linarith
  show "min 255 (byte_val y + 1772 / 1000 * (byte_val u - 128) - 1 / 8192) - 1 < byte_val b'" using b(2) by linarith
qed

lemma pixel_round_trip:
  assumes "yuv_pixel (luma r g b) (chroma_u r g b) (chroma_v r g b) = [r', g', b']"
  shows "unat r - 3 \<le> unat r'" "unat r' \<le> unat r"
    "unat g - 2 \<le> unat g'" "unat g' \<le> unat g + 1"
    "unat b - 3 \<le> unat b'" "unat b' \<le> unat b"
proof -
  let ?y = "luma r g b" and ?u = "chroma_u r g b" and ?v = "chroma_v r g b"
  note bnd = u8_bounds [of r] u8_bounds [of g] u8_bounds [of b]
    luma_bounds [of r g b] chroma_u_bounds [of r g b] chroma_v_bounds [of r g b]
    right_diff_distrib [of "1402 / 1000" "byte_val ?v" 128] right_diff_distrib [of "714 / 1000" "byte_val ?v" 128]
    right_diff_distrib [of "344 / 1000" "byte_val ?u" 128] right_diff_distrib [of "1772 / 1000" "byte_val ?u" 128]
  note px = yuv_pixel_bounds [OF assms]
  have "byte_val r < byte_val r' + 4" using px(2) bnd by linarith
  then have "unat r < unat r' + 4" by (rule nat_less_of_rat)
  then show "unat r - 3 \<le> unat r'" by linarith
  have "byte_val r' < byte_val r + 1" using px(1) bnd by linarith
  then have "unat r' < unat r + 1" by (rule nat_less_of_rat_1)
  then show "unat r' \<le> unat r" by linarith
  have "byte_val g < byte_val g' + 3" using px(4) bnd by linarith
  then have "unat g < unat g' + 3" by (rule nat_less_of_rat)
  then show "unat g - 2 \<le> unat g'" by linarith
  have "byte_val g' < byte_val g + 2" using px(3) bnd by linarith
  then have "unat g' < unat g + 2" by (rule nat_less_of_rat)
  then show "unat g' \<le> unat g + 1" by linarith
  have "byte_val b < byte_val b' + 4" using px(6) bnd by linarith
  then have "unat b < unat b' + 4" by (rule nat_less_of_rat)
  then show "unat b - 3 \<le> unat b'" by linarith
  have "byte_val b' < byte_val b + 1" using px(5) bnd by linarith
  then have "unat b' < unat b + 1" by (rule nat_less_of_rat_1)
  then show "unat b' \<le> unat b" by linarith
qed

lemma nth_raster_1:
  assumes "x < w" "y < h"
  shows "raster 1 w h ! (y * w + x) = (x, y)"
proof -
  let ?row = "\<lambda>y. map (\<lambda>x. (x, y)) [0..<w]"
  have len: "y * w + w \<le> length (raster 1 w h)"
    unfolding length_raster_1 using mult_le_mono1 [of "Suc y" h w] assms(2) by simp
  have "subvec (y * w) (y * w + w) (raster 1 w h) = ?row ([0..<h] ! y)"
    unfolding raster_1 using assms(2) by (intro subvec_concat_equal) simp_all
  then have "subvec (y * w) (y * w + w) (raster 1 w h) ! x = ?row y ! x" using assms(2) by simp
  then show ?thesis using len assms(1) by simp
qed

lemma yuv_to_rgb_pixel:
  assumes "yuv420p_ok (unat (vf_width fr)) (unat (vf_height fr)) fr" "yuv_to_rgb fr = Inr rgb"
    and "x < unat (vf_width fr)" "y < unat (vf_height fr)"
  shows "(case pixel_of rgb (unat (vf_width fr)) x y of (r, g, b) \<Rightarrow> [r, g, b]) = yuv_pixel
      (vf_planes fr ! 0 ! (y * (vf_strides fr ! 0) + x))
      (vf_planes fr ! 1 ! (y div 2 * (vf_strides fr ! 1) + x div 2))
      (vf_planes fr ! 2 ! (y div 2 * (vf_strides fr ! 2) + x div 2))"
proof -
  let ?w = "unat (vf_width fr)" and ?h = "unat (vf_height fr)"
  let ?px = "\<lambda>(x, y). yuv_pixel (vf_planes fr ! 0 ! (y * (vf_strides fr ! 0) + x))
      (vf_planes fr ! 1 ! (y div 2 * (vf_strides fr ! 1) + x div 2))
      (vf_planes fr ! 2 ! (y div 2 * (vf_strides fr ! 2) + x div 2))"
  have rgb: "rgb = concat (map ?px (raster 1 ?w ?h))" using yuv_to_rgb_ok [OF assms(1)] assms(2) by simp
  let ?n = "y * ?w + x"
  have lt: "?n * 3 + 2 < ?w * ?h * 3" by (rule pixel_index_bound [OF assms(3,4)])
  have len: "length rgb = ?w * ?h * 3" by (rule length_yuv_to_rgb [OF assms(1,2)])
  have "?n < length (raster 1 ?w ?h)" using lt unfolding length_raster_1 by (simp add: mult.commute)
  then have "subvec (?n * 3) (?n * 3 + 3) rgb = ?px (raster 1 ?w ?h ! ?n)"
    unfolding rgb by (intro subvec_concat_equal) (auto split: prod.split)
  also have "raster 1 ?w ?h ! ?n = (x, y)" by (rule nth_raster_1 [OF assms(3,4)])
  finally have eq: "subvec (?n * 3) (?n * 3 + 3) rgb = ?px (x, y)" .
  have "[rgb ! (?n * 3), rgb ! (?n * 3 + 1), rgb ! (?n * 3 + 2)] = subvec (?n * 3) (?n * 3 + 3) rgb"
    using lt len by (intro nth_equalityI) (auto simp: less_Suc_eq numeral_eq_Suc)
  then show ?thesis unfolding eq by (simp add: pixel_of_def)
qed

lemma rgb_to_yuv420p_dims:
  "rgb_to_yuv420p e d = Inr e' \<Longrightarrow> vf_width (fe_frame e') = vf_width (fe_frame e)"
  "rgb_to_yuv420p e d = Inr e' \<Longrightarrow> vf_height (fe_frame e') = vf_height (fe_frame e)"
  by (auto simp: rgb_to_yuv420p_def Let_def try_bind_Inr_iff)

section \<open>Properties\<close>

text \<open>C19: Converting an RGB frame to YUV 4:2:0 and back (with a codec that loses nothing in between)
  succeeds on frames laid out as FFmpeg allocates them, keeps the size, and moves no channel of a
  pixel with even coordinates by more than 3.\<close>

theorem colour_round_trip:
  assumes "yuv420p_ok w h (fe_frame e)" "length rgb = w * h * 3"
    and "w = unat (es_width (fe_settings e))" "h = unat (es_height (fe_settings e))"
    and "vf_width (fe_frame e) = es_width (fe_settings e)" "vf_height (fe_frame e) = es_height (fe_settings e)"
  shows "\<exists>e' rgb'. rgb_to_yuv420p e rgb = Inr e' \<and> yuv_to_rgb (fe_frame e') = Inr rgb'
    \<and> length rgb' = length rgb
    \<and> (\<forall>x < w. \<forall>y < h. even x \<longrightarrow> even y \<longrightarrow> (\<forall>i < 3.
         let k = (y * w + x) * 3 + i
         in unat (rgb ! k) - 3 \<le> unat (rgb' ! k) \<and> unat (rgb' ! k) \<le> unat (rgb ! k) + 1))"
proof -
  have len: "w * h * 3 \<le> length rgb" using assms(2) by simp
  obtain e' where e': "rgb_to_yuv420p e rgb = Inr e'" "yuv420p_ok w h (fe_frame e')"
    "plane_holds 1 luma w h rgb (fe_frame e') 0" "plane_holds 2 chroma_u w h rgb (fe_frame e') 1"
    "plane_holds 2 chroma_v w h rgb (fe_frame e') 2"
    using rgb_to_yuv420p_ok [OF assms(1) len assms(3,4)] by blast
  have dims: "unat (vf_width (fe_frame e')) = w" "unat (vf_height (fe_frame e')) = h"
    using rgb_to_yuv420p_dims [OF e'(1)] assms(3-6) by simp_all
  obtain rgb' where r: "yuv_to_rgb (fe_frame e') = Inr rgb'"
    using yuv_to_rgb_ok [of "fe_frame e'"] e'(2) dims by simp
  have "length rgb' = length rgb"
    using length_yuv_to_rgb [OF _ r] e'(2) dims assms(2) by simp
  moreover have "unat (rgb ! ((y * w + x) * 3 + i)) - 3 \<le> unat (rgb' ! ((y * w + x) * 3 + i))
      \<and> unat (rgb' ! ((y * w + x) * 3 + i)) \<le> unat (rgb ! ((y * w + x) * 3 + i)) + 1"
    if "x < w" "y < h" "even x" "even y" "i < 3" for x y i
  proof -
    obtain r0 g0 b0 r1 g1 b1 where px: "pixel_of rgb w x y = (r0, g0, b0)" "pixel_of rgb' w x y = (r1, g1, b1)"
      by (metis prod.exhaust)
    have "yuv_pixel (luma r0 g0 b0) (chroma_u r0 g0 b0) (chroma_v r0 g0 b0) = [r1, g1, b1]"
      using yuv_to_rgb_pixel [OF _ r, of x y] e'(2-5) dims that px by (simp add: plane_holds_def even_iff_mod_2_eq_zero)
    note b = pixel_round_trip [OF this]
    have "i = 0 \<or> i = 1 \<or> i = 2" using that(5) by linarith
    then show ?thesis using b px by (auto simp: pixel_of_def)
  qed
  ultimately show ?thesis using e'(1) r by (auto simp: Let_def)
qed

theorem colour_round_trip_witness:
  "\<exists>e' rgb'. rgb_to_yuv420p
       \<lparr>fe_encoder = (), fe_frame = ff_new_frame demo_ffmpeg 1 1,
        fe_settings = \<lparr>es_width = 1, es_height = 1, es_fps = 30, es_bitrate = 1, es_keyframe_interval = 2\<rparr>,
        fe_frame_count = 0, fe_pts = 0\<rparr> [10, 20, 30] = Inr e'
     \<and> yuv_to_rgb (fe_frame e') = Inr rgb' \<and> length rgb' = 3"
proof -
  let ?e = "\<lparr>fe_encoder = (), fe_frame = ff_new_frame demo_ffmpeg 1 1,
        fe_settings = \<lparr>es_width = 1, es_height = 1, es_fps = 30, es_bitrate = 1, es_keyframe_interval = 2\<rparr>,
        fe_frame_count = 0, fe_pts = 0\<rparr>"
  have "yuv420p_ok 1 1 (fe_frame ?e)" by (simp add: yuv420p_ok_def plane_ok_def demo_ffmpeg_def)
  then show ?thesis
    using colour_round_trip [of 1 1 ?e "[10, 20, 30]"] by (auto simp: demo_ffmpeg_def)
qed

end
