(* ===== verification/Geometry.thy ===== *)
theory Geometry
  imports Ieee
begin

text \<open>
  What the client uses of \<open>egui\<close>'s geometry and images, from the copy of \<open>egui\<close> the repository
  carries in \<open>libs/egui\<close>: points and vectors (\<open>emath/src/pos2.rs\<close>, \<open>emath/src/vec2.rs\<close>),
  rectangles (\<open>emath/src/rect.rs\<close>) and colour images (\<open>epaint/src/image.rs\<close>), in \<open>f32\<close>
  arithmetic. \<open>f32::hypot\<close> is a function of the C library and an argument.
\<close>

record Vec2 =
  vx :: f32
  vy :: f32

type_synonym Pos2 = Vec2

definition vec2 :: "f32 \<Rightarrow> f32 \<Rightarrow> Vec2" where "vec2 x y = \<lparr>vx = x, vy = y\<rparr>"

definition vec_mul :: "Vec2 \<Rightarrow> f32 \<Rightarrow> Vec2" where
  "vec_mul self factor = vec2 (mul32 (vx self) factor) (mul32 (vy self) factor)"

definition pos_add :: "Pos2 \<Rightarrow> Vec2 \<Rightarrow> Pos2" where
  "pos_add self rhs = vec2 (add32 (vx self) (vx rhs)) (add32 (vy self) (vy rhs))"

definition pos_sub :: "Pos2 \<Rightarrow> Vec2 \<Rightarrow> Pos2" where
  "pos_sub self rhs = vec2 (sub32 (vx self) (vx rhs)) (sub32 (vy self) (vy rhs))"

definition pos_diff :: "Pos2 \<Rightarrow> Pos2 \<Rightarrow> Vec2" where
  "pos_diff self rhs = vec2 (sub32 (vx self) (vx rhs)) (sub32 (vy self) (vy rhs))"

definition vec_length :: "(f32 \<Rightarrow> f32 \<Rightarrow> f32) \<Rightarrow> Vec2 \<Rightarrow> f32" where
  "vec_length hypot self = hypot (vx self) (vy self)"

record Rect =
  rect_min :: Pos2
  rect_max :: Pos2

definition from_center_size :: "Pos2 \<Rightarrow> Vec2 \<Rightarrow> Rect" where
  "from_center_size center extent =
     \<lparr>rect_min = pos_sub center (vec_mul extent (f32 (1 / 2))),
      rect_max = pos_add center (vec_mul extent (f32 (1 / 2)))\<rparr>"

definition rect_contains :: "Rect \<Rightarrow> Pos2 \<Rightarrow> bool" where
  "rect_contains self p \<longleftrightarrow>
     fle (vx (rect_min self)) (vx p) \<and> fle (vx p) (vx (rect_max self))
     \<and> fle (vy (rect_min self)) (vy p) \<and> fle (vy p) (vy (rect_max self))"

definition rect_center :: "Rect \<Rightarrow> Pos2" where
  "rect_center self =
     vec2 (div32 (add32 (vx (rect_min self)) (vx (rect_max self))) (f32 2))
          (div32 (add32 (vy (rect_min self)) (vy (rect_max self))) (f32 2))"

definition rect_width :: "Rect \<Rightarrow> f32" where
  "rect_width self = sub32 (vx (rect_max self)) (vx (rect_min self))"

definition rect_height :: "Rect \<Rightarrow> f32" where
  "rect_height self = sub32 (vy (rect_max self)) (vy (rect_min self))"

section \<open>Colour images\<close>

record Color32 =
  c_r :: u8
  c_g :: u8
  c_b :: u8
  c_a :: u8

definition color_from_rgb :: "u8 \<Rightarrow> u8 \<Rightarrow> u8 \<Rightarrow> Color32" where
  "color_from_rgb r g b = \<lparr>c_r = r, c_g = g, c_b = b, c_a = 255\<rparr>"

record ColorImage =
  ci_size :: "nat \<times> nat"
  ci_source_size :: Vec2
  ci_pixels :: "Color32 list"

definition ColorImage_new :: "nat \<times> nat \<Rightarrow> Color32 list \<Rightarrow> ColorImage" where
  "ColorImage_new dims pixels =
     \<lparr>ci_size = dims,
      ci_source_size = vec2 (nat_as_f32 (fst dims)) (nat_as_f32 (snd dims)),
      ci_pixels = pixels\<rparr>"

text \<open>\<open>ColorImage::from_rgb\<close> panics unless there are exactly three bytes per pixel.\<close>

definition from_rgb :: "nat \<times> nat \<Rightarrow> bytes \<Rightarrow> ColorImage result" where
  "from_rgb dims rgb =
     (if fst dims * snd dims * 3 \<noteq> length rgb then Inl (Panicked ''assertion failed'')
      else Inr (ColorImage_new dims
                  (map (\<lambda>p. color_from_rgb (p ! 0) (p ! 1) (p ! 2)) (chunks_exact 3 rgb))))"

section \<open>Lemmas\<close>

lemma from_rgb_ok:
  "fst dims * snd dims * 3 = length rgb \<Longrightarrow>
   \<exists>im. from_rgb dims rgb = Inr im \<and> ci_size im = dims \<and> length (ci_pixels im) = fst dims * snd dims"
  by (simp add: from_rgb_def ColorImage_new_def length_chunks_exact flip: nonzero_mult_div_cancel_right)

text \<open>Pixel \<open>i\<close> of the image is made of bytes \<open>3 i\<close>, \<open>3 i + 1\<close> and \<open>3 i + 2\<close>.\<close>

lemma from_rgb_pixel:
  assumes "from_rgb dims rgb = Inr im" "i < fst dims * snd dims"
  shows "ci_pixels im ! i = color_from_rgb (rgb ! (3 * i)) (rgb ! (3 * i + 1)) (rgb ! (3 * i + 2))"
proof -
  have len: "length rgb = fst dims * snd dims * 3"
    and im: "ci_pixels im = map (\<lambda>p. color_from_rgb (p ! 0) (p ! 1) (p ! 2)) (chunks_exact 3 rgb)"
    using assms(1) by (auto simp: from_rgb_def ColorImage_new_def split: if_splits)
  have "length rgb div 3 = fst dims * snd dims" using len by simp
  then have i: "i < length rgb div 3" using assms(2) by simp
  then have "3 * i + 2 < length rgb" by linarith
  then show ?thesis
    using i by (simp add: im nth_chunks_exact length_chunks_exact mult.commute)
qed

end
