(* ===== verification/Client_App.thy ===== *)
theory Client_App
  imports Client_Connection H264_Decoder Geometry
begin

text \<open>
  \<open>src/client/app.rs\<close>: the client application. \<open>update\<close> is called by the GUI framework once per
  frame; it polls the connection's state, processes the messages that have arrived, shows the
  picture and reacts to the user. What the user does in a frame and what the framework reports
  about the layout is the argument \<open>inp\<close> of the operations; drawing has no effect on the state
  and is left out. The channels to the connection thread are the lists of the messages in them.
  The client's part of \<open>egui\<close> is in \<open>Geometry\<close>; zstd's \<open>decode_all\<close>, FFmpeg and \<open>f32::hypot\<close>
  are parameters.
\<close>

section \<open>Keys\<close>

text \<open>The keys \<open>format_key\<close> knows; every other key of \<open>egui::Key\<close> is \<open>Key_Other\<close>.\<close>

datatype (plugins only: size) Key =
    Key_A | Key_B | Key_C | Key_D | Key_E | Key_F | Key_G | Key_H | Key_I | Key_J | Key_K | Key_L
  | Key_M | Key_N | Key_O | Key_P | Key_Q | Key_R | Key_S | Key_T | Key_U | Key_V | Key_W | Key_X
  | Key_Y | Key_Z
  | Key_Num0 | Key_Num1 | Key_Num2 | Key_Num3 | Key_Num4
  | Key_Num5 | Key_Num6 | Key_Num7 | Key_Num8 | Key_Num9
  | Key_Space | Key_Enter | Key_Escape | Key_Backspace | Key_Tab
  | Key_ArrowDown | Key_ArrowLeft | Key_ArrowRight | Key_ArrowUp
  | Key_Other

fun format_key :: "Key \<Rightarrow> string option" where
  "format_key Key_A = Some ''a''" | "format_key Key_B = Some ''b''"
| "format_key Key_C = Some ''c''" | "format_key Key_D = Some ''d''"
| "format_key Key_E = Some ''e''" | "format_key Key_F = Some ''f''"
| "format_key Key_G = Some ''g''" | "format_key Key_H = Some ''h''"
| "format_key Key_I = Some ''i''" | "format_key Key_J = Some ''j''"
| "format_key Key_K = Some ''k''" | "format_key Key_L = Some ''l''"
| "format_key Key_M = Some ''m''" | "format_key Key_N = Some ''n''"
| "format_key Key_O = Some ''o''" | "format_key Key_P = Some ''p''"
| "format_key Key_Q = Some ''q''" | "format_key Key_R = Some ''r''"
| "format_key Key_S = Some ''s''" | "format_key Key_T = Some ''t''"
| "format_key Key_U = Some ''u''" | "format_key Key_V = Some ''v''"
| "format_key Key_W = Some ''w''" | "format_key Key_X = Some ''x''"
| "format_key Key_Y = Some ''y''" | "format_key Key_Z = Some ''z''"
| "format_key Key_Num0 = Some ''0''" | "format_key Key_Num1 = Some ''1''"
| "format_key Key_Num2 = Some ''2''" | "format_key Key_Num3 = Some ''3''"
| "format_key Key_Num4 = Some ''4''" | "format_key Key_Num5 = Some ''5''"
| "format_key Key_Num6 = Some ''6''" | "format_key Key_Num7 = Some ''7''"
| "format_key Key_Num8 = Some ''8''" | "format_key Key_Num9 = Some ''9''"
| "format_key Key_Space = Some '' ''"
| "format_key Key_Enter = Some ''Return''"
| "format_key Key_Escape = Some ''Escape''"
| "format_key Key_Backspace = Some ''BackSpace''"
| "format_key Key_Tab = Some ''Tab''"
| "format_key Key_ArrowDown = Some ''Down''"
| "format_key Key_ArrowLeft = Some ''Left''"
| "format_key Key_ArrowRight = Some ''Right''"
| "format_key Key_ArrowUp = Some ''Up''"
| "format_key Key_Other = None"

section \<open>The state of the application\<close>

datatype AppState = Disconnected | Connecting | Connected | Error string

text \<open>\<open>app_tx\<close> is what has been sent to the connection thread, \<open>app_rx\<close> and \<open>app_state_rx\<close> what
  the thread has sent and the application has not yet taken. The runtime handle is left out.\<close>

record 'd VoxApp =
  app_state :: AppState
  app_access_code :: string
  app_server_address :: string
  app_connection :: "Connection option"
  app_tx :: "Message list option"
  app_rx :: "Message list option"
  app_state_rx :: "AppState list option"
  app_screen_texture :: "ColorImage option"
  app_screen_size :: "u32 \<times> u32"
  app_last_mouse_pos :: Pos2
  app_current_frame :: "bytes option"
  app_frame_processor :: "FrameProcessor option"
  app_h264_decoder :: "'d H264Decoder option"
  app_current_quality :: QualityMode
  app_quality_metrics :: "QualityMetrics option"
  app_show_quality_menu :: bool

definition VoxApp_default :: "'d VoxApp" where
  "VoxApp_default =
     \<lparr>app_state = Disconnected, app_access_code = [], app_server_address = ''127.0.0.1:8080'',
      app_connection = None, app_tx = None, app_rx = None, app_state_rx = None,
      app_screen_texture = None, app_screen_size = (1920, 1080),
      app_last_mouse_pos = vec2 (f32 0) (f32 0), app_current_frame = None,
      app_frame_processor = None, app_h264_decoder = None, app_current_quality = High,
      app_quality_metrics = None, app_show_quality_menu = False\<rparr>"

definition app_send_message :: "Message \<Rightarrow> 'd VoxApp \<Rightarrow> 'd VoxApp" where
  "app_send_message msg self =
     self\<lparr>app_tx := map_option (\<lambda>q. q @ [msg]) (app_tx self)\<rparr>"

text \<open>\<open>connect\<close> sets up the channels and starts the connection thread.\<close>

definition app_connect :: "'d VoxApp \<Rightarrow> 'd VoxApp" where
  "app_connect self =
     self\<lparr>app_state := Connecting, app_connection := Some Connection_new,
          app_rx := Some [], app_state_rx := Some [], app_tx := Some []\<rparr>"

definition app_disconnect :: "'d VoxApp \<Rightarrow> 'd VoxApp" where
  "app_disconnect self =
     (app_send_message Msg_Disconnect self)
       \<lparr>app_state := Disconnected, app_connection := None, app_tx := None, app_rx := None,
        app_state_rx := None, app_screen_texture := None, app_access_code := []\<rparr>"

text \<open>The connection thread: the states it reports and the messages it forwards to the
  application, from the result of the handshake and the messages its reader task yields, each
  with the flag whether the application still has its end of the channel. A panic in the
  handshake kills the thread.\<close>

fun forward :: "(bool \<times> 'a) list \<Rightarrow> 'a list" where
  "forward [] = []"
| "forward ((alive, msg) # rest) = (if alive then msg # forward rest else [])"

fun error_text :: "error \<Rightarrow> string" where
  "error_text (Anyhow s) = s"
| "error_text (External s) = s"
| "error_text (Panicked s) = s"

fun connection_thread ::
  "Message list result \<Rightarrow> (bool \<times> Message) list \<Rightarrow> AppState list \<times> Message list" where
  "connection_thread (Inr queued) incoming = ([Connected, Disconnected], forward incoming)"
| "connection_thread (Inl (Panicked s)) incoming = ([], [])"
| "connection_thread (Inl e) incoming = ([Error (''Connection failed: '' @ error_text e)], [])"

section \<open>Incoming messages\<close>

definition update_screen :: "u32 \<Rightarrow> u32 \<Rightarrow> bytes \<Rightarrow> 'd VoxApp \<Rightarrow> 'd VoxApp result" where
  "update_screen width height rgb_data self =
     (let self1 = self\<lparr>app_screen_size := (width, height)\<rparr>
      in try_bind (from_rgb (unat width, unat height) rgb_data) (\<lambda>color_image.
           Inr (self1\<lparr>app_screen_texture := Some color_image\<rparr>)))"

text \<open>The H.264 branch: \<open>Inr None\<close> is \<open>continue\<close>. An index panic inside the decoder ends the
  application.\<close>

definition run_decoder ::
  "'d ffmpeg_dec \<Rightarrow> bytes \<Rightarrow> 'd H264Decoder \<Rightarrow> 'd VoxApp \<Rightarrow> 'd VoxApp \<times> bytes option result" where
  "run_decoder ff data decoder self =
     (case decode ff decoder data of
        (decoder', Inl (Panicked s)) \<Rightarrow> (self, Inl (Panicked s))
      | (decoder', Inl _) \<Rightarrow> (self\<lparr>app_h264_decoder := Some decoder'\<rparr>, Inr None)
      | (decoder', Inr rgb) \<Rightarrow> (self\<lparr>app_h264_decoder := Some decoder'\<rparr>, Inr rgb))"

definition decode_h264 ::
  "'d ffmpeg_dec \<Rightarrow> u32 \<Rightarrow> u32 \<Rightarrow> bytes \<Rightarrow> 'd VoxApp \<Rightarrow> 'd VoxApp \<times> bytes option result" where
  "decode_h264 ff width height data self =
     (case app_h264_decoder self of
        Some decoder \<Rightarrow> run_decoder ff data decoder self
      | None \<Rightarrow>
          (case H264Decoder_new ff width height of
             Inl _ \<Rightarrow> (self, Inr None)
           | Inr decoder \<Rightarrow>
               run_decoder ff data decoder (self\<lparr>app_h264_decoder := Some decoder\<rparr>)))"

fun decode_frame ::
  "(bytes \<Rightarrow> string + bytes) \<Rightarrow> 'd ffmpeg_dec \<Rightarrow> u32 \<Rightarrow> u32 \<Rightarrow> bytes \<Rightarrow> EncodingType \<Rightarrow> 'd VoxApp \<Rightarrow>
   'd VoxApp \<times> bytes option result" where
  "decode_frame decode_all ff width height data Raw self = (self, Inr (Some data))"
| "decode_frame decode_all ff width height data ZstdCompressed self =
     (self, Inr (case decode_all data of Inl _ \<Rightarrow> None | Inr d \<Rightarrow> Some d))"
| "decode_frame decode_all ff width height data H264 self = decode_h264 ff width height data self"
| "decode_frame decode_all ff width height data WebP self = (self, Inr None)"

type_synonym screen_update = "(u32 \<times> u32 \<times> bytes) option"

definition on_screen_frame ::
  "(bytes \<Rightarrow> string + bytes) \<Rightarrow> 'd ffmpeg_dec \<Rightarrow> SystemTime \<Rightarrow> u64 \<Rightarrow> u32 \<Rightarrow> u32 \<Rightarrow> bytes \<Rightarrow> EncodingType \<Rightarrow>
   'd VoxApp \<times> screen_update \<Rightarrow> ('d VoxApp \<times> screen_update) result" where
  "on_screen_frame decode_all ff clock timestamp width height data encoding st =
     (case st of (self, upd) \<Rightarrow>
        (case decode_frame decode_all ff width height data encoding self of
           (self1, Inl e) \<Rightarrow> Inl e
         | (self1, Inr None) \<Rightarrow> Inr (self1, upd)
         | (self1, Inr (Some rgb_data)) \<Rightarrow>
             let self2 = (case app_frame_processor self1 of
                            None \<Rightarrow> self1\<lparr>app_frame_processor := Some (FrameProcessor_new width height)\<rparr>
                          | Some _ \<Rightarrow> self1);
                 self3 = self2\<lparr>app_current_frame := Some rgb_data\<rparr>
             in try_bind (unix_millis clock) (\<lambda>received_at.
                  Inr (app_send_message (Msg_FrameAck timestamp received_at) self3,
                       Some (width, height, rgb_data)))))"

text \<open>The tiles are applied to the current frame in place.\<close>

definition apply_tiles ::
  "TileData list \<Rightarrow> 'd VoxApp \<times> screen_update \<Rightarrow> 'd VoxApp \<times> screen_update" where
  "apply_tiles tiles st =
     (case st of (self, upd) \<Rightarrow>
        (case (app_current_frame self, app_frame_processor self) of
           (Some current, Some processor) \<Rightarrow>
             let (width, height) = app_screen_size self;
                 delta = \<lparr>pf_frame_type = DeltaFrame, pf_data = [], pf_width = width,
                          pf_height = height, pf_tiles = Some tiles\<rparr>
             in (case apply_delta processor current delta of
                   Inr current' \<Rightarrow>
                     (self\<lparr>app_current_frame := Some current'\<rparr>, Some (width, height, current'))
                 | Inl _ \<Rightarrow> (self, upd))
         | _ \<Rightarrow> (self, upd)))"

definition on_delta_frame ::
  "SystemTime \<Rightarrow> u64 \<Rightarrow> TileData list \<Rightarrow> 'd VoxApp \<times> screen_update \<Rightarrow> ('d VoxApp \<times> screen_update) result" where
  "on_delta_frame clock timestamp tiles st =
     (case apply_tiles tiles st of (self, upd) \<Rightarrow>
        try_bind (unix_millis clock) (\<lambda>received_at.
          Inr (app_send_message (Msg_FrameAck timestamp received_at) self, upd)))"

fun handle_incoming ::
  "(bytes \<Rightarrow> string + bytes) \<Rightarrow> 'd ffmpeg_dec \<Rightarrow> SystemTime \<times> Message \<Rightarrow>
   'd VoxApp \<times> screen_update \<Rightarrow> ('d VoxApp \<times> screen_update) result" where
  "handle_incoming decode_all ff (clock, Msg_ScreenFrame timestamp width height data encoding) st =
     on_screen_frame decode_all ff clock timestamp width height data encoding st"
| "handle_incoming decode_all ff (clock, Msg_DeltaFrame timestamp tiles) st =
     on_delta_frame clock timestamp tiles st"
| "handle_incoming decode_all ff (clock, Msg_QualityChange mode) (self, upd) =
     Inr (self\<lparr>app_current_quality := mode\<rparr>, upd)"
| "handle_incoming decode_all ff (clock, Msg_QualityMetricsReport metrics) (self, upd) =
     Inr (self\<lparr>app_quality_metrics := Some metrics\<rparr>, upd)"
| "handle_incoming decode_all ff (clock, Msg_AuthResponse success session_token) (self, upd) =
     Inr (if success then self else self\<lparr>app_state := Error ''Authentication failed''\<rparr>, upd)"
| "handle_incoming decode_all ff (clock, _) st = Inr st"

definition poll_state :: "'d VoxApp \<Rightarrow> 'd VoxApp" where
  "poll_state self =
     (case app_state_rx self of
        Some (new_state # rest) \<Rightarrow> self\<lparr>app_state_rx := Some rest, app_state := new_state\<rparr>
      | _ \<Rightarrow> self)"

text \<open>The loop over the received messages; \<open>clock i\<close> is the system time at message \<open>i\<close>. The
  picture is shown once, after the loop.\<close>

definition process_incoming ::
  "(bytes \<Rightarrow> string + bytes) \<Rightarrow> 'd ffmpeg_dec \<Rightarrow> (nat \<Rightarrow> SystemTime) \<Rightarrow> 'd VoxApp \<Rightarrow> 'd VoxApp result" where
  "process_incoming decode_all ff clock self =
     (case app_rx self of
        None \<Rightarrow> Inr self
      | Some msgs \<Rightarrow>
          try_bind (fold_result (handle_incoming decode_all ff)
                      (zip (map clock [0..<length msgs]) msgs)
                      (self\<lparr>app_rx := Some []\<rparr>, None))
            (\<lambda>(self, upd). case upd of
                Some (width, height, rgb_data) \<Rightarrow> update_screen width height rgb_data self
              | None \<Rightarrow> Inr self))"

section \<open>The connection form\<close>

text \<open>What happens in the form during one frame: the new contents of the code and address fields
  if they were edited, and whether the button was clicked.\<close>

record ConnectionInput =
  in_code :: "string option"
  in_address :: "string option"
  in_connect_clicked :: bool

text \<open>\<open>retain(|c| c.is_ascii_digit())\<close> followed by \<open>truncate(6)\<close>\<close>

definition clean_code :: "string \<Rightarrow> string" where
  "clean_code code = take 6 (filter is_ascii_digit code)"

definition connect_enabled :: "'d VoxApp \<Rightarrow> bool" where
  "connect_enabled self \<longleftrightarrow> str_len (app_access_code self) = 6 \<and> app_state self \<noteq> Connecting"

definition show_connection_ui :: "ConnectionInput \<Rightarrow> 'd VoxApp \<Rightarrow> 'd VoxApp" where
  "show_connection_ui inp self =
     (let self1 = (case in_code inp of
                     Some code \<Rightarrow> self\<lparr>app_access_code := clean_code code\<rparr> | None \<Rightarrow> self);
          self2 = (case in_address inp of
                     Some address \<Rightarrow> self1\<lparr>app_server_address := address\<rparr> | None \<Rightarrow> self1)
      in if in_connect_clicked inp \<and> connect_enabled self2 then app_connect self2 else self2)"

section \<open>The remote screen\<close>

record EguiModifiers =
  em_alt :: bool
  em_ctrl :: bool
  em_shift :: bool
  em_command :: bool

record RemoteInput =
  ri_disconnect_clicked :: bool
  ri_quality_clicked :: bool
  ri_available_size :: Vec2
  ri_available_rect :: Rect
  ri_hover_pos :: "Pos2 option"
  ri_primary_pressed :: bool
  ri_primary_released :: bool
  ri_secondary_pressed :: bool
  ri_secondary_released :: bool
  ri_keys :: "(Key \<times> bool \<times> EguiModifiers) list"

text \<open>Where the picture is drawn: scaled to fit and centred.\<close>

definition image_rect :: "RemoteInput \<Rightarrow> u32 \<times> u32 \<Rightarrow> Rect" where
  "image_rect inp screen_size =
     (let image_size = vec2 (nat_as_f32 (unat (fst screen_size))) (nat_as_f32 (unat (snd screen_size)));
          available_size = ri_available_size inp;
          scale = fmin (div32 (vx available_size) (vx image_size))
                       (div32 (vy available_size) (vy image_size));
          scaled_size = vec_mul image_size scale
      in from_center_size (rect_center (ri_available_rect inp)) scaled_size)"

text \<open>One coordinate of the pointer on the remote screen, from the position, the start and the
  extent of the picture in the window and the number of pixels.\<close>

definition screen_coord :: "f32 \<Rightarrow> f32 \<Rightarrow> f32 \<Rightarrow> u32 \<Rightarrow> int" where
  "screen_coord pos start extent pixels =
     (let relative = fclamp (div32 (sub32 pos start) extent) (f32 0) (f32 1)
      in fp_as_i32 (fp_round (mul32 relative (nat_as_f32 (unat pixels)))))"

definition send_if :: "bool \<Rightarrow> Message \<Rightarrow> 'd VoxApp \<Rightarrow> 'd VoxApp" where
  "send_if b msg self = (if b then app_send_message msg self else self)"

definition move_mouse ::
  "(f32 \<Rightarrow> f32 \<Rightarrow> f32) \<Rightarrow> int \<Rightarrow> int \<Rightarrow> 'd VoxApp \<Rightarrow> 'd VoxApp" where
  "move_mouse hypot screen_x screen_y self =
     (let new_pos = vec2 (f32 (of_int screen_x)) (f32 (of_int screen_y))
      in if flt (f32 1) (vec_length hypot (pos_diff new_pos (app_last_mouse_pos self)))
         then app_send_message (Msg_MouseMove screen_x screen_y)
                (self\<lparr>app_last_mouse_pos := new_pos\<rparr>)
         else self)"

definition handle_pointer ::
  "(f32 \<Rightarrow> f32 \<Rightarrow> f32) \<Rightarrow> RemoteInput \<Rightarrow> 'd VoxApp \<Rightarrow> 'd VoxApp" where
  "handle_pointer hypot inp self =
     (let rect = image_rect inp (app_screen_size self)
      in case ri_hover_pos inp of
           None \<Rightarrow> self
         | Some hover_pos \<Rightarrow>
             if \<not> rect_contains rect hover_pos then self
             else let screen_x = screen_coord (vx hover_pos) (vx (rect_min rect)) (rect_width rect)
                                   (fst (app_screen_size self));
                      screen_y = screen_coord (vy hover_pos) (vy (rect_min rect)) (rect_height rect)
                                   (snd (app_screen_size self))
                  in send_if (ri_secondary_released inp) (Msg_MouseClick Right False screen_x screen_y)
                    (send_if (ri_secondary_pressed inp) (Msg_MouseClick Right True screen_x screen_y)
                    (send_if (ri_primary_released inp) (Msg_MouseClick Left False screen_x screen_y)
                    (send_if (ri_primary_pressed inp) (Msg_MouseClick Left True screen_x screen_y)
                    (move_mouse hypot screen_x screen_y self)))))"

definition key_message :: "Key \<times> bool \<times> EguiModifiers \<Rightarrow> Message option" where
  "key_message ev =
     (case ev of (key, pressed, modifiers) \<Rightarrow>
        map_option (\<lambda>key_str. Msg_KeyEvent key_str pressed
            \<lparr>mod_shift = em_shift modifiers, mod_ctrl = em_ctrl modifiers \<or> em_command modifiers,
             mod_alt = em_alt modifiers, mod_meta = em_command modifiers\<rparr>)
          (format_key key))"

fun handle_keys :: "(Key \<times> bool \<times> EguiModifiers) list \<Rightarrow> 'd VoxApp \<Rightarrow> 'd VoxApp" where
  "handle_keys [] self = self"
| "handle_keys (ev # evs) self =
     handle_keys evs (case key_message ev of Some msg \<Rightarrow> app_send_message msg self | None \<Rightarrow> self)"

definition show_remote_screen ::
  "(f32 \<Rightarrow> f32 \<Rightarrow> f32) \<Rightarrow> RemoteInput \<Rightarrow> 'd VoxApp \<Rightarrow> 'd VoxApp" where
  "show_remote_screen hypot inp self =
     (let self1 = (if ri_disconnect_clicked inp then app_disconnect self else self);
          self2 = (if ri_quality_clicked inp
                   then self1\<lparr>app_show_quality_menu := \<not> app_show_quality_menu self1\<rparr> else self1)
      in handle_keys (ri_keys inp) (handle_pointer hypot inp self2))"

section \<open>The quality menu and one frame of the application\<close>

text \<open>The labels clicked in this frame, in the order the menu lists the modes, and the button.\<close>

record MenuInput =
  mi_clicked :: "QualityMode \<Rightarrow> bool"
  mi_close_clicked :: bool

definition pick_mode :: "MenuInput \<Rightarrow> QualityMode \<Rightarrow> 'd VoxApp \<Rightarrow> 'd VoxApp" where
  "pick_mode inp mode self =
     (if mi_clicked inp mode
      then (app_send_message (Msg_RequestQualityChange mode) self)\<lparr>app_show_quality_menu := False\<rparr>
      else self)"

definition show_quality_menu :: "MenuInput \<Rightarrow> 'd VoxApp \<Rightarrow> 'd VoxApp" where
  "show_quality_menu inp self =
     (if \<not> app_show_quality_menu self then self
      else let self1 = fold (pick_mode inp) [Ultra, High, Medium, Low, Minimal] self
           in if mi_close_clicked inp then self1\<lparr>app_show_quality_menu := False\<rparr> else self1)"

record UserInput =
  ui_form :: ConnectionInput
  ui_remote :: RemoteInput
  ui_menu :: MenuInput

definition app_update ::
  "(bytes \<Rightarrow> string + bytes) \<Rightarrow> 'd ffmpeg_dec \<Rightarrow> (f32 \<Rightarrow> f32 \<Rightarrow> f32) \<Rightarrow> (nat \<Rightarrow> SystemTime) \<Rightarrow> UserInput \<Rightarrow>
   'd VoxApp \<Rightarrow> 'd VoxApp result" where
  "app_update decode_all ff hypot clock inp self =
     try_bind (process_incoming decode_all ff clock (poll_state self)) (\<lambda>self.
       case app_state self of
         Connected \<Rightarrow>
           Inr (show_quality_menu (ui_menu inp) (show_remote_screen hypot (ui_remote inp) self))
       | _ \<Rightarrow> Inr (show_connection_ui (ui_form inp) self))"

section \<open>What processing messages leaves alone\<close>

lemma fold_result_invariant:
  assumes "fold_result f xs s = Inr s'" "I s"
    and "\<And>x s s'. f x s = Inr s' \<Longrightarrow> I s \<Longrightarrow> I s'"
  shows "I s'"
  using assms(1,2)
proof (induction xs arbitrary: s)
  case (Cons x xs)
  then show ?case using assms(3) by (auto simp: try_bind_Inr_iff)
qed simp

text \<open>The form's fields, the reported states and, up to a refused authentication, the state.\<close>

definition app_same :: "'d VoxApp \<Rightarrow> 'd VoxApp \<Rightarrow> bool" where
  "app_same self self' \<longleftrightarrow>
     app_access_code self' = app_access_code self \<and> app_state_rx self' = app_state_rx self
     \<and> (app_state self' = app_state self \<or> (\<exists>s. app_state self' = Error s))"

lemma app_same_refl [simp]: "app_same self self"
  by (simp add: app_same_def)

lemma app_same_trans: "app_same a b \<Longrightarrow> app_same b c \<Longrightarrow> app_same a c"
  by (auto simp: app_same_def)

lemma app_send_message_simps [simp]:
  "app_access_code (app_send_message m self) = app_access_code self"
  "app_state_rx (app_send_message m self) = app_state_rx self"
  "app_state (app_send_message m self) = app_state self"
  "app_screen_size (app_send_message m self) = app_screen_size self"
  "app_current_frame (app_send_message m self) = app_current_frame self"
  "app_frame_processor (app_send_message m self) = app_frame_processor self"
  "app_screen_texture (app_send_message m self) = app_screen_texture self"
  "app_tx (app_send_message m self) = map_option (\<lambda>q. q @ [m]) (app_tx self)"
  by (simp_all add: app_send_message_def)

lemma decode_frame_same:
  "decode_frame da ff w h data enc self = (self', r) \<Longrightarrow> app_same self self'"
  by (cases enc)
    (auto simp: decode_h264_def run_decoder_def app_same_def
      split: option.splits sum.splits prod.splits error.splits)

lemma handle_incoming_same:
  assumes "handle_incoming da ff cm (self, upd) = Inr (self', upd')"
  shows "app_same self self'"
proof (cases "(da, ff, cm, (self, upd))" rule: handle_incoming.cases)
  case (1 da ff clock timestamp width height data encoding st)
  then show ?thesis using assms decode_frame_same
    by (fastforce simp: on_screen_frame_def try_bind_Inr_iff app_same_def Let_def
        split: sum.splits option.splits prod.splits)
next
  case (2 da ff clock timestamp tiles st)
  then show ?thesis using assms
    by (auto simp: on_delta_frame_def apply_tiles_def try_bind_Inr_iff app_same_def Let_def
        split: sum.splits option.splits prod.splits)
qed (use assms in \<open>auto simp: app_same_def\<close>)

lemma process_incoming_same:
  assumes "process_incoming da ff clock self = Inr self'"
  shows "app_same self self'"
proof (cases "app_rx self")
  case (Some msgs)
  let ?ms = "zip (map clock [0..<length msgs]) msgs"
  from assms Some obtain self1 upd where
    f: "fold_result (handle_incoming da ff) ?ms (self\<lparr>app_rx := Some []\<rparr>, None) = Inr (self1, upd)"
    and u: "(case upd of Some (w, h, d) \<Rightarrow> update_screen w h d self1 | None \<Rightarrow> Inr self1) = Inr self'"
    by (auto simp: process_incoming_def try_bind_Inr_iff)
  have "app_same self (fst (self1, upd))"
    by (rule fold_result_invariant [where I = "\<lambda>st. app_same self (fst st)", OF f])
      (auto simp: app_same_def [of self "app_rx_update _ _"]
        intro: app_same_trans [OF _ handle_incoming_same])
  moreover have "app_same self1 self'"
    using u by (auto simp: update_screen_def try_bind_Inr_iff app_same_def split: option.splits)
  ultimately show ?thesis by (auto intro: app_same_trans)
qed (use assms in \<open>simp add: process_incoming_def\<close>)

section \<open>Executions of the client\<close>

text \<open>
  The application and its connection threads: a frame of the GUI, a state reported by a thread,
  a message delivered by a thread. A report carries the result of the thread's handshake.
\<close>

datatype app_event = AE_Update | AE_Report "Message list result" AppState | AE_Deliver Message

inductive app_trace ::
  "(bytes \<Rightarrow> string + bytes) \<Rightarrow> 'd ffmpeg_dec \<Rightarrow> (f32 \<Rightarrow> f32 \<Rightarrow> f32) \<Rightarrow> app_event list \<Rightarrow> 'd VoxApp \<Rightarrow> bool"
  for decode_all ff hypot where
  start: "app_trace decode_all ff hypot [] VoxApp_default"
| update: "app_trace decode_all ff hypot tr self \<Longrightarrow>
     app_update decode_all ff hypot clock inp self = Inr self' \<Longrightarrow>
     app_trace decode_all ff hypot (tr @ [AE_Update]) self'"
| report: "app_trace decode_all ff hypot tr self \<Longrightarrow>
     s \<in> set (fst (connection_thread r incoming)) \<Longrightarrow>
     app_trace decode_all ff hypot (tr @ [AE_Report r s])
       (self\<lparr>app_state_rx := map_option (\<lambda>q. q @ [s]) (app_state_rx self)\<rparr>)"
| deliver: "app_trace decode_all ff hypot tr self \<Longrightarrow>
     app_trace decode_all ff hypot (tr @ [AE_Deliver m])
       (self\<lparr>app_rx := map_option (\<lambda>q. q @ [m]) (app_rx self)\<rparr>)"

definition code_ok :: "string \<Rightarrow> bool" where
  "code_ok code \<longleftrightarrow> length code \<le> 6 \<and> list_all is_ascii_digit code"

text \<open>A thread whose handshake succeeded has reported.\<close>

definition handshake_done :: "app_event list \<Rightarrow> bool" where
  "handshake_done tr \<longleftrightarrow> (\<exists>q s. AE_Report (Inr q) s \<in> set tr)"

definition pending :: "'d VoxApp \<Rightarrow> AppState set" where
  "pending self = (case app_state_rx self of None \<Rightarrow> {} | Some q \<Rightarrow> set q)"

definition app_inv :: "app_event list \<Rightarrow> 'd VoxApp \<Rightarrow> bool" where
  "app_inv tr self \<longleftrightarrow>
     code_ok (app_access_code self) \<and> Connecting \<notin> pending self
     \<and> (app_state self = Connected \<or> Connected \<in> pending self \<longrightarrow> handshake_done tr)"

lemma clean_code_ok: "code_ok (clean_code code)"
proof -
  have "set (take 6 (filter is_ascii_digit code)) \<subseteq> set (filter is_ascii_digit code)"
    by (rule set_take_subset)
  then show ?thesis by (auto simp: code_ok_def clean_code_def list_all_iff)
qed

lemma handshake_done_append [simp]:
  "handshake_done (tr @ [e]) \<longleftrightarrow> handshake_done tr \<or> (\<exists>q s. e = AE_Report (Inr q) s)"
  by (auto simp: handshake_done_def)

lemma thread_reports:
  assumes "s \<in> set (fst (connection_thread r incoming))"
  shows "s \<noteq> Connecting" "s = Connected \<Longrightarrow> \<exists>q. r = Inr q"
  using assms by (cases "(r, incoming)" rule: connection_thread.cases; auto)+

lemma app_inv_poll: "app_inv tr self \<Longrightarrow> app_inv tr (poll_state self)"
  by (auto simp: poll_state_def app_inv_def pending_def split: option.splits list.splits)

lemma poll_state_not_connecting:
  "app_inv tr self \<Longrightarrow> app_state self \<noteq> Connecting \<Longrightarrow> app_state (poll_state self) \<noteq> Connecting"
  by (auto simp: poll_state_def app_inv_def pending_def split: option.splits list.splits)

lemma app_inv_same: "app_inv tr self \<Longrightarrow> app_same self self' \<Longrightarrow> app_inv tr self'"
  by (auto simp: app_inv_def app_same_def pending_def)

lemma form_inv: "app_inv tr self \<Longrightarrow> app_inv tr (show_connection_ui inp self)"
  by (auto simp: app_inv_def show_connection_ui_def app_connect_def pending_def clean_code_ok Let_def
      split: option.splits)

lemma move_mouse_simps [simp]:
  "app_access_code (move_mouse hypot x y self) = app_access_code self"
  "app_state_rx (move_mouse hypot x y self) = app_state_rx self"
  "app_state (move_mouse hypot x y self) = app_state self"
  by (simp_all add: move_mouse_def Let_def)

lemma send_if_simps [simp]:
  "app_access_code (send_if b m self) = app_access_code self"
  "app_state_rx (send_if b m self) = app_state_rx self"
  "app_state (send_if b m self) = app_state self"
  by (simp_all add: send_if_def)

lemma handle_pointer_same: "app_same self (handle_pointer hypot inp self)"
  by (simp add: handle_pointer_def app_same_def Let_def split: option.splits)

lemma handle_keys_same: "app_same self (handle_keys evs self)"
proof (induction evs arbitrary: self)
  case (Cons ev evs)
  have "app_same self (case key_message ev of Some msg \<Rightarrow> app_send_message msg self | None \<Rightarrow> self)"
    by (simp add: app_same_def split: option.splits)
  then show ?case using Cons by (auto intro: app_same_trans)
qed simp

lemma app_disconnect_inv: "app_inv tr self \<Longrightarrow> app_inv tr (app_disconnect self)"
  by (simp add: app_inv_def app_disconnect_def pending_def code_ok_def)

lemma remote_screen_inv:
  assumes "app_inv tr self"
  shows "app_inv tr (show_remote_screen hypot inp self)"
proof -
  let ?s1 = "if ri_disconnect_clicked inp then app_disconnect self else self"
  let ?s2 = "if ri_quality_clicked inp
    then ?s1\<lparr>app_show_quality_menu := \<not> app_show_quality_menu ?s1\<rparr> else ?s1"
  have "app_inv tr ?s1" using assms by (simp add: app_disconnect_inv)
  then have "app_inv tr ?s2" by (rule app_inv_same) (simp add: app_same_def)
  then show ?thesis unfolding show_remote_screen_def Let_def
    by (blast intro: app_inv_same handle_pointer_same handle_keys_same)
qed

lemma quality_menu_same: "app_same self (show_quality_menu inp self)"
  by (simp add: show_quality_menu_def pick_mode_def app_same_def Let_def)

lemma app_update_inv:
  assumes "app_inv tr self" "app_update da ff hypot clock inp self = Inr self'"
  shows "app_inv tr self'"
proof -
  from assms(2) obtain self1 where 1: "process_incoming da ff clock (poll_state self) = Inr self1"
    and 2: "(case app_state self1 of
         Connected \<Rightarrow>
           Inr (show_quality_menu (ui_menu inp) (show_remote_screen hypot (ui_remote inp) self1))
       | _ \<Rightarrow> Inr (show_connection_ui (ui_form inp) self1)) = (Inr self' :: 'a VoxApp result)"
    unfolding app_update_def try_bind_Inr_iff by blast
  have inv: "app_inv tr self1"
    using app_inv_same [OF app_inv_poll [OF assms(1)] process_incoming_same [OF 1]] .
  show ?thesis
    using 2 form_inv [OF inv] app_inv_same [OF remote_screen_inv [OF inv] quality_menu_same]
    by (cases "app_state self1") auto
qed

lemma app_trace_inv: "app_trace da ff hypot tr self \<Longrightarrow> app_inv tr self"
proof (induction rule: app_trace.induct)
  case start
  then show ?case by (simp add: app_inv_def VoxApp_default_def pending_def code_ok_def)
next
  case (update tr self clock inp self')
  then have "app_inv tr self'" using app_update_inv by blast
  then show ?case by (simp add: app_inv_def)
next
  case (report tr self s r incoming)
  note thread_reports [OF report.hyps(2)]
  then show ?case using report.IH
    by (auto simp: app_inv_def pending_def split: option.splits)
next
  case (deliver tr self m)
  then show ?case by (simp add: app_inv_def pending_def)
qed

section \<open>The pointer\<close>

lemma fclamp_unit: "fclamp x (f32 0) (f32 1) = NaN \<or> (\<exists>r. fclamp x (f32 0) (f32 1) = Fin r \<and> 0 \<le> r \<and> r \<le> 1)"
  by (cases x) (auto simp: fclamp_def fround_1)

lemma small_as_f32: "n < 2 ^ 24 \<Longrightarrow> nat_as_f32 n = Fin (of_nat n)"
  using fround_of_int [of f32_fmt "int n"] by simp

lemma pixel_coord_bounds:
  assumes n: "n < 2 ^ 24"
  defines "c \<equiv> \<lambda>x. fp_as_i32 (fp_round (mul32 (fclamp x (f32 0) (f32 1)) (nat_as_f32 n)))"
  shows "0 \<le> c x \<and> c x \<le> int n"
proof -
  consider "fclamp x (f32 0) (f32 1) = NaN"
    | r where "fclamp x (f32 0) (f32 1) = Fin r" "0 \<le> r" "r \<le> 1"
    using fclamp_unit by blast
  then show ?thesis
  proof cases
    case 1
    then show ?thesis by (simp add: c_def fp_as_i32_def)
  next
    case 2
    have le: "r * of_nat n \<le> of_nat n" "0 \<le> r * of_nat n"
      using 2 mult_right_mono [of r 1 "of_nat n"] by simp_all
    have "of_nat n < (2 ^ 24 :: rat)" using n by (metis of_nat_less_iff of_nat_numeral of_nat_power)
    moreover have "(2 :: rat) ^ 24 \<le> pow2 (emax f32_fmt)" by (simp add: pow2_def)
    ultimately have "\<bar>r * of_nat n\<bar> \<le> pow2 (emax f32_fmt)" using le by linarith
    then have m: "mul32 (Fin r) (nat_as_f32 n) = Fin (round_fmt f32_fmt (r * of_nat n))"
      by (simp add: small_as_f32 [OF n] fround_Fin)
    let ?q = "round_fmt f32_fmt (r * of_nat n)"
    have "round_fmt f32_fmt (of_nat n) = of_nat n"
      using round_of_int [of "int n" f32_fmt] n by simp
    then have q: "0 \<le> ?q" "?q \<le> of_nat n"
      using round_nonneg [OF le(2), of f32_fmt] round_mono [OF _ le(1), of f32_fmt] by simp_all
    have f: "0 \<le> \<lfloor>?q + 1 / 2\<rfloor>" "\<lfloor>?q + 1 / 2\<rfloor> \<le> int n" using q by linarith+
    have "c x = max (- (2 ^ 31)) (min (2 ^ 31 - 1) \<lfloor>?q + 1 / 2\<rfloor>)"
      using q(1) f(1) by (simp only: c_def 2(1) m fp_round.simps fp_as_i32_def fp_as_int.simps
          rat_trunc_def if_True of_int_0_le_iff floor_of_int)
    then show ?thesis using f n by simp
  qed
qed

lemma screen_coord_bounds:
  assumes "unat pixels < 2 ^ 24"
  shows "0 \<le> screen_coord pos start extent pixels
    \<and> screen_coord pos start extent pixels \<le> int (unat pixels)"
  unfolding screen_coord_def Let_def by (rule pixel_coord_bounds [OF assms])

text \<open>The right and the lower edge of the picture are one past the last pixel.\<close>

lemma screen_coord_edge:
  assumes "unat pixels < 2 ^ 24"
  shows "screen_coord (f32 1) (f32 0) (f32 1) pixels = int (unat pixels)"
proof -
  define n where "n = unat pixels"
  have n: "nat_as_f32 n = Fin (of_nat n)" "n < 2 ^ 24"
    using assms by (simp_all add: n_def small_as_f32 del: of_nat_unat)
  have f: "\<lfloor>of_nat n + 1 / 2 :: rat\<rfloor> = int n" by linarith
  have "screen_coord (f32 1) (f32 0) (f32 1) pixels = int n"
    using n(2) by (simp add: screen_coord_def fclamp_def fround_1 n(1) f Let_def fp_as_i32_def
        rat_trunc_def flip: n_def)
  then show ?thesis by (simp add: n_def)
qed

text \<open>An operation that only sends messages with a given property.\<close>

definition sends :: "(Message \<Rightarrow> bool) \<Rightarrow> 'd VoxApp \<Rightarrow> 'd VoxApp \<Rightarrow> bool" where
  "sends P self self' \<longleftrightarrow>
     (\<exists>ms. app_tx self' = map_option (\<lambda>q. q @ ms) (app_tx self) \<and> list_all P ms)"

lemma sends_refl [simp]: "sends P self self"
  unfolding sends_def by (rule exI [of _ "[]"]) (simp add: option.map_ident)

lemma sends_send_if [intro]: "sends P self self' \<Longrightarrow> P m \<Longrightarrow> sends P self (send_if b m self')"
  unfolding sends_def send_if_def
  by (auto simp: option.map_comp comp_def intro!: exI [of _ "_ @ [m]"])

fun on_screen :: "u32 \<times> u32 \<Rightarrow> Message \<Rightarrow> bool" where
  "on_screen (w, h) (Msg_MouseMove x y) \<longleftrightarrow> 0 \<le> x \<and> x \<le> int (unat w) \<and> 0 \<le> y \<and> y \<le> int (unat h)"
| "on_screen (w, h) (Msg_MouseClick b p x y) \<longleftrightarrow>
     0 \<le> x \<and> x \<le> int (unat w) \<and> 0 \<le> y \<and> y \<le> int (unat h)"
| "on_screen _ _ \<longleftrightarrow> False"

lemma sends_move_mouse:
  "P (Msg_MouseMove x y) \<Longrightarrow> sends P self (move_mouse hypot x y self)"
  unfolding sends_def move_mouse_def Let_def
  by (auto intro: exI [of _ "[Msg_MouseMove x y]"] exI [of _ "[]"] simp: option.map_ident)

lemma handle_pointer_on_screen:
  assumes "unat (fst (app_screen_size self)) < 2 ^ 24" "unat (snd (app_screen_size self)) < 2 ^ 24"
  shows "sends (on_screen (app_screen_size self)) self (handle_pointer hypot inp self)"
proof -
  obtain w h where wh: "app_screen_size self = (w, h)" by fastforce
  have "on_screen (w, h) (Msg_MouseMove (screen_coord a b c w) (screen_coord a' b' c' h))"
    "on_screen (w, h) (Msg_MouseClick but p (screen_coord a b c w) (screen_coord a' b' c' h))"
    for a b c a' b' c' but p
    using screen_coord_bounds assms by (simp_all add: wh)
  then show ?thesis
    by (auto simp: handle_pointer_def wh Let_def split: option.splits
        intro!: sends_send_if sends_move_mouse)
qed

section \<open>Keys\<close>

text \<open>The key of the server's keyboard that each key of the client stands for, as a table of its own:
  the letters in the order of the alphabet, the digits in theirs, and the keys with a name.\<close>

definition key_table :: "(Key \<times> EnigoKey) list" where
  "key_table =
     zip [Key_A, Key_B, Key_C, Key_D, Key_E, Key_F, Key_G, Key_H, Key_I, Key_J, Key_K, Key_L, Key_M,
          Key_N, Key_O, Key_P, Key_Q, Key_R, Key_S, Key_T, Key_U, Key_V, Key_W, Key_X, Key_Y, Key_Z]
       (map K_Unicode ''abcdefghijklmnopqrstuvwxyz'')
     @ zip [Key_Num0, Key_Num1, Key_Num2, Key_Num3, Key_Num4,
            Key_Num5, Key_Num6, Key_Num7, Key_Num8, Key_Num9]
       (map K_Unicode ''0123456789'')
     @ [(Key_Space, K_Space), (Key_Enter, K_Return), (Key_Escape, K_Escape), (Key_Backspace, K_Backspace),
        (Key_Tab, K_Tab), (Key_ArrowUp, K_UpArrow), (Key_ArrowDown, K_DownArrow),
        (Key_ArrowLeft, K_LeftArrow), (Key_ArrowRight, K_RightArrow)]"

definition key_meant :: "Key \<Rightarrow> EnigoKey option" where
  "key_meant = map_of key_table"

lemma key_meant_eq: "key_meant k = Option.bind (format_key k) enigo_key"
  by (cases k) (simp_all add: key_meant_def key_table_def enigo_key_def)

lemma enigo_key_format: "format_key k = Some s \<Longrightarrow> enigo_key s = key_meant k"
  by (simp add: key_meant_eq)

lemma key_meant_format: "key_meant k = None \<longleftrightarrow> format_key k = None"
  by (cases k) (simp_all add: key_meant_def key_table_def)

lemma app_same_not_connecting:
  "app_same self self' \<Longrightarrow> app_state self \<noteq> Connecting \<Longrightarrow> app_state self' \<noteq> Connecting"
  by (auto simp: app_same_def)

lemma remote_screen_not_connecting:
  assumes "app_state self \<noteq> Connecting"
  shows "app_state (show_remote_screen hypot inp self) \<noteq> Connecting"
proof -
  have "app_state (if ri_disconnect_clicked inp then app_disconnect self else self) \<noteq> Connecting"
    using assms by (simp add: app_disconnect_def)
  then show ?thesis unfolding show_remote_screen_def Let_def
    by (intro app_same_not_connecting [OF handle_keys_same] app_same_not_connecting [OF handle_pointer_same])
      simp
qed

section \<open>Concrete inputs\<close>

text \<open>A decoder that never yields a picture, a user who types a code and connects, and one who
  does nothing.\<close>

definition demo_decoder :: "unit ffmpeg_dec" where
  "demo_decoder =
     \<lparr>fd_init = None, fd_find_h264 = Some ''h264'', fd_video = (\<lambda>_. Inr ()),
      fd_empty_frame = \<lparr>vf_width = 0, vf_height = 0, vf_planes = [], vf_strides = [], vf_pts = None\<rparr>,
      fd_send_packet = (\<lambda>d _. (d, None)), fd_receive_frame = (\<lambda>d. (d, Inl EAGAIN)),
      fd_send_eof = (\<lambda>d. (d, None))\<rparr>"

definition demo_remote :: RemoteInput where
  "demo_remote =
     \<lparr>ri_disconnect_clicked = False, ri_quality_clicked = False,
      ri_available_size = vec2 (f32 1) (f32 1),
      ri_available_rect = \<lparr>rect_min = vec2 (f32 0) (f32 0), rect_max = vec2 (f32 1) (f32 1)\<rparr>,
      ri_hover_pos = None, ri_primary_pressed = False, ri_primary_released = False,
      ri_secondary_pressed = False, ri_secondary_released = False, ri_keys = []\<rparr>"

definition demo_input :: "string option \<Rightarrow> bool \<Rightarrow> UserInput" where
  "demo_input code click =
     \<lparr>ui_form = \<lparr>in_code = code, in_address = None, in_connect_clicked = click\<rparr>,
      ui_remote = demo_remote, ui_menu = \<lparr>mi_clicked = (\<lambda>_. False), mi_close_clicked = False\<rparr>\<rparr>"

definition demo_connecting :: "unit VoxApp" where
  "demo_connecting = app_connect (VoxApp_default\<lparr>app_access_code := ''123456''\<rparr>)"

definition no_zstd :: "bytes \<Rightarrow> string + bytes" where "no_zstd data = Inl ''no frame''"

definition no_hypot :: "f32 \<Rightarrow> f32 \<Rightarrow> f32" where "no_hypot x y = f32 0"

lemma demo_connects:
  "app_update no_zstd demo_decoder no_hypot (\<lambda>_. 0) (demo_input (Some ''12 34x56'') True) VoxApp_default
   = Inr demo_connecting"
  by (simp add: app_update_def poll_state_def process_incoming_def VoxApp_default_def demo_input_def
      show_connection_ui_def clean_code_def is_ascii_digit_def connect_enabled_def str_len_def
      char_bytes_def demo_connecting_def app_connect_def)

section \<open>Properties\<close>

text \<open>C23: The client starts a connection only with an access code the server could have issued: in
  every execution, an update that begins to connect leaves exactly six decimal digits in the code
  field, whatever was typed or pasted into it.\<close>

theorem connecting_needs_six_digits:
  assumes "app_trace decode_all ff hypot tr self"
    and "app_update decode_all ff hypot clock inp self = Inr self'"
    and "app_state self \<noteq> Connecting" "app_state self' = Connecting"
  shows "length (app_access_code self') = 6 \<and> list_all is_ascii_digit (app_access_code self')"
proof -
  have inv: "app_inv tr self" using assms(1) by (rule app_trace_inv)
  from assms(2) obtain self1 where
    1: "process_incoming decode_all ff clock (poll_state self) = Inr self1"
    and 2: "(case app_state self1 of
         Connected \<Rightarrow>
           Inr (show_quality_menu (ui_menu inp) (show_remote_screen hypot (ui_remote inp) self1))
       | _ \<Rightarrow> Inr (show_connection_ui (ui_form inp) self1)) = (Inr self' :: 'a VoxApp result)"
    unfolding app_update_def try_bind_Inr_iff by blast
  have s1: "app_state self1 \<noteq> Connecting"
    using poll_state_not_connecting [OF inv assms(3)] process_incoming_same [OF 1]
    by (auto simp: app_same_def)
  have ok: "code_ok (app_access_code self')"
    using app_update_inv [OF inv assms(2)] by (simp add: app_inv_def)
  have "app_state self1 \<noteq> Connected"
    using 2 assms(4) app_same_not_connecting [OF quality_menu_same remote_screen_not_connecting [OF s1]]
    by auto
  then have "self' = show_connection_ui (ui_form inp) self1" using 2 by (cases "app_state self1") auto
  then have "str_len (app_access_code self') = 6"
    using assms(4) s1
    by (auto simp: show_connection_ui_def connect_enabled_def app_connect_def Let_def
        split: if_splits option.splits)
  then show ?thesis using ok str_len_digits [of "app_access_code self'"]
    by (simp add: code_ok_def list_all_iff)
qed

theorem connecting_needs_six_digits_witness:
  "app_update no_zstd demo_decoder no_hypot (\<lambda>_. 0) (demo_input (Some ''12 34x56'') True) VoxApp_default
     = Inr demo_connecting
   \<and> length (app_access_code demo_connecting) = 6
   \<and> list_all is_ascii_digit (app_access_code demo_connecting)"
  using connecting_needs_six_digits [OF app_trace.start demo_connects] demo_connects
  by (simp add: VoxApp_default_def demo_connecting_def app_connect_def)

text \<open>C22: The remote screen is shown only after a handshake that succeeded: in every execution, under
  every order of frames, reports and messages, the application is in the state \<open>Connected\<close> only if
  a connection thread whose \<open>connect\<close> returned \<open>Ok\<close> has reported.\<close>

theorem connected_only_after_handshake:
  assumes "app_trace decode_all ff hypot tr self" "app_state self = Connected"
  shows "\<exists>queued s. AE_Report (Inr queued) s \<in> set tr"
  using app_trace_inv [OF assms(1)] assms(2) by (simp add: app_inv_def handshake_done_def)

theorem connected_only_after_handshake_witness:
  "\<exists>tr self. app_trace no_zstd demo_decoder no_hypot tr self \<and> app_state self = Connected
     \<and> (\<exists>queued s. AE_Report (Inr queued) s \<in> set tr)"
proof -
  let ?T = "app_trace no_zstd demo_decoder no_hypot"
  let ?q = "demo_connecting\<lparr>app_state_rx := map_option (\<lambda>q. q @ [Connected]) (app_state_rx demo_connecting)\<rparr>"
  have "?T [AE_Update] demo_connecting" using app_trace.update [OF app_trace.start demo_connects] by simp
  then have "?T ([AE_Update] @ [AE_Report (Inr []) Connected]) ?q"
    by (rule app_trace.report [where incoming = "[]"]) simp
  moreover have "app_update no_zstd demo_decoder no_hypot (\<lambda>_. 0) (demo_input None False) ?q
      = Inr (demo_connecting\<lparr>app_state := Connected\<rparr>)"
    by (simp add: app_update_def poll_state_def process_incoming_def demo_connecting_def app_connect_def
        VoxApp_default_def demo_input_def demo_remote_def show_remote_screen_def handle_pointer_def
        show_quality_menu_def)
  ultimately have "?T (([AE_Update] @ [AE_Report (Inr []) Connected]) @ [AE_Update])
      (demo_connecting\<lparr>app_state := Connected\<rparr>)"
    by (rule app_trace.update)
  moreover from this have "\<exists>queued s. AE_Report (Inr queued) s
      \<in> set (([AE_Update] @ [AE_Report (Inr []) Connected]) @ [AE_Update])"
    by (rule connected_only_after_handshake) simp
  moreover have "app_state (demo_connecting\<lparr>app_state := Connected\<rparr>) = Connected" by simp
  ultimately show ?thesis by blast
qed

text \<open>C24: Whatever the layout of the window and wherever the pointer is, the mouse events the client
  sends lie on the remote screen, edges included: coordinates from 0 to the width and the height,
  computed in \<open>f32\<close> for screens below \<open>2^24\<close> pixels a side. The bound is attained: at the right
  edge of the picture the coordinate is the width, one past the last pixel.\<close>

theorem pointer_stays_on_screen:
  assumes "unat (fst (app_screen_size self)) < 2 ^ 24" "unat (snd (app_screen_size self)) < 2 ^ 24"
  shows "(\<exists>ms. app_tx (handle_pointer hypot inp self) = map_option (\<lambda>q. q @ ms) (app_tx self)
      \<and> list_all (on_screen (app_screen_size self)) ms)
    \<and> screen_coord (f32 1) (f32 0) (f32 1) (fst (app_screen_size self))
      = int (unat (fst (app_screen_size self)))"
  using handle_pointer_on_screen [OF assms] screen_coord_edge [OF assms(1)] by (simp add: sends_def)

theorem pointer_stays_on_screen_witness:
  "screen_coord (f32 1) (f32 0) (f32 1) 1920 = 1920
   \<and> (\<exists>ms. app_tx (handle_pointer no_hypot demo_remote demo_connecting)
        = map_option (\<lambda>q. q @ ms) (app_tx demo_connecting)
      \<and> list_all (on_screen (1920, 1080)) ms)"
  using pointer_stays_on_screen [of demo_connecting no_hypot demo_remote]
  by (simp add: demo_connecting_def app_connect_def VoxApp_default_def)

text \<open>C25: A key typed at the client is pressed at the server: the message made for it makes the server
  replay exactly one key event, in the same direction, for the key that the table of the two keyboards
  gives (the letter or digit itself, or the named key); keys outside the table send nothing. (The
  modifiers are transmitted and ignored.)\<close>

theorem typed_key_is_replayed:
  assumes "lb_enigo_new L = None" "\<And>c. lb_enigo L c = None"
  shows "case key_message (k, pressed, mods) of
      None \<Rightarrow> key_meant k = None
    | Some msg \<Rightarrow> \<exists>key. key_meant k = Some key
        \<and> handle_message L d msg h sh
          = ((h, sh\<lparr>sh_input := sh_input sh @ [KeyEvent key (if pressed then Press else Release)]\<rparr>),
             Inr Next)"
proof (cases "format_key k")
  case None
  then show ?thesis by (simp add: key_message_def key_meant_format)
next
  case (Some s)
  then obtain key where "key_meant k = Some key" using key_meant_format by fastforce
  then show ?thesis using Some assms enigo_key_format [OF Some]
    by (simp add: key_message_def go_on_def handle_key_event_def replay_def InputHandler_new_def
        key_event_def direction_of_def)
qed

theorem typed_key_is_replayed_witness:
  "key_message (Key_Enter, True, \<lparr>em_alt = False, em_ctrl = False, em_shift = False, em_command = False\<rparr>)
     = Some (Msg_KeyEvent ''Return'' True
         \<lparr>mod_shift = False, mod_ctrl = False, mod_alt = False, mod_meta = False\<rparr>)
   \<and> handle_message (demo_libs []) (demo_draws 0) (Msg_KeyEvent ''Return'' True
         \<lparr>mod_shift = False, mod_ctrl = False, mod_alt = False, mod_meta = False\<rparr>)
       demo_handler (Server_new None)
     = ((demo_handler, (Server_new None)\<lparr>sh_input := [KeyEvent K_Return Press]\<rparr>), Inr Next)"
  using typed_key_is_replayed [of "demo_libs []" Key_Enter "demo_draws 0" demo_handler "Server_new None" True
      "\<lparr>em_alt = False, em_ctrl = False, em_shift = False, em_command = False\<rparr>"]
  by (simp add: demo_libs_def key_message_def key_meant_def key_table_def Server_new_def del: handle_message.simps)

end
