(* ===== verification/Handshake.thy ===== *)
theory Handshake
  imports Client_Connection
begin

text \<open>
  The client's \<open>connect\<close> (\<open>src/client/connection.rs\<close>) against the server's \<open>handle_client\<close>
  (\<open>src/server/server.rs\<close>): the two ends of the handshake put together. First what each end does
  with the other's messages, then the whole exchange.
\<close>

section \<open>The server's end\<close>

lemma chan_send_open:
  "ch_open (sh_chans sh tx) \<Longrightarrow>
   chan_send tx data sh = (sh\<lparr>sh_chans := (sh_chans sh)(tx := (sh_chans sh tx)
      \<lparr>ch_queue := ch_queue (sh_chans sh tx) @ [data]\<rparr>)\<rparr>, Inr ())"
  by (simp add: chan_send_def Let_def)

lemma server_key_exchange:
  assumes "hc_crypto_session h = None" "ch_open (sh_chans sh (hc_conn h))"
    and "Message_deserialize (lb_bincode L) p = Inr (Msg_KeyExchange key)" "length key = 32"
    and "Message_serialize (lb_bincode L) (Msg_KeyExchangeAck (cl_public (lb_crypto L) (dr_secret d))) = Inr ack"
  shows "handle_payload L d p h sh =
    ((h\<lparr>hc_crypto_session := Some \<lparr>cs_cipher = cl_sha256 (lb_crypto L)
          (cl_dh (lb_crypto L) (dr_secret d) key)\<rparr>\<rparr>,
      fst (chan_send (hc_conn h) ack sh)), Inr Next)"
  using assms
  by (simp add: handle_payload_def open_payload_def on_key_exchange_def chan_send_open go_on_def
      KeyExchange_new_def public_key_bytes_def public_key_of_slice_def compute_shared_secret_def Let_def)

lemma server_authenticates:
  assumes "hc_crypto_session h = Some K" "ch_open (sh_chans sh (hc_conn h))"
    and "open_payload L (Some K) p = Inr (Msg_AuthRequest code)"
    and "sh_access_code sh = Some ac"
    and "AccessCode_verify (cl_sha256 (lb_crypto L)) ac (dr_clock d 0) code = Inr True"
    and "SessionToken_generate (dr_alnum d) (dr_clock d 1) 24 = Inr tok"
    and "seal_message L (dr_nonce d) (Msg_AuthResponse True (Some (tok_token tok))) (Some K) = Inr resp"
  shows "handle_payload L d p h sh =
    ((h\<lparr>hc_session_id := Some (dr_uuid d)\<rparr>,
      fst (chan_send (hc_conn h) resp
        (sh\<lparr>sh_sessions := (sh_sessions sh)(dr_uuid d \<mapsto> new_session d tok K (hc_conn h))\<rparr>))), Inr Next)"
  using assms
  by (simp add: handle_payload_def auth_defs handle_auth_def open_session_def
      send_encrypted_def chan_send_open go_on_def)

text \<open>A buffer that holds one frame: the inner loop handles it and waits.\<close>

lemma drain_one:
  assumes "hc_buffer h = []" "fits_u32 p"
    and "handle_payload L (env (hc_msgs h)) p (h\<lparr>hc_msgs := Suc (hc_msgs h)\<rparr>) sh = ((h', sh'), Inr Next)"
  shows "drain_buffer L env (h\<lparr>hc_buffer := frame_of p\<rparr>) sh = ((h', sh'), Inr ())"
proof -
  have nf: "next_frame (frame_of p) = Some (p, [])" using tcp.nx_encode [OF assms(2), of "[]"] by simp
  have "h\<lparr>hc_buffer := [], hc_msgs := Suc (hc_msgs h)\<rparr> = h\<lparr>hc_msgs := Suc (hc_msgs h)\<rparr>"
    using assms(1) by (cases h) simp
  then have step: "buffer_step L env (h\<lparr>hc_buffer := frame_of p\<rparr>) sh = Some ((h', sh'), Inr Next)"
    using assms(3) nf by (simp add: buffer_step_def)
  have "hc_buffer h' = []"
    using handle_payload_frame [OF assms(3)] assms(1) by (simp add: handler_frame_def)
  then have "drain_buffer L env h' sh' = ((h', sh'), Inr ())" by (intro drain_buffer_idle) simp
  then show ?thesis by (subst drain_buffer.simps) (simp add: step)
qed

section \<open>The client's end\<close>

lemma client_exchanges_keys:
  assumes "wr_limit w = None" "fits_u32 ack"
    and "Message_serialize (lb_bincode L) (Msg_KeyExchange (cl_public (lb_crypto L) secret)) = Inr p"
    and "Message_deserialize (lb_bincode L) ack = Inr (Msg_KeyExchangeAck key)" "length key = 32"
  shows "exchange_keys L secret (cn, frame_of ack @ rest, w) =
    ((cn\<lparr>cn_crypto := Some \<lparr>cs_cipher = cl_sha256 (lb_crypto L) (cl_dh (lb_crypto L) secret key)\<rparr>\<rparr>,
      rest, w\<lparr>wr_written := wr_written w @ frame_of p\<rparr>),
     Inr \<lparr>cs_cipher = cl_sha256 (lb_crypto L) (cl_dh (lb_crypto L) secret key)\<rparr>)"
  using assms
  by (simp add: exchange_keys_def send_raw_message_def read_raw_message_def send_message_ok
      receive_message_frame_of expect_ack_def KeyExchange_new_def public_key_bytes_def
      public_key_of_slice_def compute_shared_secret_def Let_def)

lemma client_sends_sealed:
  assumes "wr_limit w = None" "seal_message L nonce m (Some K) = Inr p"
  shows "send_encrypted_message L nonce m K (cn, stream, w) =
    ((cn, stream, w\<lparr>wr_written := wr_written w @ frame_of p\<rparr>), Inr ())"
  using assms by (auto simp: send_encrypted_message_def seal_message_def try_bind_Inr_iff send_message_ok)

lemma client_reads_sealed:
  assumes "fits_u32 p" "open_payload L (Some K) p = Inr m"
  shows "read_encrypted_message L K (cn, frame_of p @ rest, w) = ((cn, rest, w), Inr m)"
  using assms by (simp add: read_encrypted_message_def receive_message_frame_of open_payload_def)

section \<open>Both ends\<close>

text \<open>The key both ends derive from the client's and the server's secret.\<close>

definition agreed_key :: "libs \<Rightarrow> bytes \<Rightarrow> bytes \<Rightarrow> CryptoSession" where
  "agreed_key L a b =
     \<lparr>cs_cipher = cl_sha256 (lb_crypto L) (cl_dh (lb_crypto L) a (cl_public (lb_crypto L) b))\<rparr>"

lemma agreed_key_commutes:
  "dh_commutes (lb_crypto L) \<Longrightarrow> agreed_key L a b = agreed_key L b a"
  by (metis agreed_key_def dh_commutes_def)

text \<open>The messages of one handshake serialize, fit in a frame and are sealed under fresh nonces.\<close>

definition handshake_packets ::
  "libs \<Rightarrow> (nat \<Rightarrow> draws) \<Rightarrow> bytes \<Rightarrow> bytes \<Rightarrow> string \<Rightarrow> SessionToken \<Rightarrow>
   bytes \<Rightarrow> bytes \<Rightarrow> bytes \<Rightarrow> bytes \<Rightarrow> bool" where
  "handshake_packets L env secret nonce code tok hello ack login grant \<longleftrightarrow>
     (let lib = lb_crypto L; K = agreed_key L secret (dr_secret (env 0))
      in Message_serialize (lb_bincode L) (Msg_KeyExchange (cl_public lib secret)) = Inr hello
         \<and> Message_serialize (lb_bincode L) (Msg_KeyExchangeAck (cl_public lib (dr_secret (env 0)))) = Inr ack
         \<and> seal_message L nonce (Msg_AuthRequest code) (Some K) = Inr login
         \<and> seal_message L (dr_nonce (env 1)) (Msg_AuthResponse True (Some (tok_token tok))) (Some K) = Inr grant
         \<and> length nonce = 12 \<and> length (dr_nonce (env 1)) = 12
         \<and> list_all fits_u32 [hello, ack, login, grant])"

lemma server_side:
  assumes "codec_correct (lb_bincode L)" "aead_correct (lb_crypto L)" "dh_commutes (lb_crypto L)"
    "public_keys_ok (lb_crypto L)"
    and pk: "handshake_packets L env secret nonce code tok hello ack login grant"
    and "sh_access_code sh = Some ac"
    and "AccessCode_verify (cl_sha256 (lb_crypto L)) ac (dr_clock (env 1) 0) code = Inr True"
    and "SessionToken_generate (dr_alnum (env 1)) (dr_clock (env 1) 1) 24 = Inr tok"
  shows "\<exists>sh'. handle_client L env c [Data (frame_of hello), Data (frame_of login)] sh = (sh', None)
    \<and> sh_sessions sh' = (sh_sessions sh)(dr_uuid (env 1) \<mapsto>
          new_session (env 1) tok (agreed_key L secret (dr_secret (env 0))) c)
    \<and> ch_queue (sh_chans sh' c) = [ack, grant]"
proof -
  let ?lib = "lb_crypto L" and ?K = "agreed_key L secret (dr_secret (env 0))"
  have K: "\<lparr>cs_cipher = cl_sha256 ?lib (cl_dh ?lib (dr_secret (env 0)) (cl_public ?lib secret))\<rparr> = ?K"
    using agreed_key_commutes [OF assms(3), of "dr_secret (env 0)" secret] by (simp add: agreed_key_def)
  obtain h0 sh0 where acc: "accept_client c sh = (h0, sh0)" by fastforce
  then have h0: "hc_buffer h0 = []" "hc_crypto_session h0 = None" "hc_conn h0 = c" "hc_msgs h0 = 0"
    and sh0: "sh_chans sh0 c = \<lparr>ch_queue = [], ch_open = True\<rparr>" "sh_sessions sh0 = sh_sessions sh"
      "sh_access_code sh0 = Some ac"
    using assms(6) by (auto simp: accept_client_def)
  let ?h1 = "h0\<lparr>hc_msgs := 1, hc_crypto_session := Some ?K\<rparr>" and ?sh1 = "fst (chan_send c ack sh0)"
  have len: "length (cl_public ?lib secret) = 32" using assms(4) by (simp add: public_keys_ok_def)
  have "handle_payload L (env 0) hello (h0\<lparr>hc_msgs := 1\<rparr>) sh0 = ((?h1, ?sh1), Inr Next)"
    using server_key_exchange [of "h0\<lparr>hc_msgs := 1\<rparr>" sh0 L hello "cl_public ?lib secret" "env 0" ack]
      pk h0 sh0 len deserialize_serialize [OF assms(1)]
    by (simp add: handshake_packets_def Let_def K)
  then have d1: "drain_buffer L env (h0\<lparr>hc_buffer := frame_of hello\<rparr>) sh0 = ((?h1, ?sh1), Inr ())"
    using drain_one [of h0 hello L env sh0 ?h1 ?sh1] h0 pk by (simp add: handshake_packets_def Let_def)
  have sh1: "?sh1 = sh0\<lparr>sh_chans := (sh_chans sh0)(c := \<lparr>ch_queue = [ack], ch_open = True\<rparr>)\<rparr>"
    using sh0 by (simp add: chan_send_open)
  let ?h2 = "?h1\<lparr>hc_msgs := 2, hc_session_id := Some (dr_uuid (env 1))\<rparr>"
    and ?sh2 = "fst (chan_send c grant (?sh1\<lparr>sh_sessions := (sh_sessions ?sh1)
      (dr_uuid (env 1) \<mapsto> new_session (env 1) tok ?K c)\<rparr>))"
  have "open_payload L (Some ?K) login = Inr (Msg_AuthRequest code)"
    using open_sealed [OF assms(1,2)] pk by (auto simp: handshake_packets_def Let_def)
  then have "handle_payload L (env 1) login (?h1\<lparr>hc_msgs := 2\<rparr>) ?sh1 = ((?h2, ?sh2), Inr Next)"
    using server_authenticates [of "?h1\<lparr>hc_msgs := 2\<rparr>" ?K ?sh1 L login code ac "env 1" tok grant]
      pk h0 sh0 assms(7,8) by (simp add: handshake_packets_def Let_def sh1)
  then have d2: "drain_buffer L env (?h1\<lparr>hc_buffer := frame_of login\<rparr>) ?sh1 = ((?h2, ?sh2), Inr ())"
    using drain_one [of ?h1 login L env ?sh1 ?h2 ?sh2] h0 pk
    by (simp add: handshake_packets_def Let_def numeral_2_eq_2)
  have "frame_of p \<noteq> []" for p by (simp add: frame_of_def to_be_bytes_def)
  then have "handle_client L env c [Data (frame_of hello), Data (frame_of login)] sh = (?sh2, None)"
    using d1 d2 h0 by (simp add: handle_client_def acc)
  then show ?thesis using sh0 by (simp add: sh1 chan_send_open)
qed

lemma client_side:
  assumes "codec_correct (lb_bincode L)" "aead_correct (lb_crypto L)" "public_keys_ok (lb_crypto L)"
    and pk: "handshake_packets L env secret nonce code tok hello ack login grant"
    and "wr_limit w = None"
  shows "connect L True secret nonce code (Connection_new, frame_of ack @ frame_of grant, w) =
    ((\<lparr>cn_crypto = Some (agreed_key L secret (dr_secret (env 0))), cn_session_token = Some (tok_token tok)\<rparr>,
      [], w\<lparr>wr_written := wr_written w @ frame_of hello @ frame_of login\<rparr>), Inr [Msg_StartStream])"
proof -
  let ?lib = "lb_crypto L" and ?K = "agreed_key L secret (dr_secret (env 0))"
  have len: "length (cl_public ?lib (dr_secret (env 0))) = 32"
    using assms(3) by (simp add: public_keys_ok_def)
  have kx: "exchange_keys L secret (Connection_new, frame_of ack @ frame_of grant, w) =
    ((Connection_new\<lparr>cn_crypto := Some ?K\<rparr>, frame_of grant,
      w\<lparr>wr_written := wr_written w @ frame_of hello\<rparr>), Inr ?K)"
    using client_exchanges_keys [of w ack L secret hello "cl_public ?lib (dr_secret (env 0))"
        Connection_new "frame_of grant"] pk assms(5) len deserialize_serialize [OF assms(1)]
    by (simp add: handshake_packets_def Let_def agreed_key_def)
  have "open_payload L (Some ?K) grant = Inr (Msg_AuthResponse True (Some (tok_token tok)))"
    using open_sealed [OF assms(1,2)] pk by (auto simp: handshake_packets_def Let_def)
  then have "read_encrypted_message L ?K (cn, frame_of grant, w')
      = ((cn, [], w'), Inr (Msg_AuthResponse True (Some (tok_token tok))))" for cn w'
    using client_reads_sealed [of grant L ?K _ cn "[]" w'] pk by (simp add: handshake_packets_def Let_def)
  then show ?thesis
    using pk assms(5) by (simp add: connect_def kx [unfolded Connection_new_def] client_sends_sealed handshake_packets_def Let_def
        expect_auth_def Connection_new_def)
qed

section \<open>Properties\<close>

text \<open>C2: Client and server understand each other: if the code is right and not expired, the server's
  task, given the two messages the client sends, opens a session for that connection and answers
  with two packets; the client's \<open>connect\<close>, given these two packets, sends exactly the two
  messages, returns \<open>Ok\<close> with \<open>StartStream\<close> queued and the server's token, and both ends hold the
  same key.\<close>

theorem handshake_succeeds:
  assumes "codec_correct (lb_bincode L)" "aead_correct (lb_crypto L)" "dh_commutes (lb_crypto L)"
    and "public_keys_ok (lb_crypto L)"
    and "handshake_packets L env secret nonce code tok hello ack login grant"
    and "sh_access_code sh = Some ac"
    and "AccessCode_verify (cl_sha256 (lb_crypto L)) ac (dr_clock (env 1) 0) code = Inr True"
    and "SessionToken_generate (dr_alnum (env 1)) (dr_clock (env 1) 1) 24 = Inr tok"
    and "wr_limit w = None" "wr_written w = []"
  shows "\<exists>K sh' cn w'.
      handle_client L env c [Data (frame_of hello), Data (frame_of login)] sh = (sh', None)
    \<and> sh_sessions sh' = (sh_sessions sh)(dr_uuid (env 1) \<mapsto> new_session (env 1) tok K c)
    \<and> ch_queue (sh_chans sh' c) = [ack, grant]
    \<and> connect L True secret nonce code (Connection_new, frame_of ack @ frame_of grant, w)
        = ((cn, [], w'), Inr [Msg_StartStream])
    \<and> wr_written w' = frame_of hello @ frame_of login
    \<and> cn_crypto cn = Some K \<and> cn_session_token cn = Some (tok_token tok)"
  using server_side [OF assms(1-8), of c] client_side [OF assms(1,2,4,5,9)] assms(10) by fastforce

theorem handshake_succeeds_witness:
  "\<exists>L env secret nonce code (tok :: SessionToken) hello ack login grant sh sh' cn w'.
      handle_client L env 0 [Data (frame_of hello), Data (frame_of login)] sh = (sh', None)
    \<and> ch_queue (sh_chans sh' 0) = [ack, grant]
    \<and> connect L True secret nonce code
          (Connection_new, frame_of ack @ frame_of grant, \<lparr>wr_written = [], wr_limit = None\<rparr>)
        = ((cn, [], w'), Inr [Msg_StartStream])
    \<and> cn_session_token cn = Some (tok_token tok)"
proof -
  let ?lib = demo_lib and ?n = "replicate 12 0 :: bytes" and ?env = "\<lambda>_ :: nat. demo_draws 0"
  obtain tok where tok: "SessionToken_generate (\<lambda>_. 65) 0 24 = Inr tok"
    by (simp add: SessionToken_generate_def unix_secs_def unix_duration_def)
  define ms where "ms = [Msg_KeyExchange (cl_public ?lib [2]), Msg_KeyExchangeAck (cl_public ?lib [1]),
      Msg_AuthRequest ''42'', Msg_AuthResponse True (Some (tok_token tok))]"
  let ?L = "demo_libs ms" and ?w = "\<lparr>wr_written = [], wr_limit = None\<rparr>"
  let ?K = "agreed_key ?L [2] [1]"
  let ?ac = "\<lparr>ac_code = ''42'', ac_hashed = hash_code (cl_sha256 ?lib) ''42'', ac_created_at = 0,
      ac_expires_at = 300\<rparr>"
  have lens: "length (cs_cipher ?K) = 32" by (simp add: agreed_key_def demo_libs_def demo_lib_def)
  have pk: "handshake_packets ?L ?env [2] ?n ''42'' tok [0] [1]
      (?n @ 2 # cs_cipher ?K) (?n @ 3 # cs_cipher ?K)"
    using lens by (simp add: handshake_packets_def Let_def demo_draws_def demo_libs_def ms_def
        Message_serialize_def table_bincode_def seal_message_def encrypt_def demo_lib_def fits_u32_def
        agreed_key_def)
  have laws: "codec_correct (lb_bincode ?L)" "aead_correct (lb_crypto ?L)" "dh_commutes (lb_crypto ?L)"
    "public_keys_ok (lb_crypto ?L)"
    by (simp_all add: demo_libs_def table_bincode_correct demo_lib_ok)
  have ok: "AccessCode_verify (cl_sha256 (lb_crypto ?L)) ?ac (dr_clock (?env 1) 0) ''42'' = Inr True"
    by (simp add: AccessCode_verify_def demo_libs_def demo_draws_def unix_secs_def unix_duration_def)
  have t: "SessionToken_generate (dr_alnum (?env 1)) (dr_clock (?env 1) 1) 24 = Inr tok"
    using tok by (simp add: demo_draws_def)
  have "sh_access_code (Server_new (Some ?ac)) = Some ?ac" by (simp add: Server_new_def)
  from handshake_succeeds [OF laws pk this ok t, of ?w 0] show ?thesis by simp blast
qed

end
