(* ===== verification/Video_Toolbox.thy ===== *)
theory Video_Toolbox
  imports Encoder Auth
begin

text \<open>
  \<open>src/platform/macos/video_toolbox.rs\<close>: the encoder on Apple's VideoToolbox. The three frameworks
  it calls are the record \<open>video_toolbox\<close>: \<open>'s\<close> is the state of a compression session, a null
  pointer is \<open>None\<close>, a status is an \<open>int\<close> (\<open>0\<close> for success). The framework calls back with the
  encoded data; \<open>vt_callbacks\<close> are the calls that have happened when the code reads the buffer they
  fill, 10 ms after the frame (later ones are cleared before the next frame). The reference handed
  to the callback is the encoder itself, never null.
\<close>

section \<open>The frameworks\<close>

record CMTime =
  tm_value :: int
  tm_timescale :: int
  tm_flags :: u32
  tm_epoch :: int

datatype vt_value = VBool bool | VString string | VNumber int

record PixelBuffer =
  pb_width :: nat
  pb_height :: nat
  pb_format :: u32
  pb_bytes_per_row :: nat
  pb_data :: bytes

text \<open>A sample buffer: its block buffer, if any, with the status and the data pointer that
  \<open>CMBlockBufferGetDataPointer\<close> gives.\<close>

record SampleBuffer =
  sb_data_buffer :: "(int \<times> bytes option) option"

record 's video_toolbox =
  vt_create :: "int \<Rightarrow> int \<Rightarrow> u32 \<Rightarrow> int \<times> 's option"
  vt_set_property :: "'s option \<Rightarrow> string \<Rightarrow> vt_value \<Rightarrow> 's option"
  vt_create_pixel_buffer :: "PixelBuffer \<Rightarrow> int"
  vt_encode :: "'s \<Rightarrow> PixelBuffer \<Rightarrow> CMTime \<Rightarrow> CMTime \<Rightarrow> (string \<times> vt_value) list option \<Rightarrow> 's \<times> int"
  vt_complete :: "'s \<Rightarrow> CMTime \<Rightarrow> 's"
  vt_callbacks :: "'s \<Rightarrow> 's \<times> (int \<times> SampleBuffer option) list"

definition K_CMVIDEO_CODEC_TYPE_H264 :: u32 where "K_CMVIDEO_CODEC_TYPE_H264 = 0x61766331"
definition K_CVPIXEL_FORMAT_TYPE_32_BGRA :: u32 where "K_CVPIXEL_FORMAT_TYPE_32_BGRA = 0x42475241"

section \<open>Helpers\<close>

definition int_to_string :: "int \<Rightarrow> string" where
  "int_to_string n = (if n < 0 then ''-'' @ nat_to_string (nat (- n)) else nat_to_string (nat n))"

definition rgb_to_bgra :: "bytes \<Rightarrow> bytes" where
  "rgb_to_bgra rgb = concat (map (\<lambda>chunk. [chunk ! 2, chunk ! 1, chunk ! 0, 255]) (chunks_exact 3 rgb))"

definition create_pixel_buffer_from_bgra ::
  "'s video_toolbox \<Rightarrow> bytes \<Rightarrow> u32 \<Rightarrow> u32 \<Rightarrow> PixelBuffer result" where
  "create_pixel_buffer_from_bgra vt bgra_data width height =
     (let bytes_per_row = unat (width * 4);
          expected_size = bytes_per_row * unat height
      in if length bgra_data \<noteq> expected_size
         then Inl (Anyhow (''Invalid BGRA data size: expected '' @ nat_to_string expected_size
                           @ '', got '' @ nat_to_string (length bgra_data)))
         else let pixel_buffer =
                    \<lparr>pb_width = unat width, pb_height = unat height,
                     pb_format = K_CVPIXEL_FORMAT_TYPE_32_BGRA, pb_bytes_per_row = bytes_per_row,
                     pb_data = bgra_data\<rparr>;
                  status = vt_create_pixel_buffer vt pixel_buffer
              in if status \<noteq> 0
                 then Inl (Anyhow (''Failed to create CVPixelBuffer: '' @ int_to_string status))
                 else Inr pixel_buffer)"

text \<open>\<open>configure_session\<close>: the six properties, their statuses ignored. \<open>fps as i32 * 2\<close> wraps.\<close>

definition session_properties :: "u32 \<Rightarrow> u32 \<Rightarrow> (string \<times> vt_value) list" where
  "session_properties bitrate fps =
     [(''RealTime'', VBool True),
      (''ProfileLevel'', VString ''H264_Baseline_AutoLevel''),
      (''AverageBitRate'', VNumber (sint bitrate)),
      (''ExpectedFrameRate'', VNumber (sint fps)),
      (''MaxKeyFrameInterval'', VNumber (sint (fps * 2))),
      (''AllowFrameReordering'', VBool False)]"

definition configure_session ::
  "'s video_toolbox \<Rightarrow> 's option \<Rightarrow> u32 \<Rightarrow> u32 \<Rightarrow> 's option result" where
  "configure_session vt session bitrate fps =
     Inr (foldl (\<lambda>s (k, v). vt_set_property vt s k v) session (session_properties bitrate fps))"

definition create_keyframe_properties :: "(string \<times> vt_value) list" where
  "create_keyframe_properties = [(''ForceKeyFrame'', VBool True)]"

definition extract_data_from_sample_buffer :: "SampleBuffer \<Rightarrow> bytes" where
  "extract_data_from_sample_buffer sample_buffer =
     (case sb_data_buffer sample_buffer of
        None \<Rightarrow> []
      | Some (status, data_pointer) \<Rightarrow>
          (case data_pointer of
             Some data \<Rightarrow> if status \<noteq> 0 then [] else data
           | None \<Rightarrow> []))"

text \<open>The callback appends to the encoder's output buffer.\<close>

definition output_callback_trampoline :: "bytes \<Rightarrow> int \<times> SampleBuffer option \<Rightarrow> bytes" where
  "output_callback_trampoline output_buffer call =
     (case call of (status, sample_buffer) \<Rightarrow>
        (case sample_buffer of
           Some sb \<Rightarrow>
             if status = 0
             then let data = extract_data_from_sample_buffer sb
                  in if data \<noteq> [] then output_buffer @ data else output_buffer
             else output_buffer
         | None \<Rightarrow> output_buffer))"

section \<open>The encoder\<close>

record 's VideoToolboxEncoder =
  vte_settings :: EncoderSettings
  vte_session :: "'s option option"
  vte_frame_count :: u64
  vte_output_buffer :: bytes

definition VideoToolboxEncoder_new :: "EncoderSettings \<Rightarrow> 's VideoToolboxEncoder result" where
  "VideoToolboxEncoder_new settings =
     Inr \<lparr>vte_settings = settings, vte_session = None, vte_frame_count = 0, vte_output_buffer = []\<rparr>"

definition create_session ::
  "'s video_toolbox \<Rightarrow> 's VideoToolboxEncoder \<Rightarrow> 's VideoToolboxEncoder \<times> unit result" where
  "create_session vt self =
     (let st = vte_settings self
      in case vt_create vt (sint (es_width st)) (sint (es_height st)) K_CMVIDEO_CODEC_TYPE_H264 of
           (status, session_ptr) \<Rightarrow>
             if status \<noteq> 0
             then (self, Inl (Anyhow (''Failed to create VideoToolbox session: '' @ int_to_string status)))
             else and_then (self, configure_session vt session_ptr (es_bitrate st) (es_fps st))
                    (\<lambda>self session_ptr. (self\<lparr>vte_session := Some session_ptr\<rparr>, Inr ())))"

definition frame_time :: "'s VideoToolboxEncoder \<Rightarrow> int \<Rightarrow> CMTime" where
  "frame_time self value =
     \<lparr>tm_value = value, tm_timescale = sint (es_fps (vte_settings self)), tm_flags = 1, tm_epoch = 0\<rparr>"

text \<open>What \<open>encode_frame\<close> returns once the frame has been handed over: the data the callback has
  collected, or a thousand zero bytes.\<close>

definition collected_frame :: "SystemTime \<Rightarrow> 's VideoToolboxEncoder \<Rightarrow> bool \<Rightarrow> EncodedFrame result" where
  "collected_frame clock self force_keyframe =
     (let encoded_data = vte_output_buffer self;
          interval = (ucast (es_keyframe_interval (vte_settings self)) :: u64)
      in if encoded_data = []
         then try_bind (unix_millis clock) (\<lambda>timestamp.
                Inr \<lparr>ef_data = replicate 1000 0, ef_is_keyframe = force_keyframe,
                     ef_timestamp = timestamp\<rparr>)
         else try_bind (if force_keyframe then Inr True
                        else if interval = 0
                        then Inl (Panicked ''attempt to calculate the remainder with a divisor of zero'')
                        else Inr (vte_frame_count self mod interval = 1)) (\<lambda>is_keyframe.
              try_bind (unix_millis clock) (\<lambda>timestamp.
                Inr \<lparr>ef_data = encoded_data, ef_is_keyframe = is_keyframe,
                     ef_timestamp = timestamp\<rparr>)))"

text \<open>The frame handed to an open session.\<close>

definition encode_with_session ::
  "'s video_toolbox \<Rightarrow> SystemTime \<Rightarrow> 's option \<Rightarrow> 's VideoToolboxEncoder \<Rightarrow> bytes \<Rightarrow> bool \<Rightarrow>
   's VideoToolboxEncoder \<times> EncodedFrame result" where
  "encode_with_session vt clock session_ptr self rgb_data force_keyframe =
     (let bgra_data = rgb_to_bgra rgb_data;
          self1 = self\<lparr>vte_output_buffer := []\<rparr>;
          st = vte_settings self1
      in and_then (self1, create_pixel_buffer_from_bgra vt bgra_data (es_width st) (es_height st))
           (\<lambda>self pixel_buffer.
              let timestamp = frame_time self (sint (vte_frame_count self));
                  duration = frame_time self 1;
                  frame_props = (if force_keyframe then Some create_keyframe_properties else None)
              in case session_ptr of
                   None \<Rightarrow> (self, Inl (Anyhow ''Session pointer is null''))
                 | Some session \<Rightarrow>
                     (case vt_encode vt session pixel_buffer timestamp duration frame_props of
                        (session1, status) \<Rightarrow>
                          if status \<noteq> 0
                          then (self\<lparr>vte_session := Some (Some session1)\<rparr>,
                                Inl (Anyhow (''Failed to encode frame: '' @ int_to_string status)))
                          else (case vt_callbacks vt (vt_complete vt session1 timestamp) of
                                  (session2, calls) \<Rightarrow>
                                    let self2 = self\<lparr>vte_session := Some (Some session2),
                                                     vte_frame_count := vte_frame_count self + 1,
                                                     vte_output_buffer :=
                                                       foldl output_callback_trampoline (vte_output_buffer self) calls\<rparr>
                                    in (self2, collected_frame clock self2 force_keyframe)))))"

definition VideoToolbox_encode_frame ::
  "'s video_toolbox \<Rightarrow> SystemTime \<Rightarrow> 's VideoToolboxEncoder \<Rightarrow> bytes \<Rightarrow> bool \<Rightarrow>
   's VideoToolboxEncoder \<times> EncodedFrame result" where
  "VideoToolbox_encode_frame vt clock self rgb_data force_keyframe =
     and_then (case vte_session self of
                 None \<Rightarrow> create_session vt self
               | Some _ \<Rightarrow> (self, Inr ()))
       (\<lambda>self _.
          and_then (self, ok_or ''VideoToolbox session not initialized'' (vte_session self))
            (\<lambda>self session_ptr. encode_with_session vt clock session_ptr self rgb_data force_keyframe))"

definition VideoToolbox_get_type :: "'s VideoToolboxEncoder \<Rightarrow> EncoderType" where
  "VideoToolbox_get_type self = Hardware"

text \<open>The old session is invalidated and forgotten; it is not released.\<close>

definition VideoToolbox_update_settings ::
  "'s video_toolbox \<Rightarrow> 's VideoToolboxEncoder \<Rightarrow> EncoderSettings \<Rightarrow> 's VideoToolboxEncoder \<times> unit result" where
  "VideoToolbox_update_settings vt self settings =
     create_session vt (self\<lparr>vte_settings := settings, vte_session := None\<rparr>)"

text \<open>\<open>Drop\<close>: the session that is invalidated and released.\<close>

definition VideoToolbox_drop :: "'s VideoToolboxEncoder \<Rightarrow> 's VideoToolboxEncoder \<times> 's option option" where
  "VideoToolbox_drop self = (self\<lparr>vte_session := None\<rparr>, vte_session self)"

section \<open>Lemmas\<close>

lemma length_rgb_to_bgra: "length (rgb_to_bgra rgb) = length rgb div 3 * 4"
  by (simp add: rgb_to_bgra_def length_concat_equal [where n = 4] length_chunks_exact)

lemma create_session_fields:
  "create_session vt self = (self', r) \<Longrightarrow> vte_settings self' = vte_settings self"
  by (auto simp: create_session_def configure_session_def Let_def split: prod.splits if_splits)

lemma create_session_ok:
  "create_session vt self = (self', Inr ()) \<Longrightarrow> vte_session self' \<noteq> None"
  by (auto simp: create_session_def configure_session_def Let_def split: prod.splits if_splits)

lemma collected_frame_timestamp:
  "collected_frame t self f = Inr ef \<Longrightarrow> unix_millis t = Inr (ef_timestamp ef)"
  by (auto simp: collected_frame_def Let_def try_bind_Inr_iff split: if_splits)

lemma encode_with_session_fields:
  assumes "encode_with_session vt t sp self d f = (self', r)"
  shows "vte_settings self' = vte_settings self"
    "r = Inr ef \<Longrightarrow> unix_millis t = Inr (ef_timestamp ef)"
  using assms
  by (auto simp: encode_with_session_def Let_def and_then_def split: sum.splits option.splits
      prod.splits if_splits dest: collected_frame_timestamp)

lemma encode_fields:
  assumes "VideoToolbox_encode_frame vt t self d f = (self', r)"
  shows "vte_settings self' = vte_settings self"
    "r = Inr ef \<Longrightarrow> unix_millis t = Inr (ef_timestamp ef)"
proof -
  obtain self1 u where 1: "(case vte_session self of None \<Rightarrow> create_session vt self | Some _ \<Rightarrow> (self, Inr ()))
      = (self1, u)" by fastforce
  then have s: "vte_settings self1 = vte_settings self"
    by (auto split: option.splits dest: create_session_fields)
  note e = assms [unfolded VideoToolbox_encode_frame_def 1]
  show "vte_settings self' = vte_settings self"
    using e s by (cases u; cases "vte_session self1") (auto dest: encode_with_session_fields(1))
  show "unix_millis t = Inr (ef_timestamp ef)" if "r = Inr ef"
    using e that by (cases u; cases "vte_session self1") (auto dest: encode_with_session_fields(2))
qed

interpretation vte: video_encoder
  "\<lambda>t e d f. Some (VideoToolbox_encode_frame vt t e d f)"
  VideoToolbox_get_type "VideoToolbox_update_settings vt" vte_settings for vt
  by unfold_locales
    (auto simp: VideoToolbox_get_type_def VideoToolbox_update_settings_def
      dest: encode_fields create_session_fields)

text \<open>What the callbacks deliver: the data of the successful ones, in order.\<close>

definition delivered :: "(int \<times> SampleBuffer option) list \<Rightarrow> bytes" where
  "delivered calls = concat (map (\<lambda>(status, sb).
     case sb of Some b \<Rightarrow> if status = 0 then extract_data_from_sample_buffer b else [] | None \<Rightarrow> []) calls)"

lemma callbacks_deliver: "foldl output_callback_trampoline buf calls = buf @ delivered calls"
proof (induction calls arbitrary: buf)
  case (Cons c calls)
  then show ?case
    by (cases c) (auto simp: delivered_def output_callback_trampoline_def Let_def split: option.splits)
qed (simp add: delivered_def)

text \<open>The picture handed to the framework: the pixels of the RGB data in their order, each as blue, green,
  red and an opaque alpha.\<close>

definition opaque_bgra :: "bytes \<Rightarrow> bytes" where
  "opaque_bgra rgb =
     concat (map (\<lambda>k. [rgb ! (3 * k + 2), rgb ! (3 * k + 1), rgb ! (3 * k), 255]) [0..<length rgb div 3])"

lemma rgb_to_bgra_opaque: "rgb_to_bgra rgb = opaque_bgra rgb"
proof -
  have "map (\<lambda>c. [c ! 2, c ! 1, c ! 0, 255]) (chunks_exact 3 rgb)
      = map (\<lambda>k. [rgb ! (3 * k + 2), rgb ! (3 * k + 1), rgb ! (3 * k), 255]) [0..<length rgb div 3]"
  proof (rule nth_equalityI, simp add: length_chunks_exact)
    fix k
    assume "k < length (map (\<lambda>c. [c ! 2, c ! 1, c ! 0, 255]) (chunks_exact 3 rgb))"
    then have "k < length rgb div 3" by (simp add: length_chunks_exact)
    moreover from this have "3 * k + 2 < length rgb" by linarith
    ultimately show "map (\<lambda>c. [c ! 2, c ! 1, c ! 0, 255]) (chunks_exact 3 rgb) ! k
        = map (\<lambda>k. [rgb ! (3 * k + 2), rgb ! (3 * k + 1), rgb ! (3 * k), 255]) [0..<length rgb div 3] ! k"
      by (simp add: length_chunks_exact nth_chunks_exact mult.commute)
  qed
  then show ?thesis unfolding rgb_to_bgra_def opaque_bgra_def by simp
qed

definition expected_buffer :: "EncoderSettings \<Rightarrow> bytes \<Rightarrow> PixelBuffer" where
  "expected_buffer st rgb =
     \<lparr>pb_width = unat (es_width st), pb_height = unat (es_height st), pb_format = K_CVPIXEL_FORMAT_TYPE_32_BGRA,
      pb_bytes_per_row = unat (es_width st) * 4, pb_data = opaque_bgra rgb\<rparr>"

lemma pixel_buffer_ok:
  assumes "length rgb = unat (es_width st) * unat (es_height st) * 3" "unat (es_width st) * 4 < 2 ^ 32"
    and "vt_create_pixel_buffer vt (expected_buffer st rgb) = 0"
  shows "create_pixel_buffer_from_bgra vt (rgb_to_bgra rgb) (es_width st) (es_height st)
    = Inr (expected_buffer st rgb)"
proof -
  have "unat (es_width st * 4) = unat (es_width st) * 4" using assms(2) by (subst unat_mult_small) auto
  moreover have "length (rgb_to_bgra rgb) = unat (es_width st) * 4 * unat (es_height st)"
    using assms(1) by (simp add: length_rgb_to_bgra)
  ultimately show ?thesis
    using assms(3) by (simp add: create_pixel_buffer_from_bgra_def expected_buffer_def rgb_to_bgra_opaque Let_def)
qed

section \<open>Properties\<close>

text \<open>C40: On an open session the VideoToolbox encoder hands the framework exactly the captured pixels of
  a frame of the announced size, as opaque BGRA rows, at the time of its frame count, with the request
  for a key frame exactly when one is forced. When the framework accepts this call, the result is the
  data that the callbacks for this frame have delivered, in order, and nothing left over from earlier
  frames; and when they have delivered nothing in time, a thousand zero bytes that are handed on as an
  encoded frame.\<close>

theorem video_toolbox_returns_delivered_data:
  assumes "vte_session self = Some (Some session)"
    and "length rgb = unat (es_width (vte_settings self)) * unat (es_height (vte_settings self)) * 3"
    and "unat (es_width (vte_settings self)) * 4 < 2 ^ 32" "es_keyframe_interval (vte_settings self) \<noteq> 0"
    and "0 \<le> clock" "vt_create_pixel_buffer vt (expected_buffer (vte_settings self) rgb) = 0"
    and "vt_encode vt session (expected_buffer (vte_settings self) rgb)
           (frame_time self (sint (vte_frame_count self))) (frame_time self 1)
           (if force_keyframe then Some [(''ForceKeyFrame'', VBool True)] else None) = (session1, 0)"
    and "vt_callbacks vt (vt_complete vt session1 (frame_time self (sint (vte_frame_count self))))
           = (session2, calls)"
  shows "\<exists>self' ef. VideoToolbox_encode_frame vt clock self rgb force_keyframe = (self', Inr ef)
    \<and> vte_session self' = Some (Some session2) \<and> vte_frame_count self' = vte_frame_count self + 1
    \<and> ef_data ef = (if delivered calls = [] then replicate 1000 0 else delivered calls)
    \<and> (force_keyframe \<longrightarrow> ef_is_keyframe ef)"
proof -
  let ?self1 = "self\<lparr>vte_session := Some (Some session2), vte_frame_count := vte_frame_count self + 1,
      vte_output_buffer := delivered calls\<rparr>"
  have i: "(ucast (es_keyframe_interval (vte_settings self)) :: u64) \<noteq> 0"
    using assms(4) by (simp add: word_unat_eq_iff unat_ucast_u64)
  then have "\<exists>ef. collected_frame clock ?self1 force_keyframe = Inr ef
      \<and> ef_data ef = (if delivered calls = [] then replicate 1000 0 else delivered calls)
      \<and> (force_keyframe \<longrightarrow> ef_is_keyframe ef)"
    using assms(5) by (simp add: collected_frame_def Let_def unix_millis_def unix_duration_def)
  moreover have "VideoToolbox_encode_frame vt clock self rgb force_keyframe
      = (?self1, collected_frame clock ?self1 force_keyframe)"
    unfolding VideoToolbox_encode_frame_def encode_with_session_def Let_def
    using assms(1,7,8) pixel_buffer_ok [OF assms(2,3,6)]
    by (cases force_keyframe) (simp_all add: callbacks_deliver create_keyframe_properties_def frame_time_def)
  ultimately show ?thesis by auto
qed

text \<open>A framework that takes just this picture of one pixel, as the first key frame, and delivers two
  bytes, for an encoder that still holds the output of an earlier frame.\<close>

definition demo_toolbox :: "bool video_toolbox" where
  "demo_toolbox =
     \<lparr>vt_create = (\<lambda>w h c. (0, Some True)), vt_set_property = (\<lambda>s k v. s),
      vt_create_pixel_buffer = (\<lambda>pb. 0),
      vt_encode = (\<lambda>s pb t d p. if pb_data pb = [3, 2, 1, 255] \<and> pb_bytes_per_row pb = 4
          \<and> tm_value t = 5 \<and> tm_timescale t = 30 \<and> p = Some [(''ForceKeyFrame'', VBool True)] then (True, 0) else (s, 1)),
      vt_complete = (\<lambda>s t. s),
      vt_callbacks = (\<lambda>s. (s, if s then [(0, Some \<lparr>sb_data_buffer = Some (0, Some [7, 8])\<rparr>)] else []))\<rparr>"

definition demo_vte :: "bool VideoToolboxEncoder" where
  "demo_vte =
     \<lparr>vte_settings = \<lparr>es_width = 1, es_height = 1, es_fps = 30, es_bitrate = 1, es_keyframe_interval = 2\<rparr>,
      vte_session = Some (Some False), vte_frame_count = 5, vte_output_buffer = [9]\<rparr>"

theorem video_toolbox_returns_delivered_data_witness:
  "\<exists>self' ef. VideoToolbox_encode_frame demo_toolbox 0 demo_vte [1, 2, 3] True = (self', Inr ef)
    \<and> vte_session self' = Some (Some True) \<and> vte_frame_count self' = 6 \<and> ef_data ef = [7, 8]
    \<and> ef_is_keyframe ef"
proof -
  let ?calls = "[(0, Some \<lparr>sb_data_buffer = Some (0, Some [7, 8])\<rparr>)]"
  have "delivered ?calls = [7, 8]" by (simp add: delivered_def extract_data_from_sample_buffer_def)
  then show ?thesis
    using video_toolbox_returns_delivered_data [of demo_vte False "[1, 2, 3]" 0 demo_toolbox True True True ?calls]
    by (simp add: demo_toolbox_def demo_vte_def expected_buffer_def opaque_bgra_def frame_time_def)
qed

end
