(* ===== verification/Media_Foundation.thy ===== *)
theory Media_Foundation
  imports Screen_Capture Video_Toolbox
begin

text \<open>
  \<open>src/platform/windows/media_foundation.rs\<close>: the encoder on Windows' Media Foundation. The COM
  functions it calls are the record \<open>media_foundation\<close>: \<open>'t\<close> is the state of the transform, a failed
  call gives the text of its error. A media buffer has the room that was asked for and the bytes that
  have been written from its start on: the code writes through a raw pointer, so nothing keeps the
  bytes within the room, and \<open>buffer_intact\<close> says that they are.

  As the file stands it does not compile: \<open>create_encoder\<close> takes a lock on \<open>self.transform\<close>, a plain
  \<open>Option\<close>, to store the transform, and the output buffer is used after it was moved into the
  argument of \<open>ProcessOutput\<close>. The definitions read the one as the store and the other as the use of
  the sample that was passed.
\<close>

unbundle bit_operations_syntax

section \<open>The framework\<close>

datatype mf_value = VGuid string | VU32 u32 | VU64 u64 | VTrue

type_synonym media_type = "(string \<times> mf_value) list"

record MediaBuffer =
  mb_max_length :: nat
  mb_data :: bytes
  mb_current_length :: u32

datatype sample_attribute = SampleTime int | SampleDuration int | CleanPoint u32

record MFSample =
  ms_buffer :: MediaBuffer
  ms_attributes :: "sample_attribute list"

datatype mft_message = BeginStreaming | StartOfStream | EndOfStream | CommandFlush

datatype mf_error = NeedMoreInput | TransformError string

record 't media_foundation =
  mf_startup :: "string option"
  mf_create_transform :: "string + 't"
  mf_create_media_type :: "string option"
  mf_set_type_attribute :: "media_type \<Rightarrow> string \<times> mf_value \<Rightarrow> string option"
  mf_set_input_type :: "'t \<Rightarrow> media_type \<Rightarrow> string + 't"
  mf_set_output_type :: "'t \<Rightarrow> media_type \<Rightarrow> string + 't"
  mf_has_codec_api :: "'t \<Rightarrow> bool"
  mf_set_value :: "'t \<Rightarrow> string \<Rightarrow> mf_value \<Rightarrow> 't"
  mf_process_message :: "'t \<Rightarrow> mft_message \<Rightarrow> 't \<times> string option"
  mf_create_memory_buffer :: "u32 \<Rightarrow> string + nat"
  mf_lock :: "MediaBuffer \<Rightarrow> string option"
  mf_unlock :: "MediaBuffer \<Rightarrow> string option"
  mf_set_current_length :: "MediaBuffer \<Rightarrow> u32 \<Rightarrow> string option"
  mf_create_sample :: "string option"
  mf_add_buffer :: "MediaBuffer \<Rightarrow> string option"
  mf_get_buffer :: "MediaBuffer \<Rightarrow> string option"
  mf_set_sample_attribute :: "MFSample \<Rightarrow> sample_attribute \<Rightarrow> string option"
  mf_process_input :: "'t \<Rightarrow> MFSample \<Rightarrow> 't \<times> string option"
  mf_output_size :: "'t \<Rightarrow> string + u32"
  mf_process_output :: "'t \<Rightarrow> MediaBuffer \<Rightarrow> 't \<times> (mf_error + MediaBuffer)"

text \<open>The operator \<open>?\<close> on a call without and with a result.\<close>

definition com :: "string option \<Rightarrow> unit result" where
  "com status = (case status of Some e \<Rightarrow> Inl (External e) | None \<Rightarrow> Inr ())"

definition com_value :: "string + 'a \<Rightarrow> 'a result" where
  "com_value r = (case r of Inl e \<Rightarrow> Inl (External e) | Inr x \<Rightarrow> Inr x)"

lemma com_simps [simp, result_simps]:
  "com None = Inr ()" "com (Some e) = Inl (External e)"
  "com_value (Inl e) = Inl (External e)" "com_value (Inr x) = Inr x"
  by (simp_all add: com_def com_value_def)

lemma com_ok_iff: "com s = Inr u \<longleftrightarrow> s = None" "com_value r = Inr x \<longleftrightarrow> r = Inr x"
  by (auto simp: com_def com_value_def split: option.splits sum.splits)

text \<open>The bytes of a buffer lie within its room.\<close>

definition buffer_intact :: "MediaBuffer \<Rightarrow> bool" where
  "buffer_intact b \<longleftrightarrow> length (mb_data b) \<le> mb_max_length b"

section \<open>Helper functions\<close>

text \<open>\<open>MFCreateMemoryBuffer\<close> gives an empty buffer.\<close>

definition memory_buffer :: "'t media_foundation \<Rightarrow> u32 \<Rightarrow> MediaBuffer result" where
  "memory_buffer mf max_len = try_bind (com_value (mf_create_memory_buffer mf max_len)) (\<lambda>room.
     Inr \<lparr>mb_max_length = room, mb_data = [], mb_current_length = 0\<rparr>)"

definition set_type_attribute ::
  "'t media_foundation \<Rightarrow> string \<times> mf_value \<Rightarrow> media_type \<Rightarrow> media_type result" where
  "set_type_attribute mf a media_type =
     try_bind (com (mf_set_type_attribute mf media_type a)) (\<lambda>_. Inr (media_type @ [a]))"

text \<open>\<open>MFVideoInterlace_Progressive\<close> is 2.\<close>

definition create_video_type ::
  "'t media_foundation \<Rightarrow> string \<Rightarrow> u32 \<Rightarrow> u32 \<Rightarrow> u32 \<Rightarrow> media_type result" where
  "create_video_type mf subtype width height fps =
     try_bind (com (mf_create_media_type mf)) (\<lambda>_.
       fold_result (set_type_attribute mf)
         [(''MF_MT_MAJOR_TYPE'', VGuid ''MFMediaType_Video''),
          (''MF_MT_SUBTYPE'', VGuid subtype),
          (''MF_MT_FRAME_SIZE'', VU64 (push_bit 32 (ucast width) OR ucast height)),
          (''MF_MT_FRAME_RATE'', VU64 (push_bit 32 (ucast fps) OR 1)),
          (''MF_MT_INTERLACE_MODE'', VU32 2),
          (''MF_MT_PIXEL_ASPECT_RATIO'', VU64 (push_bit 32 1 OR 1))] [])"

text \<open>The buffer once the picture has been copied through its pointer. The products of the sides are
  \<open>u32\<close> products and wrap; the copy has the length of the data.\<close>

definition filled_buffer :: "'t media_foundation \<Rightarrow> bytes \<Rightarrow> u32 \<Rightarrow> u32 \<Rightarrow> MediaBuffer result" where
  "filled_buffer mf rgb_data width height =
     (let bgra_data = concat (map (\<lambda>chunk. [chunk ! 2, chunk ! 1, chunk ! 0, 255]) (chunks_exact 3 rgb_data))
      in try_bind (memory_buffer mf (width * height * 4)) (\<lambda>buffer.
         try_bind (com (mf_lock mf buffer)) (\<lambda>_. Inr (buffer\<lparr>mb_data := bgra_data\<rparr>))))"

definition create_sample_from_rgb ::
  "'t media_foundation \<Rightarrow> bytes \<Rightarrow> u32 \<Rightarrow> u32 \<Rightarrow> MFSample result" where
  "create_sample_from_rgb mf rgb_data width height =
     try_bind (filled_buffer mf rgb_data width height) (\<lambda>buffer.
     try_bind (com (mf_unlock mf buffer)) (\<lambda>_.
       let len = word_of_nat (length (mb_data buffer))
       in try_bind (com (mf_set_current_length mf buffer len)) (\<lambda>_.
          let buffer = buffer\<lparr>mb_current_length := len\<rparr>
          in try_bind (com (mf_create_sample mf)) (\<lambda>_.
             try_bind (com (mf_add_buffer mf buffer)) (\<lambda>_.
               Inr \<lparr>ms_buffer = buffer, ms_attributes = []\<rparr>)))))"

section \<open>The encoder\<close>

record 't MediaFoundationEncoder =
  mfe_settings :: EncoderSettings
  mfe_transform :: "'t option"
  mfe_frame_count :: u64
  mfe_output_buffer :: bytes

text \<open>The two properties for low latency, their statuses ignored (rate control 3 is a constant rate).\<close>

definition set_low_latency :: "'t media_foundation \<Rightarrow> 't \<Rightarrow> 't" where
  "set_low_latency mf transform =
     (if mf_has_codec_api mf transform
      then mf_set_value mf (mf_set_value mf transform ''CODECAPI_AVLowLatencyMode'' VTrue)
             ''CODECAPI_AVEncCommonRateControlMode'' (VU32 3)
      else transform)"

definition process_message :: "'t media_foundation \<Rightarrow> mft_message \<Rightarrow> 't \<Rightarrow> 't result" where
  "process_message mf msg transform =
     (case mf_process_message mf transform msg of
        (transform', status) \<Rightarrow> try_bind (com status) (\<lambda>_. Inr transform'))"

definition configured_transform :: "'t media_foundation \<Rightarrow> EncoderSettings \<Rightarrow> 't result" where
  "configured_transform mf settings =
     (let video_type = (\<lambda>subtype.
            create_video_type mf subtype (es_width settings) (es_height settings) (es_fps settings))
      in try_bind (com_value (mf_create_transform mf)) (\<lambda>transform.
         try_bind (video_type ''MFVideoFormat_RGB32'') (\<lambda>input_type.
         try_bind (com_value (mf_set_input_type mf transform input_type)) (\<lambda>transform.
         try_bind (video_type ''MFVideoFormat_H264'') (\<lambda>output_type.
         try_bind (set_type_attribute mf (''MF_MT_AVG_BITRATE'', VU32 (es_bitrate settings)) output_type)
           (\<lambda>output_type.
         try_bind (com_value (mf_set_output_type mf transform output_type)) (\<lambda>transform.
         try_bind (process_message mf BeginStreaming (set_low_latency mf transform)) (\<lambda>transform.
           process_message mf StartOfStream transform))))))))"

definition MediaFoundation_create_encoder ::
  "'t media_foundation \<Rightarrow> 't MediaFoundationEncoder \<Rightarrow> 't MediaFoundationEncoder \<times> unit result" where
  "MediaFoundation_create_encoder mf self =
     and_then (self, configured_transform mf (mfe_settings self)) (\<lambda>self transform.
       (self\<lparr>mfe_transform := Some transform\<rparr>, Inr ()))"

definition MediaFoundationEncoder_new ::
  "'t media_foundation \<Rightarrow> EncoderSettings \<Rightarrow> 't MediaFoundationEncoder result" where
  "MediaFoundationEncoder_new mf settings =
     try_bind (com (mf_startup mf)) (\<lambda>_.
       case MediaFoundation_create_encoder mf
              \<lparr>mfe_settings = settings, mfe_transform = None, mfe_frame_count = 0,
               mfe_output_buffer = []\<rparr> of
         (encoder, r) \<Rightarrow> try_bind r (\<lambda>_. Inr encoder))"

text \<open>\<open>Drop\<close>: the transform after the two messages, their statuses ignored.\<close>

definition MediaFoundation_drop ::
  "'t media_foundation \<Rightarrow> 't MediaFoundationEncoder \<Rightarrow> 't MediaFoundationEncoder \<times> 't option" where
  "MediaFoundation_drop mf self =
     (self\<lparr>mfe_transform := None\<rparr>,
      map_option (\<lambda>transform. fst (mf_process_message mf
          (fst (mf_process_message mf transform EndOfStream)) CommandFlush)) (mfe_transform self))"

text \<open>The time stamps of a sample, in units of 100 ns; the rate 0 panics.\<close>

definition sample_times :: "u32 \<Rightarrow> u64 \<Rightarrow> (int \<times> int) result" where
  "sample_times fps frame_count =
     (if fps = 0 then Inl (Panicked ''attempt to divide by zero'')
      else Inr (sint (frame_count * 10000000 div ucast fps), 10000000 div uint fps))"

definition set_sample_attribute ::
  "'t media_foundation \<Rightarrow> sample_attribute \<Rightarrow> MFSample \<Rightarrow> MFSample result" where
  "set_sample_attribute mf a sample =
     try_bind (com (mf_set_sample_attribute mf sample a)) (\<lambda>_.
       Inr (sample\<lparr>ms_attributes := ms_attributes sample @ [a]\<rparr>))"

definition input_sample ::
  "'t media_foundation \<Rightarrow> 't MediaFoundationEncoder \<Rightarrow> bytes \<Rightarrow> bool \<Rightarrow> MFSample result" where
  "input_sample mf self rgb_data force_keyframe =
     (let st = mfe_settings self
      in try_bind (create_sample_from_rgb mf rgb_data (es_width st) (es_height st)) (\<lambda>sample.
         try_bind (sample_times (es_fps st) (mfe_frame_count self)) (\<lambda>(timestamp, duration).
           fold_result (set_sample_attribute mf)
             ([SampleTime timestamp, SampleDuration duration]
              @ (if force_keyframe then [CleanPoint 1] else [])) sample)))"

text \<open>One turn of the output loop, up to the answer of \<open>ProcessOutput\<close>, and the data of a filled
  sample. An error of the other calls ends the loop as any error but \<open>NeedMoreInput\<close> does.\<close>

definition create_output_sample :: "'t media_foundation \<Rightarrow> 't \<Rightarrow> MediaBuffer result" where
  "create_output_sample mf transform =
     try_bind (com_value (mf_output_size mf transform)) (\<lambda>max_len.
     try_bind (memory_buffer mf max_len) (\<lambda>buffer.
     try_bind (com (mf_create_sample mf)) (\<lambda>_.
     try_bind (com (mf_add_buffer mf buffer)) (\<lambda>_. Inr buffer))))"

definition sample_data :: "'t media_foundation \<Rightarrow> MediaBuffer \<Rightarrow> bytes result" where
  "sample_data mf buffer =
     try_bind (com (mf_get_buffer mf buffer)) (\<lambda>_.
     try_bind (com (mf_lock mf buffer)) (\<lambda>_.
       let data = (if mb_current_length buffer > 0
                   then take (unat (mb_current_length buffer)) (mb_data buffer) else [])
       in try_bind (com (mf_unlock mf buffer)) (\<lambda>_. Inr data)))"

text \<open>\<open>None\<close>: end of the output.\<close>

definition next_output :: "'t media_foundation \<Rightarrow> 't \<Rightarrow> 't \<times> bytes option result" where
  "next_output mf transform =
     and_then (transform, create_output_sample mf transform) (\<lambda>transform buffer.
       case mf_process_output mf transform buffer of
         (transform', Inr filled) \<Rightarrow>
           and_then (transform', sample_data mf filled) (\<lambda>t data. (t, Inr (Some data)))
       | (transform', Inl NeedMoreInput) \<Rightarrow> (transform', Inr None)
       | (transform', Inl (TransformError e)) \<Rightarrow> (transform', Inl (External e)))"

text \<open>The loop, which nothing in the code bounds: \<open>None\<close> is a loop that never ends.\<close>

partial_function (option) collect_output ::
  "('t \<Rightarrow> 't \<times> bytes option result) \<Rightarrow> 't \<Rightarrow> bytes \<Rightarrow> ('t \<times> bytes result) option" where
  "collect_output next transform output_buffer =
     (case next transform of
        (transform', Inl e) \<Rightarrow> Some (transform', Inl e)
      | (transform', Inr None) \<Rightarrow> Some (transform', Inr output_buffer)
      | (transform', Inr (Some data)) \<Rightarrow> collect_output next transform' (output_buffer @ data))"

declare collect_output.simps [code]

text \<open>\<open>force_keyframe || frame_count % interval == 1\<close> and the clock, in this order.\<close>

definition finished_frame ::
  "SystemTime \<Rightarrow> 't MediaFoundationEncoder \<Rightarrow> bytes \<Rightarrow> bool \<Rightarrow> EncodedFrame result" where
  "finished_frame clock self data force_keyframe =
     (let interval = (ucast (es_keyframe_interval (mfe_settings self)) :: u64)
      in try_bind (if force_keyframe then Inr True
                   else if interval = 0
                   then Inl (Panicked ''attempt to calculate the remainder with a divisor of zero'')
                   else Inr (mfe_frame_count self mod interval = 1)) (\<lambda>is_keyframe.
         try_bind (unix_millis clock) (\<lambda>timestamp.
           Inr \<lparr>ef_data = data, ef_is_keyframe = is_keyframe, ef_timestamp = timestamp\<rparr>)))"

text \<open>The sample handed to the transform, with the transform's answer.\<close>

definition mf_input ::
  "'t media_foundation \<Rightarrow> 't MediaFoundationEncoder \<Rightarrow> bytes \<Rightarrow> bool \<Rightarrow> ('t \<times> string option) result" where
  "mf_input mf self rgb_data force_keyframe =
     try_bind (ok_or ''Media Foundation encoder not initialized'' (mfe_transform self))
       (\<lambda>transform. try_bind (input_sample mf self rgb_data force_keyframe) (\<lambda>sample.
          Inr (mf_process_input mf transform sample)))"

definition MediaFoundation_encode_frame ::
  "'t media_foundation \<Rightarrow> SystemTime \<Rightarrow> 't MediaFoundationEncoder \<Rightarrow> bytes \<Rightarrow> bool \<Rightarrow>
   ('t MediaFoundationEncoder \<times> EncodedFrame result) option" where
  "MediaFoundation_encode_frame mf clock self rgb_data force_keyframe =
     (case mf_input mf self rgb_data force_keyframe of
        Inl e \<Rightarrow> Some (self, Inl e)
      | Inr (transform, Some e) \<Rightarrow> Some (self\<lparr>mfe_transform := Some transform\<rparr>, Inl (External e))
      | Inr (transform, None) \<Rightarrow>
          map_option (\<lambda>(transform', r).
              and_then (self\<lparr>mfe_transform := Some transform'\<rparr>, r) (\<lambda>self data.
                let self' = self\<lparr>mfe_frame_count := mfe_frame_count self + 1\<rparr>
                in (self', finished_frame clock self' data force_keyframe)))
            (collect_output (next_output mf) transform []))"

definition MediaFoundation_get_type :: "'t MediaFoundationEncoder \<Rightarrow> EncoderType" where
  "MediaFoundation_get_type self = Hardware"

definition MediaFoundation_update_settings ::
  "'t media_foundation \<Rightarrow> 't MediaFoundationEncoder \<Rightarrow> EncoderSettings \<Rightarrow>
   't MediaFoundationEncoder \<times> unit result" where
  "MediaFoundation_update_settings mf self settings =
     MediaFoundation_create_encoder mf (self\<lparr>mfe_settings := settings, mfe_transform := None\<rparr>)"

section \<open>The contract of the trait\<close>

lemma finished_frame_timestamp:
  "finished_frame t self d f = Inr ef \<Longrightarrow> unix_millis t = Inr (ef_timestamp ef)"
  by (auto simp: finished_frame_def Let_def try_bind_Inr_iff split: if_splits)

text \<open>The two ways an encoding ends.\<close>

lemma mf_encode_cases:
  assumes "MediaFoundation_encode_frame mf t self d f = Some (self', r)"
  obtains tr e where "self' = self\<lparr>mfe_transform := tr\<rparr>" "r = Inl e"
  | transform data where
      "self' = self\<lparr>mfe_transform := Some transform, mfe_frame_count := mfe_frame_count self + 1\<rparr>"
      "r = finished_frame t self' data f"
proof (cases "mf_input mf self d f")
  case (Inl e)
  then have "self' = self\<lparr>mfe_transform := mfe_transform self\<rparr>" "r = Inl e"
    using assms by (simp_all add: MediaFoundation_encode_frame_def)
  then show thesis by (rule that(1))
next
  case (Inr p)
  obtain transform m where p: "p = (transform, m)" by (cases p)
  show thesis
  proof (cases m)
    case (Some e)
    then show thesis using that(1) assms Inr p by (auto simp: MediaFoundation_encode_frame_def)
  next
    case None
    then obtain transform' q where "collect_output (next_output mf) transform [] = Some (transform', q)"
      using assms Inr p by (auto simp: MediaFoundation_encode_frame_def)
    then show thesis using that assms Inr p None by (cases q) (auto simp: MediaFoundation_encode_frame_def Let_def)
  qed
qed

lemma mf_encode_fields:
  assumes "MediaFoundation_encode_frame mf t self d f = Some (self', r)"
  shows "mfe_settings self' = mfe_settings self"
    "r = Inr ef \<Longrightarrow> unix_millis t = Inr (ef_timestamp ef)"
  using assms by (auto elim!: mf_encode_cases dest: finished_frame_timestamp sym)

lemma mf_create_encoder_fields:
  "MediaFoundation_create_encoder mf self = (self', r) \<Longrightarrow> mfe_settings self' = mfe_settings self"
  by (auto simp: MediaFoundation_create_encoder_def and_then_def split: sum.splits)

interpretation mfe: video_encoder
  "MediaFoundation_encode_frame mf" MediaFoundation_get_type "MediaFoundation_update_settings mf"
  mfe_settings for mf
  by unfold_locales
    (auto simp: MediaFoundation_get_type_def MediaFoundation_update_settings_def
      dest: mf_encode_fields mf_create_encoder_fields)

section \<open>The copy of the picture\<close>

text \<open>\<open>MFCreateMemoryBuffer\<close>: the buffer has the size that was asked for.\<close>

definition exact_room :: "'t media_foundation \<Rightarrow> bool" where
  "exact_room mf \<longleftrightarrow> (\<forall>n room. mf_create_memory_buffer mf n = Inr room \<longrightarrow> room = unat n)"

lemma filled_buffer_fields:
  assumes "exact_room mf" "filled_buffer mf rgb w h = Inr b"
  shows "mb_data b = rgb_to_bgra rgb" "mb_max_length b = unat w * unat h * 4 mod 2 ^ 32"
proof -
  show "mb_data b = rgb_to_bgra rgb"
    using assms(2) by (auto simp: filled_buffer_def memory_buffer_def rgb_to_bgra_def Let_def try_bind_Inr_iff)
  have "mb_max_length b = unat (w * h * 4)"
    using assms by (auto simp: filled_buffer_def memory_buffer_def exact_room_def Let_def try_bind_Inr_iff
        com_ok_iff)
  then show "mb_max_length b = unat w * unat h * 4 mod 2 ^ 32"
    by (simp add: unat_word_ariths mod_mult_left_eq)
qed

lemma rgb_to_bgra_pixel:
  assumes "k < length rgb div 3"
  shows "subvec (k * 4) (k * 4 + 4) (rgb_to_bgra rgb)
    = [rgb ! (k * 3 + 2), rgb ! (k * 3 + 1), rgb ! (k * 3), 255]"
proof -
  let ?f = "\<lambda>c :: bytes. [c ! 2, c ! 1, c ! 0, 255]"
  have "subvec (k * 4) (k * 4 + 4) (rgb_to_bgra rgb) = ?f (chunks_exact 3 rgb ! k)"
    unfolding rgb_to_bgra_def using assms
    by (intro subvec_concat_equal) (simp_all add: length_chunks_exact)
  moreover have "3 * k + 2 < length rgb" using assms by linarith
  ultimately show ?thesis using assms by (simp add: nth_chunks_exact mult.commute)
qed

lemma captured_bgra_restored:
  assumes "k < length bgra div 4"
  shows "subvec (k * 4) (k * 4 + 4) (rgb_to_bgra (bgra_to_rgb bgra w h))
    = [bgra ! (k * 4), bgra ! (k * 4 + 1), bgra ! (k * 4 + 2), 255]"
proof -
  let ?rgb = "bgra_to_rgb bgra w h"
  have len: "length ?rgb div 3 = length bgra div 4" by (simp add: length_bgra_to_rgb)
  have k: "k * 3 + 3 \<le> length ?rgb" using assms by (simp add: length_bgra_to_rgb)
  have "?rgb ! (k * 3 + i) = [bgra ! (k * 4 + 2), bgra ! (k * 4 + 1), bgra ! (k * 4)] ! i" if "i < 3" for i
    using bgra_to_rgb_pixel [OF assms, of w h] nth_subvec [OF k, of i "k * 3"] that by simp
  from this [of 0] this [of 1] this [of 2] show ?thesis
    using rgb_to_bgra_pixel [of k ?rgb] assms len by simp
qed

text \<open>The packed frame size can be unpacked.\<close>

lemma frame_size_unpacks:
  fixes width height :: u32
  defines "packed \<equiv> push_bit 32 (ucast width) OR ucast height :: u64"
  shows "ucast (drop_bit 32 packed) = width" "ucast packed = height"
proof -
  show "ucast (drop_bit 32 packed) = width" unfolding packed_def
    by (rule bit_word_eqI) (auto simp: bit_simps dest: bit_imp_le_length)
  show "ucast packed = height" unfolding packed_def
    by (rule bit_word_eqI) (auto simp: bit_simps)
qed

section \<open>The output loop\<close>

text \<open>\<open>output_ends next n t\<close>: after at most \<open>n\<close> samples the transform asks for more input or fails.\<close>

fun output_ends :: "('t \<Rightarrow> 't \<times> bytes option result) \<Rightarrow> nat \<Rightarrow> 't \<Rightarrow> bool" where
  "output_ends next 0 t \<longleftrightarrow> (\<nexists>d. snd (next t) = Inr (Some d))"
| "output_ends next (Suc n) t \<longleftrightarrow> (\<nexists>d. snd (next t) = Inr (Some d)) \<or> output_ends next n (fst (next t))"

lemma collect_output_returns:
  "output_ends next n t \<Longrightarrow> \<exists>r. collect_output next t out = Some r"
proof (induction n arbitrary: t out)
  case 0
  then show ?case by (subst collect_output.simps) (auto split: prod.splits sum.splits option.splits)
next
  case (Suc n)
  then show ?case
    by (cases "next t"; subst collect_output.simps) (auto split: sum.splits option.splits)
qed

text \<open>If the transform's output ends after every input, a run of the Media Foundation encoder returns
  and keeps the settings, with a result for every frame unless one of them panics.\<close>

theorem media_foundation_encoding_returns:
  assumes "\<And>t s. \<exists>n. output_ends (next_output mf) n (fst (mf_process_input mf t s))"
  shows "\<exists>e' rs. mfe.encode_run mf e fs = Some (e', rs) \<and> mfe_settings e' = mfe_settings e
    \<and> (list_all (\<lambda>r. \<not> panicked r) rs \<longrightarrow> length rs = length fs)"
proof -
  have "MediaFoundation_encode_frame mf t e d f \<noteq> None" for t e d f
  proof (cases "mf_input mf e d f")
    case (Inr p)
    then obtain n where "output_ends (next_output mf) n (fst p)"
      using assms by (auto simp: mf_input_def try_bind_Inr_iff)
    then obtain r where "collect_output (next_output mf) (fst p) [] = Some r"
      using collect_output_returns [of "next_output mf" n "fst p" "[]"] by blast
    then show ?thesis using Inr by (cases p) (auto simp: MediaFoundation_encode_frame_def split: option.splits)
  qed (simp add: MediaFoundation_encode_frame_def)
  then show ?thesis using mfe.run_returns mfe.run_frame by blast
qed

section \<open>Properties\<close>

text \<open>C39: The Media Foundation encoder copies a picture, four bytes for each pixel, into a buffer whose
  size in bytes is computed from the settings in \<open>u32\<close>, and not from the picture. The copy stays within
  the buffer if and only if the bytes of the picture are at most four times the product of the announced
  sides, taken modulo \<open>2 ^ 32\<close> (so nothing fits into the buffer of a 32768 by 32768 screen). The pixels
  copied are those of the captured screen, opaque.\<close>

theorem media_foundation_copy_in_bounds:
  assumes "exact_room mf" "filled_buffer mf rgb w h = Inr b"
  shows "(buffer_intact b \<longleftrightarrow> length rgb div 3 * 4 \<le> unat w * unat h * 4 mod 2 ^ 32)
    \<and> (\<forall>frame_data cw ch k. rgb = bgra_to_rgb frame_data cw ch \<and> k < length frame_data div 4 \<longrightarrow>
         subvec (k * 4) (k * 4 + 4) (mb_data b)
         = [frame_data ! (k * 4), frame_data ! (k * 4 + 1), frame_data ! (k * 4 + 2), 255])"
  using captured_bgra_restored
  by (auto simp: buffer_intact_def filled_buffer_fields [OF assms] length_rgb_to_bgra)

text \<open>A framework that accepts everything and encodes a frame as its first byte.\<close>

definition demo_mf :: "bytes media_foundation" where
  "demo_mf =
     \<lparr>mf_startup = None, mf_create_transform = Inr [], mf_create_media_type = None,
      mf_set_type_attribute = (\<lambda>t a. None), mf_set_input_type = (\<lambda>t m. Inr t),
      mf_set_output_type = (\<lambda>t m. Inr t), mf_has_codec_api = (\<lambda>t. False), mf_set_value = (\<lambda>t k v. t),
      mf_process_message = (\<lambda>t m. (t, None)), mf_create_memory_buffer = (\<lambda>n. Inr (unat n)),
      mf_lock = (\<lambda>b. None), mf_unlock = (\<lambda>b. None),
      mf_set_current_length = (\<lambda>b n. if unat n \<le> mb_max_length b then None else Some ''E_INVALIDARG''),
      mf_create_sample = None, mf_add_buffer = (\<lambda>b. None), mf_get_buffer = (\<lambda>b. None),
      mf_set_sample_attribute = (\<lambda>s a. None),
      mf_process_input = (\<lambda>t s. (take 1 (mb_data (ms_buffer s)), None)),
      mf_output_size = (\<lambda>t. Inr 8),
      mf_process_output = (\<lambda>t b. if t = [] then (t, Inl NeedMoreInput)
                                  else ([], Inr (b\<lparr>mb_data := t, mb_current_length := 1\<rparr>)))\<rparr>"

text \<open>Settings of one pixel and a picture of two: the copy overruns the buffer.\<close>

theorem media_foundation_copy_in_bounds_witness:
  "\<exists>b. filled_buffer demo_mf (bgra_to_rgb [1, 2, 3, 4, 5, 6, 7, 8] 2 1) 1 1 = Inr b
    \<and> \<not> buffer_intact b \<and> subvec 4 8 (mb_data b) = [5, 6, 7, 255]"
proof -
  let ?rgb = "bgra_to_rgb [1, 2, 3, 4, 5, 6, 7, 8] 2 1"
  obtain b where b: "filled_buffer demo_mf ?rgb 1 1 = Inr b"
    by (simp add: filled_buffer_def memory_buffer_def demo_mf_def Let_def)
  have "exact_room demo_mf" by (simp add: exact_room_def demo_mf_def)
  note c = media_foundation_copy_in_bounds [OF this b]
  have "\<not> buffer_intact b" using c by (simp add: length_bgra_to_rgb)
  moreover have "subvec (1 * 4) (1 * 4 + 4) (mb_data b) = [5, 6, 7, 255]"
    using c [THEN conjunct2, rule_format, of "[1, 2, 3, 4, 5, 6, 7, 8]" 2 1 1] by simp
  ultimately show ?thesis using b by simp
qed

end
