(* ===== verification/Quic_Transport.thy ===== *)
theory Quic_Transport
  imports Framing
begin

text \<open>
  \<open>src/common/transport.rs\<close>: the QUIC transport on the crate quinn. The module is not part of the
  default build. quinn's streams and connections are the record \<open>quinn\<close>, with the types \<open>'s\<close> of a
  send stream, \<open>'r\<close> of a receive stream and \<open>'c\<close> of a connection as parameters. The channel that
  the accepting task of a connection fills is the list of the streams that the peer opens before
  the connection ends. rustls' answers are values of unit types.
\<close>

record ('s, 'r, 'c) quinn =
  qn_write_all :: "'s \<Rightarrow> bytes \<Rightarrow> 's \<times> (string + unit)"
  qn_finish :: "'s \<Rightarrow> 's \<times> (string + unit)"
  qn_read_exact :: "'r \<Rightarrow> nat \<Rightarrow> 'r \<times> (string + bytes)"
  qn_accept_bi :: "'c \<Rightarrow> (string + 's \<times> 'r) list"
  qn_open_bi :: "'c \<Rightarrow> 'c \<times> (string + 's \<times> 'r)"
  qn_send_datagram :: "'c \<Rightarrow> bytes \<Rightarrow> 'c \<times> (string + unit)"
  qn_read_datagram :: "'c \<Rightarrow> 'c \<times> (string + bytes)"
  qn_close :: "'c \<Rightarrow> nat \<Rightarrow> string \<Rightarrow> 'c"
  qn_remote_address :: "'c \<Rightarrow> string"

text \<open>\<open>?\<close> and \<open>.context(msg)\<close> on an answer of the library, next to the state it leaves.\<close>

definition io :: "'a \<times> (string + 'b) \<Rightarrow> 'a \<times> 'b result" where
  "io p = (case p of (s, Inl e) \<Rightarrow> (s, Inl (External e)) | (s, Inr x) \<Rightarrow> (s, Inr x))"

definition with_context :: "string \<Rightarrow> 'a \<times> (string + 'b) \<Rightarrow> 'a \<times> 'b result" where
  "with_context msg p = (case p of (s, Inl e) \<Rightarrow> (s, Inl (Anyhow msg)) | (s, Inr x) \<Rightarrow> (s, Inr x))"

lemma io_simps [simp]: "io (s, Inl e) = (s, Inl (External e))" "io (s, Inr x) = (s, Inr x)"
  by (simp_all add: io_def)

lemma io_ok_iff [simp]: "io p = (s, Inr x) \<longleftrightarrow> p = (s, Inr x)"
  by (auto simp: io_def split: prod.splits sum.splits)

section \<open>Messages on a stream\<close>

text \<open>Unlike the TCP function of the same name it finishes the stream after the message.\<close>

definition quic_send_message :: "('s, 'r, 'c) quinn \<Rightarrow> 's \<Rightarrow> bytes \<Rightarrow> 's \<times> unit result" where
  "quic_send_message q stream data =
     (let len = (word_of_nat (length data) :: u32)
      in and_then (io (qn_write_all q stream (to_be_bytes len))) (\<lambda>stream _.
         and_then (io (qn_write_all q stream data)) (\<lambda>stream _.
         io (qn_finish q stream))))"

definition quic_receive_message :: "('s, 'r, 'c) quinn \<Rightarrow> 'r \<Rightarrow> 'r \<times> bytes result" where
  "quic_receive_message q stream =
     and_then (io (qn_read_exact q stream 4)) (\<lambda>stream len_buf.
       let len = unat (from_be_bytes len_buf)
       in io (qn_read_exact q stream len))"

section \<open>Connections\<close>

record ('s, 'r, 'c) QuicConnection =
  qc_connection :: 'c
  qc_incoming :: "('s \<times> 'r) list"

text \<open>The spawned task: \<open>while let Ok(stream) = accept_bi() { tx.send(stream) }\<close>.\<close>

fun accept_streams :: "(string + 's \<times> 'r) list \<Rightarrow> ('s \<times> 'r) list" where
  "accept_streams (Inr stream # rs) = stream # accept_streams rs"
| "accept_streams _ = []"

definition quic_connection :: "('s, 'r, 'c) quinn \<Rightarrow> 'c \<Rightarrow> ('s, 'r, 'c) QuicConnection" where
  "quic_connection q connection =
     \<lparr>qc_connection = connection, qc_incoming = accept_streams (qn_accept_bi q connection)\<rparr>"

text \<open>\<open>incoming\<close> is the answer of the endpoint (\<open>None\<close>: it is closed) and that of the handshake.\<close>

definition quic_accept ::
  "('s, 'r, 'c) quinn \<Rightarrow> (string + 'c) option \<Rightarrow> ('s, 'r, 'c) QuicConnection result" where
  "quic_accept q incoming =
     try_bind (ok_or ''Failed to accept connection'' incoming) (\<lambda>connecting.
       case connecting of
         Inl e \<Rightarrow> Inl (External e)
       | Inr connection \<Rightarrow> Inr (quic_connection q connection))"

text \<open>\<open>connecting\<close> is the answer of \<open>endpoint.connect\<close>, then that of the handshake.\<close>

definition quic_connect ::
  "('s, 'r, 'c) quinn \<Rightarrow> (string \<Rightarrow> string \<Rightarrow> string + (string + 'c)) \<Rightarrow> string \<Rightarrow> string \<Rightarrow>
   ('s, 'r, 'c) QuicConnection result" where
  "quic_connect q endpoint_connect addr server_name =
     (case endpoint_connect addr server_name of
        Inl e \<Rightarrow> Inl (External e)
      | Inr connecting \<Rightarrow>
          (case connecting of
             Inl e \<Rightarrow> Inl (External e)
           | Inr connection \<Rightarrow> Inr (quic_connection q connection)))"

definition on_connection ::
  "('c \<Rightarrow> 'c \<times> 'a) \<Rightarrow> ('s, 'r, 'c) QuicConnection \<Rightarrow> ('s, 'r, 'c) QuicConnection \<times> 'a" where
  "on_connection f self = (case f (qc_connection self) of (c, x) \<Rightarrow> (self\<lparr>qc_connection := c\<rparr>, x))"

definition open_stream ::
  "('s, 'r, 'c) quinn \<Rightarrow> ('s, 'r, 'c) QuicConnection \<Rightarrow> ('s, 'r, 'c) QuicConnection \<times> ('s \<times> 'r) result" where
  "open_stream q self = with_context ''Failed to open stream'' (on_connection (qn_open_bi q) self)"

definition accept_stream ::
  "('s, 'r, 'c) QuicConnection \<Rightarrow> ('s, 'r, 'c) QuicConnection \<times> ('s \<times> 'r) result" where
  "accept_stream self =
     (case qc_incoming self of
        [] \<Rightarrow> (self, Inl (Anyhow ''Connection closed''))
      | stream # rest \<Rightarrow> (self\<lparr>qc_incoming := rest\<rparr>, Inr stream))"

definition send_datagram ::
  "('s, 'r, 'c) quinn \<Rightarrow> ('s, 'r, 'c) QuicConnection \<Rightarrow> bytes \<Rightarrow>
   ('s, 'r, 'c) QuicConnection \<times> unit result" where
  "send_datagram q self data =
     with_context ''Failed to send datagram'' (on_connection (\<lambda>c. qn_send_datagram q c data) self)"

definition receive_datagram ::
  "('s, 'r, 'c) quinn \<Rightarrow> ('s, 'r, 'c) QuicConnection \<Rightarrow> ('s, 'r, 'c) QuicConnection \<times> bytes result" where
  "receive_datagram q self =
     with_context ''Failed to receive datagram'' (on_connection (qn_read_datagram q) self)"

definition remote_address :: "('s, 'r, 'c) quinn \<Rightarrow> ('s, 'r, 'c) QuicConnection \<Rightarrow> string" where
  "remote_address q self = qn_remote_address q (qc_connection self)"

definition quic_close ::
  "('s, 'r, 'c) quinn \<Rightarrow> ('s, 'r, 'c) QuicConnection \<Rightarrow> ('s, 'r, 'c) QuicConnection" where
  "quic_close q self = self\<lparr>qc_connection := qn_close q (qc_connection self) 0 ''closing''\<rparr>"

section \<open>Configuration\<close>

text \<open>The settings the code changes, durations in nanoseconds.\<close>

record TransportConfig =
  tc_max_idle_timeout :: "nat option"
  tc_keep_alive_interval :: "nat option"
  tc_max_concurrent_bidi_streams :: u32
  tc_max_concurrent_uni_streams :: u32
  tc_receive_window :: u32
  tc_stream_receive_window :: u32
  tc_initial_rtt :: nat

definition transport_config :: "TransportConfig \<Rightarrow> TransportConfig" where
  "transport_config config =
     config\<lparr>tc_max_idle_timeout := Some (30 * 10 ^ 9),
            tc_keep_alive_interval := Some (5 * 10 ^ 9),
            tc_max_concurrent_bidi_streams := 256,
            tc_max_concurrent_uni_streams := 256,
            tc_receive_window := 10 * 1024 * 1024,
            tc_stream_receive_window := 5 * 1024 * 1024,
            tc_initial_rtt := 100 * 10 ^ 6\<rparr>"

text \<open>\<open>SkipServerVerification\<close>: every certificate and every signature is accepted.\<close>

datatype SignatureScheme =
    RSA_PKCS1_SHA256 | RSA_PKCS1_SHA384 | RSA_PKCS1_SHA512
  | RSA_PSS_SHA256 | RSA_PSS_SHA384 | RSA_PSS_SHA512
  | ECDSA_NISTP256_SHA256 | ECDSA_NISTP384_SHA384 | ED25519

definition verify_server_cert ::
  "bytes \<Rightarrow> bytes list \<Rightarrow> string \<Rightarrow> bytes \<Rightarrow> nat \<Rightarrow> unit result" where
  "verify_server_cert end_entity intermediates server_name ocsp_response now = Inr ()"

definition verify_tls12_signature :: "bytes \<Rightarrow> bytes \<Rightarrow> SignatureScheme \<times> bytes \<Rightarrow> unit result" where
  "verify_tls12_signature message cert dss = Inr ()"

definition verify_tls13_signature :: "bytes \<Rightarrow> bytes \<Rightarrow> SignatureScheme \<times> bytes \<Rightarrow> unit result" where
  "verify_tls13_signature message cert dss = Inr ()"

definition supported_verify_schemes :: "SignatureScheme list" where
  "supported_verify_schemes =
     [RSA_PKCS1_SHA256, RSA_PKCS1_SHA384, RSA_PKCS1_SHA512,
      RSA_PSS_SHA256, RSA_PSS_SHA384, RSA_PSS_SHA512,
      ECDSA_NISTP256_SHA256, ECDSA_NISTP384_SHA384, ED25519]"

section \<open>What the code relies on\<close>

text \<open>quinn: a finished stream takes no more data (\<open>WriteError::ClosedStream\<close>).\<close>

definition finish_closes :: "('s, 'r, 'c) quinn \<Rightarrow> bool" where
  "finish_closes q \<longleftrightarrow>
     (\<forall>s s' data. qn_finish q s = (s', Inr ()) \<longrightarrow> data \<noteq> [] \<longrightarrow> (\<exists>e. snd (qn_write_all q s' data) = Inl e))"

lemma quic_send_finishes:
  assumes "quic_send_message q s data = (s', Inr ())"
  shows "\<exists>s0. qn_finish q s0 = (s', Inr ())"
  using assms by (auto simp: quic_send_message_def Let_def and_then_ok_iff)

text \<open>So a stream carries one message in each direction and no second one.\<close>

lemma second_send_fails:
  assumes "finish_closes q" "quic_send_message q s data = (s', Inr ())"
  shows "\<exists>s'' e. quic_send_message q s' data' = (s'', Inl (External e))"
proof -
  obtain s0 where "qn_finish q s0 = (s', Inr ())" using quic_send_finishes [OF assms(2)] by blast
  moreover have "to_be_bytes n \<noteq> []" for n by (simp add: to_be_bytes_def)
  ultimately obtain e where "snd (qn_write_all q s' (to_be_bytes (word_of_nat (length data')))) = Inl e"
    using assms(1) unfolding finish_closes_def by blast
  then show ?thesis
    by (cases "qn_write_all q s' (to_be_bytes (word_of_nat (length data')))")
      (auto simp: quic_send_message_def Let_def)
qed

end
