(* ===== verification/Quic_Server.thy ===== *)
theory Quic_Server
  imports Quic_Transport Server_System
begin

text \<open>
  \<open>src/server/quic_server.rs\<close>: the server on the QUIC transport, like the transport not part of the
  default build. \<open>quic_handle_client\<close> is the task of a connection, over the record \<open>QuicTask\<close> of its
  local variables and the sessions; the handshake is one step because the other tasks meet it only
  through the session table, which it changes once. \<open>handle_control_streams\<close> is one turn of a control
  task, \<open>handle_control_message\<close> the effect of one control message, \<open>quic_step\<close> the interleaving of all
  these tasks with the accept loop of \<open>QuicServer::run\<close>. The frame loop of this file builds a \<open>ScreenFrame\<close> with a field \<open>compressed\<close> that the message type no
  longer has; it is left out.
\<close>

record ('s, 'r, 'c, 'e) QuicSession =
  qs_id :: string
  qs_token :: SessionToken
  qs_connection :: "('s, 'r, 'c) QuicConnection"
  qs_crypto :: CryptoSession
  qs_quality_controller :: AdaptiveQualityController
  qs_encoder :: "'e dyn_encoder"

record ('s, 'r, 'c, 'e) QuicTask =
  qt_connection :: "('s, 'r, 'c) QuicConnection"
  qt_send :: 's
  qt_recv :: 'r
  qt_crypto_session :: "CryptoSession option"
  qt_session_id :: "string option"
  qt_sessions :: "string \<rightharpoonup> ('s, 'r, 'c, 'e) QuicSession"

definition receive_on ::
  "('s, 'r, 'c) quinn \<Rightarrow> ('s, 'r, 'c, 'e) QuicTask \<Rightarrow> ('s, 'r, 'c, 'e) QuicTask \<times> bytes result" where
  "receive_on q t =
     (case quic_receive_message q (qt_recv t) of (recv, r) \<Rightarrow> (t\<lparr>qt_recv := recv\<rparr>, r))"

definition send_on ::
  "('s, 'r, 'c) quinn \<Rightarrow> bytes \<Rightarrow> ('s, 'r, 'c, 'e) QuicTask \<Rightarrow> ('s, 'r, 'c, 'e) QuicTask \<times> unit result" where
  "send_on q data t =
     (case quic_send_message q (qt_send t) data of (send, r) \<Rightarrow> (t\<lparr>qt_send := send\<rparr>, r))"

definition receive_parsed ::
  "('s, 'r, 'c) quinn \<Rightarrow> libs \<Rightarrow> ('s, 'r, 'c, 'e) QuicTask \<Rightarrow> ('s, 'r, 'c, 'e) QuicTask \<times> Message result" where
  "receive_parsed q L t =
     and_then (receive_on q t) (\<lambda>t data. (t, Message_deserialize (lb_bincode L) data))"

section \<open>The handshake\<close>

definition quic_key_exchange ::
  "('s, 'r, 'c) quinn \<Rightarrow> libs \<Rightarrow> draws \<Rightarrow> Message \<Rightarrow> ('s, 'r, 'c, 'e) QuicTask \<Rightarrow>
   ('s, 'r, 'c, 'e) QuicTask \<times> unit result" where
  "quic_key_exchange q L d key_msg t =
     (case key_msg of
        Msg_KeyExchange key_bytes \<Rightarrow>
          (let key_exchange = KeyExchange_new (lb_crypto L) (dr_secret d);
               our_public = public_key_bytes key_exchange
           in and_then (t, Message_serialize (lb_bincode L) (Msg_KeyExchangeAck our_public)) (\<lambda>t data.
              and_then (send_on q data t) (\<lambda>t _.
              and_then (t, public_key_of_slice key_bytes) (\<lambda>t their_public.
              and_then (t, from_shared_secret (lb_crypto L)
                             (compute_shared_secret (lb_crypto L) key_exchange their_public)) (\<lambda>t crypto.
                (t\<lparr>qt_crypto_session := Some crypto\<rparr>, Inr ()))))))
      | _ \<Rightarrow> (t, Inr ()))"

definition quic_handle_auth ::
  "libs \<Rightarrow> SystemTime \<Rightarrow> string \<Rightarrow> AccessCode option \<Rightarrow> AuthResponse result" where
  "quic_handle_auth L clock code access_code =
     try_bind (case access_code of
                 Some stored_code \<Rightarrow> AccessCode_verify (cl_sha256 (lb_crypto L)) stored_code clock code
               | None \<Rightarrow> Inr False) (\<lambda>ok.
       Inr (if ok
            then \<lparr>aresp_success = True, aresp_session_token = None,
                  aresp_message = ''Authentication successful''\<rparr>
            else \<lparr>aresp_success = False, aresp_session_token = None,
                  aresp_message = ''Invalid or expired code''\<rparr>))"

text \<open>\<open>crypto_session.as_ref().unwrap()\<close>\<close>

definition unwrap_crypto :: "('s, 'r, 'c, 'e) QuicTask \<Rightarrow> CryptoSession result" where
  "unwrap_crypto t =
     (case qt_crypto_session t of
        Some crypto \<Rightarrow> Inr crypto
      | None \<Rightarrow> Inl (Panicked ''called `Option::unwrap()` on a `None` value''))"

definition quic_encoder_settings :: EncoderSettings where
  "quic_encoder_settings =
     \<lparr>es_width = 1920, es_height = 1080, es_fps = 30, es_bitrate = 5000000, es_keyframe_interval = 60\<rparr>"

text \<open>From the correct code to the session in the table; the result is the token.\<close>

definition quic_open_session ::
  "libs \<Rightarrow> platform \<Rightarrow> 'e ffmpeg \<Rightarrow> draws \<Rightarrow> ('s, 'r, 'c, 'e) QuicTask \<Rightarrow>
   ('s, 'r, 'c, 'e) QuicTask \<times> SessionToken result" where
  "quic_open_session L os ff d t =
     and_then (t, SessionToken_generate (dr_alnum d) (dr_clock d 1) 24) (\<lambda>t session_token.
       let t = t\<lparr>qt_session_id := Some (dr_uuid d)\<rparr>;
           encoder_type = (if is_hardware_available os ff then Hardware else Software)
       in and_then (t, create_encoder os ff encoder_type quic_encoder_settings) (\<lambda>t encoder.
          and_then (t, unwrap_crypto t) (\<lambda>t crypto.
            let session =
                  \<lparr>qs_id = dr_uuid d, qs_token = session_token, qs_connection = qt_connection t,
                   qs_crypto = crypto,
                   qs_quality_controller = AdaptiveQualityController_new (dr_now d 0) (dr_now d 1),
                   qs_encoder = encoder\<rparr>
            in (t\<lparr>qt_sessions := (qt_sessions t)(dr_uuid d \<mapsto> session)\<rparr>, Inr session_token))))"

definition quic_authenticate ::
  "('s, 'r, 'c) quinn \<Rightarrow> libs \<Rightarrow> platform \<Rightarrow> 'e ffmpeg \<Rightarrow> draws \<Rightarrow> AccessCode option \<Rightarrow> Message \<Rightarrow>
   ('s, 'r, 'c, 'e) QuicTask \<Rightarrow> ('s, 'r, 'c, 'e) QuicTask \<times> unit result" where
  "quic_authenticate q L os ff d access_code auth_msg t =
     (case auth_msg of
        Msg_AuthRequest code \<Rightarrow>
          and_then (t, quic_handle_auth L (dr_clock d 0) code access_code) (\<lambda>t response.
            if aresp_success response
            then and_then (quic_open_session L os ff d t) (\<lambda>t session_token.
                 let auth_resp = Msg_AuthResponse True (Some (tok_token session_token))
                 in and_then (t, unwrap_crypto t) (\<lambda>t crypto.
                    and_then (t, Message_serialize (lb_bincode L) auth_resp) (\<lambda>t data.
                    and_then (t, encrypt (lb_crypto L) crypto (dr_nonce d) data) (\<lambda>t encrypted.
                      send_on q encrypted t))))
            else (t, Inr ()))
      | _ \<Rightarrow> (t, Inr ()))"

text \<open>Key exchange and authentication on the first stream.\<close>

definition quic_handshake ::
  "('s, 'r, 'c) quinn \<Rightarrow> libs \<Rightarrow> platform \<Rightarrow> 'e ffmpeg \<Rightarrow> draws \<Rightarrow> AccessCode option \<Rightarrow>
   ('s, 'r, 'c, 'e) QuicTask \<Rightarrow> ('s, 'r, 'c, 'e) QuicTask \<times> unit result" where
  "quic_handshake q L os ff d access_code t =
     and_then (receive_parsed q L t) (\<lambda>t key_msg.
     and_then (quic_key_exchange q L d key_msg t) (\<lambda>t _.
     and_then (receive_parsed q L t) (\<lambda>t auth_msg.
       quic_authenticate q L os ff d access_code auth_msg t)))"

text \<open>The task. When it returns \<open>Ok\<close>, a control task is spawned for \<open>qt_session_id\<close>, if that is set.\<close>

definition quic_handle_client ::
  "('s, 'r, 'c) quinn \<Rightarrow> libs \<Rightarrow> platform \<Rightarrow> 'e ffmpeg \<Rightarrow> draws \<Rightarrow> AccessCode option \<Rightarrow>
   ('s, 'r, 'c) QuicConnection \<Rightarrow> (string \<rightharpoonup> ('s, 'r, 'c, 'e) QuicSession) \<Rightarrow>
   (string \<rightharpoonup> ('s, 'r, 'c, 'e) QuicSession) \<times> string option result" where
  "quic_handle_client q L os ff d access_code connection sessions =
     (case accept_stream connection of
        (_, Inl e) \<Rightarrow> (sessions, Inl e)
      | (connection, Inr (send, recv)) \<Rightarrow>
          (let t = \<lparr>qt_connection = connection, qt_send = send, qt_recv = recv, qt_crypto_session = None,
                    qt_session_id = None, qt_sessions = sessions\<rparr>
           in case quic_handshake q L os ff d access_code t of
                (t, Inl e) \<Rightarrow> (qt_sessions t, Inl e)
              | (t, Inr _) \<Rightarrow> (qt_sessions t, Inr (qt_session_id t))))"

section \<open>Control messages\<close>

text \<open>One turn of the control task: the stream it accepts, which gets a task of its own, or \<open>None\<close> when
  the session or the connection has ended.\<close>

definition handle_control_streams ::
  "string \<Rightarrow> (string \<rightharpoonup> ('s, 'r, 'c, 'e) QuicSession) \<Rightarrow>
   ((string \<rightharpoonup> ('s, 'r, 'c, 'e) QuicSession) \<times> 'r) option" where
  "handle_control_streams session_id sessions =
     (case sessions session_id of
        None \<Rightarrow> None
      | Some session \<Rightarrow>
          (case accept_stream (qs_connection session) of
             (_, Inl _) \<Rightarrow> None
           | (connection, Inr (_, recv)) \<Rightarrow>
               Some (sessions(session_id \<mapsto> session\<lparr>qs_connection := connection\<rparr>), recv)))"

definition control_settings :: "QualityMode \<Rightarrow> EncoderSettings" where
  "control_settings mode =
     \<lparr>es_width = 1920, es_height = 1080, es_fps = target_fps mode,
      es_bitrate = fp_as_u32 (mul32 (bandwidth_requirement mode) (f32 1000000)),
      es_keyframe_interval = keyframe_interval mode\<rparr>"

definition handle_control_message ::
  "libs \<Rightarrow> string \<Rightarrow> bytes \<Rightarrow> (string \<rightharpoonup> ('s, 'r, 'c, 'e) QuicSession) \<Rightarrow>
   (string \<rightharpoonup> ('s, 'r, 'c, 'e) QuicSession)" where
  "handle_control_message L session_id data sessions =
     (case sessions session_id of
        None \<Rightarrow> sessions
      | Some session \<Rightarrow>
          (case decrypt (lb_crypto L) (qs_crypto session) data of
             Inl _ \<Rightarrow> sessions
           | Inr decrypted \<Rightarrow>
               (case Message_deserialize (lb_bincode L) decrypted of
                  Inl _ \<Rightarrow> sessions
                | Inr message \<Rightarrow>
                    (case message of
                       Msg_RequestQualityChange mode \<Rightarrow>
                         sessions(session_id \<mapsto> session
                           \<lparr>qs_quality_controller := force_quality (qs_quality_controller session) (Some mode),
                            qs_encoder := fst (dyn_update_settings (qs_encoder session)
                                                 (control_settings mode))\<rparr>)
                     | _ \<Rightarrow> sessions))))"

section \<open>The server\<close>

text \<open>The sessions, the running control tasks, and the tasks that wait for a control message.\<close>

record ('s, 'r, 'c, 'e) QuicServer =
  qy_sessions :: "string \<rightharpoonup> ('s, 'r, 'c, 'e) QuicSession"
  qy_controls :: "string set"
  qy_messages :: "(string \<times> 'r) set"

definition QuicServer_new :: "('s, 'r, 'c, 'e) QuicServer" where
  "QuicServer_new = \<lparr>qy_sessions = Map.empty, qy_controls = {}, qy_messages = {}\<rparr>"

datatype quic_event = QE_Client | QE_Stream string | QE_End string | QE_Message string | QE_Lost string

text \<open>\<open>incoming\<close> is what the endpoint answers; a failed accept changes nothing.\<close>

inductive quic_step ::
  "('s, 'r, 'c) quinn \<Rightarrow> libs \<Rightarrow> platform \<Rightarrow> 'e ffmpeg \<Rightarrow> AccessCode option \<Rightarrow>
   ('s, 'r, 'c, 'e) QuicServer \<Rightarrow> quic_event \<Rightarrow> ('s, 'r, 'c, 'e) QuicServer \<Rightarrow> bool"
  for q L os ff access_code where
  client: "quic_accept q incoming = Inr connection \<Longrightarrow>
    quic_handle_client q L os ff d access_code connection (qy_sessions s) = (sessions', r) \<Longrightarrow>
    quic_step q L os ff access_code s QE_Client
      (s\<lparr>qy_sessions := sessions',
         qy_controls := qy_controls s \<union> (case r of Inr (Some i) \<Rightarrow> {i} | _ \<Rightarrow> {})\<rparr>)"
| stream: "i \<in> qy_controls s \<Longrightarrow> handle_control_streams i (qy_sessions s) = Some (sessions', recv) \<Longrightarrow>
    quic_step q L os ff access_code s (QE_Stream i)
      (s\<lparr>qy_sessions := sessions', qy_messages := insert (i, recv) (qy_messages s)\<rparr>)"
| control_end: "i \<in> qy_controls s \<Longrightarrow> handle_control_streams i (qy_sessions s) = None \<Longrightarrow>
    quic_step q L os ff access_code s (QE_End i) (s\<lparr>qy_controls := qy_controls s - {i}\<rparr>)"
| message: "(i, recv) \<in> qy_messages s \<Longrightarrow> quic_receive_message q recv = (recv', Inr data) \<Longrightarrow>
    quic_step q L os ff access_code s (QE_Message i)
      (s\<lparr>qy_sessions := handle_control_message L i data (qy_sessions s),
         qy_messages := qy_messages s - {(i, recv)}\<rparr>)"
| lost: "(i, recv) \<in> qy_messages s \<Longrightarrow> quic_receive_message q recv = (recv', Inl e) \<Longrightarrow>
    quic_step q L os ff access_code s (QE_Lost i) (s\<lparr>qy_messages := qy_messages s - {(i, recv)}\<rparr>)"

section \<open>Lemmas\<close>

lemma quic_handle_auth_eq: "quic_handle_auth = handle_auth"
  by (rule ext)+ (auto simp: quic_handle_auth_def handle_auth_def Let_def try_bind_def
      split: option.split sum.split)

lemma receive_parsed_frame:
  assumes "receive_parsed q L t = (t', r)"
  shows "qt_sessions t' = qt_sessions t" "qt_crypto_session t' = qt_crypto_session t"
    "qt_session_id t' = qt_session_id t" "qt_send t' = qt_send t"
  using assms by (auto simp: receive_parsed_def receive_on_def and_then_def split: prod.splits sum.splits)

lemma send_on_frame:
  assumes "send_on q data t = (t', r)"
  shows "qt_sessions t' = qt_sessions t" "qt_crypto_session t' = qt_crypto_session t"
    "qt_session_id t' = qt_session_id t" "quic_send_message q (qt_send t) data = (qt_send t', r)"
  using assms by (auto simp: send_on_def split: prod.splits)

text \<open>A send stream on which a message has been sent.\<close>

definition used_up :: "('s, 'r, 'c) quinn \<Rightarrow> 's \<Rightarrow> bool" where
  "used_up q s \<longleftrightarrow> (\<exists>s0 data. quic_send_message q s0 data = (s, Inr ()))"

lemma quic_key_exchange_cases:
  assumes "quic_key_exchange q L d m t = (t', r)"
  obtains (same) "t' = t"
  | (failed) data where "send_on q data t = (t', r)" "r \<noteq> Inr ()"
  | (bad_key) data where "send_on q data t = (t', Inr ())" "r \<noteq> Inr ()"
  | (keys) data t1 crypto where "send_on q data t = (t1, Inr ())" "r = Inr ()"
      "t' = t1\<lparr>qt_crypto_session := Some crypto\<rparr>"
proof (cases "\<exists>key. m = Msg_KeyExchange key")
  case True
  then obtain key where m: "m = Msg_KeyExchange key" by blast
  let ?kx = "KeyExchange_new (lb_crypto L) (dr_secret d)"
  show ?thesis
  proof (cases "Message_serialize (lb_bincode L) (Msg_KeyExchangeAck (public_key_bytes ?kx))")
    case (Inl e)
    then show ?thesis using assms m by (intro same) (simp add: quic_key_exchange_def Let_def)
  next
    case (Inr data)
    obtain t1 u where s: "send_on q data t = (t1, u)" by force
    show ?thesis
    proof (cases u)
      case (Inl e)
      then show ?thesis using assms m Inr s failed by (auto simp: quic_key_exchange_def Let_def)
    next
      case ok: (Inr x)
      show ?thesis
      proof (cases "public_key_of_slice key")
        case (Inl e)
        then show ?thesis using assms m \<open>_ = Inr data\<close> ok s bad_key
          by (auto simp: quic_key_exchange_def Let_def)
      next
        case (Inr k)
        show ?thesis
          by (rule keys [of data t1 "\<lparr>cs_cipher = cl_sha256 (lb_crypto L)
                (compute_shared_secret (lb_crypto L) ?kx k)\<rparr>"])
            (use assms m \<open>_ = Inr data\<close> Inr ok s in
              \<open>auto simp: quic_key_exchange_def Let_def from_shared_secret_def\<close>)
      qed
    qed
  qed
next
  case False
  then have "t' = t" using assms by (auto simp: quic_key_exchange_def split: Message.splits)
  then show ?thesis by (rule same)
qed

lemma quic_key_exchange_frame:
  assumes "quic_key_exchange q L d m t = (t', r)" "qt_crypto_session t = None"
  shows "qt_sessions t' = qt_sessions t" "qt_session_id t' = qt_session_id t"
    "qt_crypto_session t' \<noteq> None \<Longrightarrow> used_up q (qt_send t')"
proof -
  from assms(1) have "qt_sessions t' = qt_sessions t \<and> qt_session_id t' = qt_session_id t
      \<and> (qt_crypto_session t' \<noteq> None \<longrightarrow> used_up q (qt_send t'))"
  proof (cases rule: quic_key_exchange_cases)
    case (failed data)
    then show ?thesis using send_on_frame [OF failed(1)] assms(2) by simp
  next
    case (bad_key data)
    then show ?thesis using send_on_frame [OF bad_key(1)] assms(2) by simp
  next
    case (keys data t1 crypto)
    then show ?thesis using send_on_frame [OF keys(1)] by (auto simp: used_up_def)
  qed (use assms(2) in simp)
  then show "qt_sessions t' = qt_sessions t" "qt_session_id t' = qt_session_id t"
    "qt_crypto_session t' \<noteq> None \<Longrightarrow> used_up q (qt_send t')" by simp_all
qed

lemma quic_open_session_cases:
  assumes "quic_open_session L os ff d t = (t', r)"
  obtains (failed) e where "r = Inl e" "qt_sessions t' = qt_sessions t"
  | (opened) token crypto where "r = Inr token" "qt_crypto_session t = Some crypto"
      "qt_crypto_session t' = Some crypto" "qt_send t' = qt_send t"
      "qt_sessions t' (dr_uuid d) \<noteq> None" "qt_session_id t' = Some (dr_uuid d)"
proof (cases "SessionToken_generate (dr_alnum d) (dr_clock d 1) 24")
  case (Inl e)
  then show ?thesis using assms failed [of e] by (auto simp: quic_open_session_def)
next
  case (Inr token)
  note defs = quic_open_session_def Let_def unwrap_crypto_def
  let ?enc = "create_encoder os ff (if is_hardware_available os ff then Hardware else Software)
    quic_encoder_settings"
  show ?thesis
  proof (cases "is_ok ?enc \<and> qt_crypto_session t \<noteq> None")
    case False
    then have "qt_sessions t' = qt_sessions t \<and> (\<exists>e. r = Inl e)" using assms Inr
      by (cases ?enc; cases "qt_crypto_session t") (auto simp: defs)
    then show ?thesis using failed by blast
  next
    case True
    then obtain enc crypto where e: "?enc = Inr enc" "qt_crypto_session t = Some crypto"
      by (cases ?enc) auto
    show ?thesis by (rule opened [of token crypto]) (use assms Inr e in \<open>auto simp: defs\<close>)
  qed
qed

text \<open>On a stream that already carried the key exchange, an authentication that opens a session
  fails.\<close>

lemma quic_authenticate_fails:
  assumes "quic_authenticate q L os ff d ac m t = (t', r)" "finish_closes q"
    and "qt_crypto_session t \<noteq> None \<Longrightarrow> used_up q (qt_send t)"
  shows "(\<exists>e. r = Inl e) \<or> t' = t"
proof (cases "\<exists>code. m = Msg_AuthRequest code")
  case False
  then show ?thesis using assms(1) by (auto simp: quic_authenticate_def split: Message.splits)
next
  case True
  then obtain code where m: "m = Msg_AuthRequest code" by blast
  obtain t1 q1 where os: "quic_open_session L os ff d t = (t1, q1)" by force
  then show ?thesis
  proof (cases rule: quic_open_session_cases)
    case (failed e)
    then show ?thesis using assms(1) m os
      by (auto simp: quic_authenticate_def and_then_def split: sum.splits if_splits)
  next
    case (opened token crypto)
    have "used_up q (qt_send t1)" using assms(3) opened by simp
    then have "\<exists>e. snd (send_on q data t1) = Inl e" for data
      using second_send_fails [OF assms(2), of _ _ "qt_send t1" data]
      by (fastforce simp: used_up_def send_on_def)
    then show ?thesis using assms(1) m os opened
      by (auto simp: quic_authenticate_def Let_def and_then_def unwrap_crypto_def
          split: sum.splits if_splits prod.splits) (metis snd_conv sum.distinct(1))+
  qed
qed

lemma quic_handshake_ok:
  assumes "finish_closes q" "quic_handshake q L os ff d access_code t = (t', Inr ())"
    and "qt_crypto_session t = None"
  shows "qt_sessions t' = qt_sessions t \<and> qt_session_id t' = qt_session_id t"
proof -
  obtain t1 m1 t2 t3 m3 where 1: "receive_parsed q L t = (t1, Inr m1)"
    and 2: "quic_key_exchange q L d m1 t1 = (t2, Inr ())"
    and 3: "receive_parsed q L t2 = (t3, Inr m3)"
    and 4: "quic_authenticate q L os ff d access_code m3 t3 = (t', Inr ())"
    using assms(2) by (auto simp: quic_handshake_def and_then_ok_iff)
  have "qt_crypto_session t1 = None" using receive_parsed_frame(2) [OF 1] assms(3) by simp
  note kx = quic_key_exchange_frame [OF 2 this]
  have "qt_crypto_session t3 \<noteq> None \<Longrightarrow> used_up q (qt_send t3)"
    using receive_parsed_frame(2,4) [OF 3] kx(3) by simp
  then have "t' = t3" using quic_authenticate_fails [OF 4 assms(1)] by auto
  then show ?thesis
    using receive_parsed_frame(1,3) [OF 1] receive_parsed_frame(1,3) [OF 3] kx(1,2) by simp
qed

text \<open>The bit rates the quality modes ask for, in bits per second: no rounding occurs.\<close>

lemma control_bitrate:
  "es_bitrate (control_settings mode) =
     (case mode of Ultra \<Rightarrow> 50000000 | High \<Rightarrow> 20000000 | Medium \<Rightarrow> 10000000 | Low \<Rightarrow> 5000000
      | Minimal \<Rightarrow> 2000000)"
  by (cases mode) (simp_all add: control_settings_def, code_simp+)

text \<open>A quality request that arrives under the session's key forces the mode and hands the session's
  encoder the settings of that mode.\<close>

lemma quality_request_reconfigures:
  assumes "codec_correct (lb_bincode L)" "aead_correct (lb_crypto L)" "length nonce = 12"
    and "sessions i = Some s"
    and "seal_message L nonce (Msg_RequestQualityChange mode) (Some (qs_crypto s)) = Inr packet"
  shows "\<exists>s'. handle_control_message L i packet sessions = sessions(i \<mapsto> s')
    \<and> qc_forced_quality (qs_quality_controller s') = Some mode
    \<and> dyn_settings (qs_encoder s') = control_settings mode"
proof -
  obtain p where "decrypt (lb_crypto L) (qs_crypto s) packet = Inr p"
    "Message_deserialize (lb_bincode L) p = Inr (Msg_RequestQualityChange mode)"
    using open_sealed [OF assms(1-3,5)] by (auto simp: open_payload_def try_bind_Inr_iff)
  moreover have "dyn_settings (fst (dyn_update_settings (qs_encoder s) st)) = st" for st
    using dyn.update_taken by (metis prod.collapse)
  ultimately show ?thesis
    using assms(4)
    by (intro exI [of _ "s\<lparr>qs_quality_controller := force_quality (qs_quality_controller s) (Some mode),
          qs_encoder := fst (dyn_update_settings (qs_encoder s) (control_settings mode))\<rparr>"])
      (simp add: handle_control_message_def force_quality_def Let_def)
qed

text \<open>Every session of the table is as it was opened.\<close>

definition untouched :: "('s, 'r, 'c, 'e) QuicSession \<Rightarrow> bool" where
  "untouched x \<longleftrightarrow> qc_forced_quality (qs_quality_controller x) = None \<and> dyn_settings (qs_encoder x) = quic_encoder_settings"

lemma ffmpeg_new_settings: "FFmpegHardwareEncoder_new os ff st = Inr e \<Longrightarrow> fe_settings e = st"
  by (cases "ff_init ff"; cases "find_codec os ff")
    (auto simp: FFmpegHardwareEncoder_new_def try_bind_def Let_def split: sum.splits option.splits)

lemma create_encoder_settings: "create_encoder os ff ty st = Inr e \<Longrightarrow> dyn_settings e = st"
  by (auto simp: create_encoder_def SoftwareEncoder_new_def split: EncoderType.splits sum.splits
      dest: ffmpeg_new_settings)

lemma quic_open_session_untouched:
  assumes "quic_open_session L os ff d t = (t', r)" "\<forall>i x. qt_sessions t i = Some x \<longrightarrow> untouched x"
  shows "\<forall>i x. qt_sessions t' i = Some x \<longrightarrow> untouched x"
  using assms create_encoder_settings
  by (auto simp: quic_open_session_def and_then_def Let_def unwrap_crypto_def untouched_def
      AdaptiveQualityController_new_def split: prod.splits sum.splits option.splits if_splits)

lemma quic_authenticate_untouched:
  assumes "quic_authenticate q L os ff d ac m t = (t', r)" "\<forall>i x. qt_sessions t i = Some x \<longrightarrow> untouched x"
  shows "\<forall>i x. qt_sessions t' i = Some x \<longrightarrow> untouched x"
proof (cases "\<exists>code resp. m = Msg_AuthRequest code \<and> quic_handle_auth L (dr_clock d 0) code ac = Inr resp
    \<and> aresp_success resp")
  case False
  then have "t' = t" using assms(1)
    by (auto simp: quic_authenticate_def and_then_def split: Message.splits sum.splits if_splits)
  then show ?thesis using assms(2) by simp
next
  case True
  obtain t1 u where os: "quic_open_session L os ff d t = (t1, u)" by force
  have "qt_sessions t' = qt_sessions t1" using True os assms(1)
    by (auto simp: quic_authenticate_def and_then_def Let_def split: sum.splits prod.splits
        dest: send_on_frame(1))
  then show ?thesis using quic_open_session_untouched [OF os assms(2)] by simp
qed

lemma quic_handshake_untouched:
  assumes "quic_handshake q L os ff d ac t = (t', r)" "qt_crypto_session t = None"
    and "\<forall>i x. qt_sessions t i = Some x \<longrightarrow> untouched x"
  shows "\<forall>i x. qt_sessions t' i = Some x \<longrightarrow> untouched x"
proof -
  obtain t1 m1 where 1: "receive_parsed q L t = (t1, m1)" by force
  note f1 = receive_parsed_frame [OF 1]
  show ?thesis
  proof (cases m1)
    case (Inl e)
    then show ?thesis using assms 1 f1 by (simp add: quic_handshake_def)
  next
    case m1: (Inr m)
    obtain t2 u where 2: "quic_key_exchange q L d m t1 = (t2, u)" by force
    then have f2: "qt_sessions t2 = qt_sessions t"
      using quic_key_exchange_frame(1) f1 assms(2) by metis
    obtain t3 m3 where 3: "receive_parsed q L t2 = (t3, m3)" by force
    have f3: "qt_sessions t3 = qt_sessions t" using receive_parsed_frame(1) [OF 3] f2 by simp
    show ?thesis
      using assms(1,3) 1 m1 2 3 f2 f3 quic_authenticate_untouched [of q L os ff d ac _ t3 t' r]
      by (cases u; cases m3) (auto simp: quic_handshake_def)
  qed
qed

lemma quic_handle_client_untouched:
  assumes "quic_handle_client q L os ff d ac connection sessions = (sessions', r)"
    and "\<forall>i x. sessions i = Some x \<longrightarrow> untouched x"
  shows "\<forall>i x. sessions' i = Some x \<longrightarrow> untouched x"
proof (cases "snd (accept_stream connection)")
  case (Inl e)
  then show ?thesis using assms by (auto simp: quic_handle_client_def split: prod.splits)
next
  case (Inr p)
  let ?t = "\<lparr>qt_connection = fst (accept_stream connection), qt_send = fst p, qt_recv = snd p,
    qt_crypto_session = None, qt_session_id = None, qt_sessions = sessions\<rparr>"
  obtain t' u where h: "quic_handshake q L os ff d ac ?t = (t', u)" by force
  then have "sessions' = qt_sessions t'" using assms(1) Inr
    by (auto simp: quic_handle_client_def Let_def split: prod.splits sum.splits)
  then show ?thesis using quic_handshake_untouched [OF h] assms(2) by simp
qed

section \<open>Properties\<close>

text \<open>The QUIC handshake cannot be completed. The server answers the key exchange and the
  authentication on one stream, and sending a message finishes the stream: a finished stream takes
  no more data, so a client that sends the right code after the key exchange never gets its answer.
  The task ends with an error, no control task is started for the connection, but a session may
  have been left in the table: whenever the table changes, the task has failed.\<close>

theorem quic_handshake_never_completes:
  assumes "finish_closes q"
    and "quic_handle_client q L os ff d access_code connection sessions = (sessions', r)"
  shows "(sessions' = sessions \<and> r = Inr None) \<or> (\<exists>e. r = Inl e)"
  using assms(2)
  by (auto simp: quic_handle_client_def Let_def split: prod.splits sum.splits
      dest: quic_handshake_ok [OF assms(1)])

text \<open>Streams for the witness: a send stream keeps what is written until it is finished, a receive
  stream is the bytes that will still arrive.\<close>

definition demo_quinn :: "(bytes \<times> bool, bytes, unit) quinn" where
  "demo_quinn =
     \<lparr>qn_write_all = (\<lambda>(w, fin) bs. if fin then ((w, fin), Inl ''closed stream'') else ((w @ bs, fin), Inr ())),
      qn_finish = (\<lambda>(w, fin). ((w, True), Inr ())),
      qn_read_exact = (\<lambda>r n. if n \<le> length r then (drop n r, Inr (take n r)) else ([], Inl ''finished early'')),
      qn_accept_bi = (\<lambda>_. [Inr (([], False), frame_of [0] @ frame_of [2])]), qn_open_bi = (\<lambda>c. (c, Inl ''closed'')),
      qn_send_datagram = (\<lambda>c _. (c, Inr ())), qn_read_datagram = (\<lambda>c. (c, Inl ''closed'')),
      qn_close = (\<lambda>c _ _. c), qn_remote_address = (\<lambda>_. ''peer'')\<rparr>"

lemma demo_quinn_receive:
  "fits_u32 m \<Longrightarrow> quic_receive_message demo_quinn (frame_of m @ rest) = (rest, Inr m)"
  by (simp add: quic_receive_message_def demo_quinn_def frame_of_def fits_u32_def)

lemma demo_quinn_send:
  "quic_send_message demo_quinn (w, False) data = ((w @ frame_of data, True), Inr ())"
  by (simp add: quic_send_message_def demo_quinn_def frame_of_def)

text \<open>The client of the witness sends its public key and the right code, in the clear.\<close>

theorem quic_handshake_never_completes_witness:
  "\<exists>sessions' e. quic_handle_client demo_quinn (demo_libs demo_talk) OtherOS demo_ffmpeg (demo_draws 0)
      (Some demo_code)
      \<lparr>qc_connection = (), qc_incoming = [(([], False), frame_of [0] @ frame_of [2])]\<rparr> Map.empty
      = (sessions', Inl e)
    \<and> sessions' ''a'' \<noteq> None"
proof -
  let ?L = "demo_libs demo_talk" and ?d = "demo_draws 0"
  let ?t = "\<lparr>qt_connection = \<lparr>qc_connection = (), qc_incoming = []\<rparr>, qt_send = ([], False),
      qt_recv = frame_of [0] @ frame_of [2], qt_crypto_session = None, qt_session_id = None,
      qt_sessions = Map.empty\<rparr> :: (bytes \<times> bool, bytes, unit, bytes list) QuicTask"
  have rcv: "quic_receive_message demo_quinn (frame_of [0] @ frame_of [2]) = (frame_of [2], Inr [0])"
    "quic_receive_message demo_quinn (frame_of [2]) = ([], Inr [2])"
    using demo_quinn_receive [of "[2]" "[]"] by (simp_all add: demo_quinn_receive fits_u32_def)
  have v: "quic_handle_auth ?L 0 ''1'' (Some demo_code)
      = Inr \<lparr>aresp_success = True, aresp_session_token = None, aresp_message = ''Authentication successful''\<rparr>"
    by (simp add: quic_handle_auth_def AccessCode_verify_def demo_code_def demo_libs_def unix_secs_Inr)
  have tk: "SessionToken_generate (\<lambda>_. 65) 0 24
      = Inr \<lparr>tok_token = replicate 32 (char_of (65 :: nat)), tok_created_at = 0, tok_expires_at = 86400\<rparr>"
    by (simp add: SessionToken_generate_def unix_secs_Inr map_replicate_const)
  obtain t1 where 1: "receive_parsed demo_quinn ?L ?t = (t1, Inr (Msg_KeyExchange (replicate 32 0)))"
    "qt_recv t1 = frame_of [2]" "qt_send t1 = ([], False)"
    by (simp add: receive_parsed_def receive_on_def rcv demo_libs_def table_bincode_def
        Message_deserialize_def demo_talk_def)
  obtain t2 where 2: "quic_key_exchange demo_quinn ?L ?d (Msg_KeyExchange (replicate 32 0)) t1 = (t2, Inr ())"
    "qt_recv t2 = frame_of [2]" "qt_crypto_session t2 \<noteq> None"
    using 1(2,3)
    by (simp add: quic_key_exchange_def Let_def demo_libs_def demo_draws_def KeyExchange_new_def
        public_key_bytes_def Message_serialize_def table_bincode_def demo_talk_def send_on_def
        public_key_of_slice_def) (simp add: demo_lib_def demo_quinn_send)
  obtain t3 where 3: "receive_parsed demo_quinn ?L t2 = (t3, Inr (Msg_AuthRequest ''1''))"
    "qt_crypto_session t3 \<noteq> None"
    using 2(2,3)
    by (simp add: receive_parsed_def receive_on_def rcv demo_libs_def table_bincode_def
        Message_deserialize_def demo_talk_def)
  obtain t4 tok where 4: "quic_open_session ?L OtherOS demo_ffmpeg ?d t3 = (t4, Inr tok)"
    "qt_sessions t4 ''a'' \<noteq> None"
    using 3(2) tk
    by (auto simp: quic_open_session_def demo_draws_def Let_def create_encoder_def SoftwareEncoder_new_def
        is_hardware_available_def unwrap_crypto_def)
  obtain t5 r where 5: "quic_authenticate demo_quinn ?L OtherOS demo_ffmpeg ?d (Some demo_code)
      (Msg_AuthRequest ''1'') t3 = (t5, r)" by force
  have "qt_sessions t5 ''a'' \<noteq> None"
    using 5 v 4
    by (auto simp: quic_authenticate_def demo_draws_def Let_def and_then_def split: sum.splits
        dest: send_on_frame(1))
  moreover have "quic_handshake demo_quinn ?L OtherOS demo_ffmpeg ?d (Some demo_code) ?t = (t5, r)"
    using 1(1) 2(1) 3(1) 5 by (simp add: quic_handshake_def)
  ultimately obtain sessions' q where h: "quic_handle_client demo_quinn ?L OtherOS demo_ffmpeg ?d
      (Some demo_code) \<lparr>qc_connection = (), qc_incoming = [(([], False), frame_of [0] @ frame_of [2])]\<rparr> Map.empty
      = (sessions', q)" "sessions' ''a'' \<noteq> None"
    by (cases r) (simp_all add: quic_handle_client_def accept_stream_def)
  have "finish_closes demo_quinn" by (auto simp: finish_closes_def demo_quinn_def)
  from quic_handshake_never_completes [OF this h(1)] h show ?thesis by auto
qed

text \<open>The server, as long as nobody has got through the handshake.\<close>

definition quic_idle :: "('s, 'r, 'c, 'e) QuicServer \<Rightarrow> bool" where
  "quic_idle s \<longleftrightarrow> qy_controls s = {} \<and> qy_messages s = {} \<and> (\<forall>i x. qy_sessions s i = Some x \<longrightarrow> untouched x)"

lemma quic_idle_step:
  assumes "finish_closes q" "quic_idle s" "quic_step q L os ff access_code s e s'"
  shows "quic_idle s'"
  using assms(3)
proof (cases rule: quic_step.cases)
  case (client incoming connection d sessions' r)
  have "r = Inr None \<or> (\<exists>e. r = Inl e)" using quic_handshake_never_completes [OF assms(1) client(4)] by blast
  then show ?thesis
    using client(2) quic_handle_client_untouched [OF client(4)] assms(2) by (auto simp: quic_idle_def)
qed (use assms(2) in \<open>simp_all add: quic_idle_def\<close>)

interpretation quic_idling: trace_invariant "quic_step q L os ff access_code"
  "\<lambda>_ s. finish_closes q \<longrightarrow> quic_idle s" for q L os ff access_code
  by unfold_locales (blast intro: quic_idle_step)

text \<open>C38: No client ever controls the QUIC server. In every execution of its accept loop, its client tasks
  and its control tasks, with streams that take no data after they are finished, no control task
  is running and no control message is waiting: every session that was ever opened still has the
  settings it was opened with, and no forced quality.\<close>

theorem quic_sessions_never_controlled:
  assumes "finish_closes q"
    and "run_of (quic_step q L os ff access_code) (QuicServer_new :: ('s, 'r, 'c, 'e) QuicServer) tr s"
  shows "qy_controls s = {} \<and> qy_messages s = {}
    \<and> (\<forall>i x. qy_sessions s i = Some x \<longrightarrow> qc_forced_quality (qs_quality_controller x) = None
         \<and> dyn_settings (qs_encoder x) = quic_encoder_settings)"
proof -
  have "finish_closes q \<longrightarrow> quic_idle (QuicServer_new :: ('s, 'r, 'c, 'e) QuicServer)"
    by (simp add: quic_idle_def QuicServer_new_def)
  then have "finish_closes q \<longrightarrow> quic_idle s" by (rule quic_idling.inv_run [OF assms(2)])
  then show ?thesis using assms(1) by (auto simp: quic_idle_def untouched_def)
qed

theorem quic_sessions_never_controlled_witness:
  "\<exists>s x. run_of (quic_step demo_quinn (demo_libs demo_talk) OtherOS demo_ffmpeg (Some demo_code)) QuicServer_new
      [QE_Client] s
    \<and> qy_sessions s ''a'' = Some x \<and> qy_controls s = {} \<and> dyn_settings (qs_encoder x) = quic_encoder_settings"
proof -
  let ?step = "quic_step demo_quinn (demo_libs demo_talk) OtherOS demo_ffmpeg (Some demo_code)"
  let ?c = "\<lparr>qc_connection = (), qc_incoming = [(([], False), frame_of [0] @ frame_of [2])]\<rparr>"
  have acc: "quic_accept demo_quinn (Some (Inr ())) = Inr ?c"
    by (simp add: quic_accept_def quic_connection_def demo_quinn_def)
  obtain sessions' e where h: "quic_handle_client demo_quinn (demo_libs demo_talk) OtherOS demo_ffmpeg (demo_draws 0)
      (Some demo_code) ?c Map.empty = (sessions', Inl e)" "sessions' ''a'' \<noteq> None"
    using quic_handshake_never_completes_witness by blast
  obtain s where s: "?step QuicServer_new QE_Client s" "qy_sessions s = sessions'"
    using quic_step.client [OF acc, of "demo_libs demo_talk" OtherOS demo_ffmpeg "demo_draws 0" "Some demo_code"
        QuicServer_new] h(1) by (auto simp: QuicServer_new_def)
  have "finish_closes demo_quinn" by (auto simp: finish_closes_def demo_quinn_def)
  moreover have run: "run_of ?step QuicServer_new [QE_Client] s" using s(1) by (rule run_of_single)
  ultimately show ?thesis using quic_sessions_never_controlled [of demo_quinn] run s(2) h(2) by blast
qed

end
