(* ===== verification/Spec2Isabelle.thy ===== *)
theory Spec2Isabelle
  imports Metrics_Report Server_Isolation Server_Progress Server_Channel Authenticity Server_Stream Client_App Handshake Media_Foundation Quic_Server
begin

text \<open>
  Verification of the remote desktop program vox_gui (the crate under \<open>src/src\<close>; paths below are
  relative to it).

  \<^bold>\<open>The program.\<close> A server shows its screen to clients that know a six-digit code. A capture thread
  takes pictures (\<open>server/screen_capture.rs\<close>), encodes them in hardware or compresses them with
  Zstandard, and sends them to a loop that hands each frame to every session
  (\<open>server/server.rs\<close>, \<open>screen_capture_loop\<close>). Each connection has a task (\<open>handle_client\<close>) that
  cuts the incoming bytes into messages, decrypts, parses and handles them (key exchange,
  authentication, input, quality), and a writer task that sends what the others queue for it. A
  client (\<open>client/connection.rs\<close>, \<open>client/app.rs\<close>) connects, authenticates, decodes the frames into
  a texture and sends the user's input and acknowledgements. The quality controller
  (\<open>common/quality.rs\<close>) chooses the frame rate of a session.

  \<^bold>\<open>How the code is modelled.\<close> A struct is a \<open>record\<close>, an enum a \<open>datatype\<close> with the same constructors
  (messages with the prefix \<open>Msg_\<close>), a \<open>u8\<close> to \<open>u64\<close> a word of that width, \<open>usize\<close> a \<open>nat\<close>, the \<open>i32\<close>
  coordinates of the mouse, on which nothing is computed, an \<open>int\<close>, a \<open>f32\<close> or
  \<open>f64\<close> an exact IEEE value (\<open>Ieee\<close>: a rational with the rounding of the format, infinities and NaN).
  A fallible function returns \<open>error + 'a\<close>; \<open>Anyhow\<close> carries the code's own message, \<open>External\<close> an
  error of a library, \<open>Panicked\<close> a panic. A function that changes its object returns the new one also
  when it fails (\<open>and_then\<close> is the operator \<open>?\<close> on such pairs). Clocks, random draws and the answers of
  the network are arguments. Crates the code only calls (bincode, AES-GCM, X25519, SHA-256, zstd,
  WebP, libavcodec, scrap, enigo, quinn, Apple's frameworks) are parameters; what a theorem needs of
  them is a named hypothesis such as \<open>codec_correct\<close>, \<open>aead_correct\<close>, \<open>aead_authentic\<close>, \<open>dh_commutes\<close>, \<open>zstd_correct\<close> or
  \<open>finish_closes\<close>, and the theorem's witness has an instance that satisfies it.

  \<^bold>\<open>The theories.\<close>
  \<^item> \<open>Prelude\<close>: results, byte lists, words, list lemmas, and the locale \<open>sliding_window\<close> (a buffer
    that keeps the last \<open>n\<close> values), interpreted by the bandwidth monitor and the metrics' ring
    buffer.
  \<^item> \<open>Ieee\<close>, \<open>Float_Bounds\<close>, \<open>Rust_Time\<close>: floating point with its rounding lemmas, \<open>Duration\<close>,
    \<open>Instant\<close> and \<open>SystemTime\<close>.
  \<^item> \<open>Auth\<close> (\<open>common/auth.rs\<close>), \<open>Crypto\<close> (\<open>common/crypto.rs\<close>), \<open>Protocol\<close> (\<open>common/protocol.rs\<close>):
    exact lifetime of codes and tokens; the two ends of a key exchange hold the same cipher and
    what one encrypts the other decrypts.
  \<^item> \<open>Framing\<close>: length-prefixed messages; the locale \<open>framing\<close> gives independence of the way the
    network cuts the stream and the round trip of message sequences for both receivers.
  \<^item> \<open>Quality\<close> (\<open>common/quality.rs\<close>), \<open>Metrics\<close> and \<open>Metrics_Report\<close> (\<open>common/metrics.rs\<close>): a better
    network never gives a worse mode, although the scores are rounded; the changes a controller makes
    by itself are two seconds apart, forced ones take effect at once; moving averages are those of the last hundred samples; a printed number is within half a
    unit of its last decimal.
  \<^item> \<open>Frame_Processor\<close> (\<open>common/frame_processor.rs\<close>): sender and receiver of delta frames stay in
    step; the receiver's picture is exact if and only if every changed tile differs at a sampled
    pixel.
  \<^item> \<open>Encoder\<close> (\<open>common/encoder.rs\<close>, \<open>platform/macos/video_toolbox_fixed.rs\<close>), \<open>Ffmpeg_Encoder\<close>
    (\<open>common/ffmpeg_encoder.rs\<close>), \<open>Video_Toolbox\<close> (\<open>platform/macos/video_toolbox.rs\<close>),
    \<open>Media_Foundation\<close> (\<open>platform/windows/media_foundation.rs\<close>): the trait
    \<open>VideoEncoder\<close> is the locale \<open>video_encoder\<close> (\<open>steady_encoder\<close> for encoders that accept new settings
    at any time), interpreted by all six encoders; if FFmpeg's queue drains, every frame is converted,
    encoded and returned with exactly the packets that are ready; VideoToolbox is handed the captured
    pixels and what it delivers is returned; the picture's copy into a buffer of the Windows encoder
    is in bounds exactly if the picture is not longer than the settings say.
  \<^item> \<open>H264_Decoder\<close> (\<open>client/h264_decoder.rs\<close>): the conversions RGB to YUV and back reproduce a
    colour within a proved bound.
  \<^item> \<open>Screen_Capture\<close>, \<open>Input_Handler\<close>, \<open>Server\<close> (\<open>server/\<close>): capturing, cropping and encoding; input
    replay; every message of \<open>handle_client\<close> and the frame loop. \<open>Server_System\<close> interleaves the
    tasks as a step relation (one read, one message, one answer, one queued packet or one frame at a
    time) and proves by rule induction that sessions and frames belong to connections that sent the
    right code in time. Two arms of the message loop let go of their locks before they answer, \<open>AuthRequest\<close>
    (after the session is inserted) and \<open>StartStream\<close>: they may be interrupted there (\<open>prepare\<close>, then
    \<open>Ev_Reply\<close>). The other messages are one step: those without an answer touch the shared state once,
    a key exchange works on the task's own variables and channel, and \<open>RequestQualityChange\<close> holds the
    session's controller, without which the frame loop cannot serve the session, until its answer is
    queued. A frame is one step because the loop holds the table of sessions for reading and treats
    each session on its own, under its locks. The end of a stream may cut off the writer in the middle
    of a packet. \<open>Transition_Systems\<close> has what these proofs share:
    runs of a step relation and the locales \<open>trace_invariant\<close>, \<open>trace_simulation\<close> and \<open>isolation\<close>.
    \<open>Server_Refinement\<close> relates every run of the server to a reference monitor that decides who may
    enter, and to a history variable, the log of all packets a channel has accepted: what is written
    to a connection are the first packets of its log, and the queue has the others. \<open>Server_Channel\<close>:
    after the key exchange every packet of the log is sealed under its key. \<open>Server_Isolation\<close>: no
    connection can change another one's task, key, session or stream (locale \<open>isolation\<close>); a session
    whose task ended with an error is never removed. \<open>Server_Progress\<close>: under every schedule that lets a
    writer run, what is queued is sent. \<open>Authenticity\<close>: against a network that delivers any bytes,
    both ends accept only messages that were sealed under the agreed key (the code has no protection
    against a packet that is delivered again). \<open>Server_Stream\<close>: the task of a connection treats the
    stream as the sequence of messages sent, and replays exactly the input of the client. \<open>Server_Main\<close>: the
    capture thread and \<open>bin/server.rs\<close>.
  \<^item> \<open>Client_Connection\<close> (\<open>client/connection.rs\<close>), \<open>Geometry\<close> (the operations of egui that
    the client calls, from the copy under \<open>libs/egui\<close>, version 0.31.1; \<open>Cargo.lock\<close> builds the client
    with the release 0.29.1, whose source is not in the repository), \<open>Client_App\<close> (\<open>client/app.rs\<close>): the handshake of the client, its
    reader and writer, the state of the window, decoding, pointer and keys. \<open>Handshake\<close> runs the
    client's \<open>connect\<close> against the server's task.
  \<^item> \<open>Quic_Transport\<close> (\<open>common/transport.rs\<close>), \<open>Quic_Server\<close> (\<open>server/quic_server.rs\<close>): the second
    transport, which the default build leaves out; its accept loop and control task as a step relation
    in which no session is ever controlled.
  \<^item> This theory: a captured screen is shown pixel by pixel at the client; screens with an odd side
    crash a client; what a run of the server accepts for a client is what the client's reader gets, up
    to what is still queued; a frame may be queued before the answer to a login.

  \<^bold>\<open>Loops and bounds.\<close> All loops over data are structural or have a termination proof: the message loop
  consumes at least four bytes per frame. The packet loop of the FFmpeg encoder ends only if the
  library's queue does; it is a \<open>partial_function (option)\<close> whose \<open>None\<close> is an endless loop, and
  \<open>hardware_encoding_returns\<close> proves that it returns under \<open>drains\<close>; so does
  \<open>media_foundation_encoding_returns\<close> for the output loop on Windows. Endless loops (accepting, reading,
  capturing) run along a script of what they meet, or are the step relation.

  \<^bold>\<open>Not modelled.\<close> Drawing and styling (\<open>client/theme.rs\<close>, the widget calls of \<open>client/app.rs\<close>,
  \<open>bin/client.rs\<close>): no effect on the program's state. Logging.
  The frame loop of the QUIC server: it builds a message field that no longer exists; the
  construction of the QUIC endpoints, which only calls libraries. The stubs \<open>client/renderer.rs\<close>
  and \<open>server/connection.rs\<close>, which nothing calls. The vendored programs under \<open>libs/\<close> apart from
  \<open>Geometry\<close>. Overflow of \<open>u64\<close> frame counters, which takes longer than any run, wraps in the model.
\<close>

section \<open>From the captured screen to the client's window\<close>

text \<open>A capture without video encoder, as \<open>ScreenCapture::new\<close> sets it up on a machine where no
  hardware encoder is available.\<close>

definition software_screen :: "nat \<Rightarrow> nat \<Rightarrow> 'e ScreenCapture \<Rightarrow> bool" where
  "software_screen w h sc \<longleftrightarrow>
     sc_width sc = w \<and> sc_height sc = h \<and> w < 2 ^ 32 \<and> h < 2 ^ 32 \<and> sc_video_encoder sc = None
     \<and> fp_width (sc_frame_processor sc) = word_of_nat w
     \<and> fp_height (sc_frame_processor sc) = word_of_nat h"

text \<open>zstd: decompression gives back what was compressed, at every level.\<close>

definition zstd_correct :: "zstd \<Rightarrow> (bytes \<Rightarrow> string + bytes) \<Rightarrow> bool" where
  "zstd_correct zstd decode_all \<longleftrightarrow> (\<forall>x l y. zstd x l = Inr y \<longrightarrow> decode_all y = Inr x)"

lemma ScreenCapture_new_software:
  assumes "\<not> is_hardware_available os ff" "w < 2 ^ 32" "h < 2 ^ 32"
    and "ScreenCapture_new os ff True (Some (w, h)) start fps = Inr sc"
  shows "software_screen w h sc"
  using assms
  by (auto simp: ScreenCapture_new_def software_screen_def FrameProcessor_new_def try_bind_Inr_iff)

lemma software_capture_frame:
  assumes "software_screen w h sc"
    and "capture_frame webp ff zstd now now' clock (FrameReady frame_data) sc = Some (sc', Inr (Some f))"
  shows "\<exists>l. zstd (bgra_to_rgb frame_data w h) l = Inr (cf_data f)"
    "frame_message f = Some (Msg_ScreenFrame (cf_timestamp f) (word_of_nat w) (word_of_nat h)
       (cf_data f) ZstdCompressed)"
proof -
  let ?rgb = "bgra_to_rgb frame_data w h"
  have "\<exists>self. capture_software zstd clock self ?rgb True = (sc', Inr (Some f))
      \<and> fp_width (sc_frame_processor self) = word_of_nat w \<and> fp_height (sc_frame_processor self) = word_of_nat h"
    using assms by (auto simp: capture_frame_def software_screen_def Let_def split: if_splits)
  then obtain self where c: "capture_software zstd clock self ?rgb True = (sc', Inr (Some f))"
    "fp_width (sc_frame_processor self) = word_of_nat w" "fp_height (sc_frame_processor self) = word_of_nat h"
    by blast
  then show "\<exists>l. zstd ?rgb l = Inr (cf_data f)"
    "frame_message f = Some (Msg_ScreenFrame (cf_timestamp f) (word_of_nat w) (word_of_nat h)
       (cf_data f) ZstdCompressed)"
    by (auto simp: capture_software_def process_frame_def key_frame_def encode_all_def try_bind_Inr_iff
        and_then_def frame_message.simps split: option.splits sum.splits)
qed

text \<open>One compressed key frame in the application's queue is shown.\<close>

lemma process_one_frame:
  assumes "app_rx app = Some [Msg_ScreenFrame ts w h data ZstdCompressed]" "decode_all data = Inr rgb"
    and "length rgb = unat w * unat h * 3" "0 \<le> clock 0"
  shows "\<exists>app' im. process_incoming decode_all ff clock app = Inr app'
    \<and> app_screen_texture app' = Some im \<and> from_rgb (unat w, unat h) rgb = Inr im
    \<and> app_tx app' = map_option
        (\<lambda>q. q @ [Msg_FrameAck ts (word_of_nat (as_millis (nat (clock 0))))]) (app_tx app)"
proof -
  obtain im where im: "from_rgb (unat w, unat h) rgb = Inr im"
    using from_rgb_ok [of "(unat w, unat h)" rgb] assms(3) by auto
  then show ?thesis using assms(1,2,4)
    by (simp add: process_incoming_def on_screen_frame_def unix_millis_def unix_duration_def
        update_screen_def Let_def app_send_message_def split: option.splits)
qed

lemma shown_pixel:
  assumes "from_rgb (w, h) (bgra_to_rgb bgra w h) = Inr im" "length bgra = w * h * 4" "k < w * h"
  shows "ci_pixels im ! k = color_from_rgb (bgra ! (4 * k + 2)) (bgra ! (4 * k + 1)) (bgra ! (4 * k))"
proof -
  let ?rgb = "bgra_to_rgb bgra w h"
  have d: "length bgra div 4 = w * h" using assms(2) by simp
  then have len: "length ?rgb = w * h * 3" by (simp add: length_bgra_to_rgb)
  have k: "k * 3 + 3 \<le> length ?rgb" using assms(3) len by linarith
  have "subvec (k * 3) (k * 3 + 3) ?rgb = [bgra ! (k * 4 + 2), bgra ! (k * 4 + 1), bgra ! (k * 4)]"
    using bgra_to_rgb_pixel [of k bgra w h] assms(3) d by simp
  then have "?rgb ! (3 * k + i) = [bgra ! (k * 4 + 2), bgra ! (k * 4 + 1), bgra ! (k * 4)] ! i" if "i < 3" for i
    using k that nth_subvec [of "k * 3 + 3" ?rgb i "k * 3"] by (simp add: mult.commute)
  from this [of 0] this [of 1] this [of 2] show ?thesis
    using from_rgb_pixel [OF assms(1), of k] assms(3) by (simp add: mult.commute)
qed

text \<open>C1: The remote picture is exact. A screen captured without hardware encoder, sent to an
  authenticated session for which a frame is due, cut into chunks by the network in any way and
  processed by the client's reader task and application, is shown with its size and, pixel by
  pixel, with the colours of the captured screen; the client acknowledges the frame. The libraries
  are assumed to be inverse to themselves: zstd, bincode, AES-GCM.\<close>

theorem remote_picture_is_exact:
  assumes "codec_correct (lb_bincode L)" "aead_correct (lb_crypto L)" "length (dr_nonce d) = 12"
    and "zstd_correct zstd decode_all"
    and "software_screen w h sc" "length frame_data = w * h * 4"
    and "capture_frame webp ffe zstd now now' clock (FrameReady frame_data) sc = Some (sc', Inr (Some f))"
    and "get_recommended_quality (dr_now d 0) (dr_now d 1) (sess_quality_controller s) = (ctl, q)"
    and "target_interval q \<le> dr_now d 2 - sess_last_frame_time s"
    and "frame_message f = Some m" "seal_message L (dr_nonce d) m (Some (sess_crypto s)) = Inr packet"
    and "fits_u32 packet" "ch_open (sh_chans sh (sess_tx s))"
    and "[] \<notin> set chunks" "concat chunks = frame_of packet" "0 \<le> client_clock 0"
    and "app_rx app = Some (reader_task L (sess_crypto s) (map (\<lambda>c. (True, Data c)) chunks) [])"
  shows "ch_queue (sh_chans (snd (serve_session L d f s sh)) (sess_tx s))
      = ch_queue (sh_chans sh (sess_tx s)) @ [packet]
    \<and> (\<exists>app' im. process_incoming decode_all ffd client_clock app = Inr app'
      \<and> app_screen_texture app' = Some im \<and> ci_size im = (w, h)
      \<and> (\<forall>k < w * h. ci_pixels im ! k = color_from_rgb (frame_data ! (4 * k + 2))
            (frame_data ! (4 * k + 1)) (frame_data ! (4 * k)))
      \<and> app_tx app' = map_option (\<lambda>q. q @ [Msg_FrameAck (cf_timestamp f)
            (word_of_nat (as_millis (nat (client_clock 0))))]) (app_tx app))"
proof -
  let ?rgb = "bgra_to_rgb frame_data w h"
  have q: "ch_queue (sh_chans (snd (serve_session L d f s sh)) (sess_tx s))
      = ch_queue (sh_chans sh (sess_tx s)) @ [packet]"
    "open_payload L (Some (sess_crypto s)) packet = Inr m"
    using due_frame_queued [OF assms(1-3,8-11,13)] by simp_all
  have m: "m = Msg_ScreenFrame (cf_timestamp f) (word_of_nat w) (word_of_nat h) (cf_data f) ZstdCompressed"
    using software_capture_frame(2) [OF assms(5,7)] assms(10) by simp
  have dec: "decode_all (cf_data f) = Inr ?rgb"
    using software_capture_frame(1) [OF assms(5,7)] assms(4) by (auto simp: zstd_correct_def)
  have u: "unat (word_of_nat w :: u32) = w" "unat (word_of_nat h :: u32) = h"
    using assms(5) by (simp_all add: software_screen_def unat_of_nat_small)
  have len: "length ?rgb = w * h * 3" using assms(6) by (simp add: length_bgra_to_rgb)
  have "app_rx app = Some [m]"
    using client_reads_packet [OF assms(14,15,12) q(2)] assms(17) by simp
  then obtain app' im where a: "process_incoming decode_all ffd client_clock app = Inr app'"
    "app_screen_texture app' = Some im" "from_rgb (w, h) ?rgb = Inr im"
    "app_tx app' = map_option (\<lambda>q. q @ [Msg_FrameAck (cf_timestamp f)
            (word_of_nat (as_millis (nat (client_clock 0))))]) (app_tx app)"
    using process_one_frame [of app "cf_timestamp f" "word_of_nat w" "word_of_nat h" "cf_data f" decode_all
        ?rgb client_clock ffd] m dec u len assms(16) by auto
  moreover have "ci_size im = (w, h)" using from_rgb_ok [of "(w, h)" ?rgb] a(3) len by auto
  ultimately show ?thesis using q(1) shown_pixel [OF a(3) assms(6)] by blast
qed

definition demo_screen :: "bytes list ScreenCapture" where
  "demo_screen =
     \<lparr>sc_width = 1, sc_height = 1, sc_last_frame_time = 0, sc_frame_interval = 33, sc_quality_mode = High,
      sc_frame_processor = FrameProcessor_new 1 1, sc_frame_count = 0, sc_video_encoder = None,
      sc_use_hardware_encoding = False\<rparr>"

theorem remote_picture_is_exact_witness:
  "\<exists>(app :: unit VoxApp) app' im. process_incoming Inr demo_decoder (\<lambda>_. 0) app = Inr app'
     \<and> app_screen_texture app' = Some im \<and> ci_size im = (1, 1)
     \<and> ci_pixels im ! 0 = color_from_rgb 3 2 1"
proof -
  let ?m = "Msg_ScreenFrame 0 1 1 [3, 2, 1] ZstdCompressed"
  let ?L = "demo_libs [?m]" and ?p = "replicate 12 0 @ [0, 7] :: bytes" and ?s = "demo_session Low"
  let ?f = "\<lparr>cf_width = 1, cf_height = 1, cf_data = [3, 2, 1], cf_timestamp = 0,
      cf_frame_type = KeyFrame, cf_tiles = None, cf_encoding = ZstdCompressed\<rparr>"
  define app :: "unit VoxApp" where "app = VoxApp_default\<lparr>app_rx := Some (reader_task ?L (sess_crypto ?s)
    (map (\<lambda>c. (True, Data c)) [frame_of ?p]) [])\<rparr>"
  have rgb: "bgra_to_rgb [1, 2, 3, 4] (Suc 0) (Suc 0) = [3, 2, 1]"
    by (simp add: bgra_to_rgb_def chunks_exact.simps)
  obtain sc' where cap: "capture_frame (\<lambda>d w h. Some d) demo_ffmpeg (\<lambda>d l. Inr d) 40 41 0
      (FrameReady [1, 2, 3, 4]) demo_screen = Some (sc', Inr (Some ?f))"
    by (simp add: capture_frame_def demo_screen_def elapsed_def duration_since_def rgb
        capture_software_forced FrameProcessor_new_def as_millis_def Let_def)
  have q: "get_recommended_quality (dr_now (demo_draws 70000000) 0) (dr_now (demo_draws 70000000) 1)
      (sess_quality_controller ?s) = (sess_quality_controller ?s, Low)"
    by (simp add: demo_session_def forced_recommend force_quality_def Let_def)
  have seal: "seal_message ?L (dr_nonce (demo_draws 70000000)) ?m (Some (sess_crypto ?s)) = Inr ?p"
    by (simp add: seal_message_def Message_serialize_def demo_libs_def table_bincode_def encrypt_def
        demo_lib_def demo_draws_def demo_session_def)
  have lib: "codec_correct (lb_bincode ?L)" "aead_correct (lb_crypto ?L)"
    "length (dr_nonce (demo_draws 70000000)) = 12"
    by (simp_all add: demo_libs_def table_bincode_correct demo_lib_ok demo_draws_def)
  have scr: "software_screen 1 1 demo_screen"
    by (simp add: software_screen_def demo_screen_def FrameProcessor_new_def)
  have due: "target_interval Low \<le> dr_now (demo_draws 70000000) 2 - sess_last_frame_time ?s"
    by (simp add: demo_draws_def demo_session_def target_interval_def from_millis_def)
  have msg: "frame_message ?f = Some ?m" by (simp add: frame_message.simps)
  have op: "ch_open (sh_chans (snd (accept_client 0 (Server_new None))) (sess_tx ?s))"
    by (simp add: accept_client_def demo_session_def)
  have ch: "fits_u32 ?p" "[] \<notin> set [frame_of ?p]" "concat [frame_of ?p] = frame_of ?p"
    by (simp_all add: fits_u32_def frame_of_def to_be_bytes_def)
  have rx: "app_rx app = Some (reader_task ?L (sess_crypto ?s) (map (\<lambda>c. (True, Data c)) [frame_of ?p]) [])"
    by (simp add: app_def del: reader_task.simps)
  have id: "zstd_correct (\<lambda>d l. Inr d) Inr" by (simp add: zstd_correct_def)
  have "\<exists>app' im. process_incoming Inr demo_decoder (\<lambda>_. 0) app = Inr app'
      \<and> app_screen_texture app' = Some im \<and> ci_size im = (1, 1)
      \<and> (\<forall>k < 1 * 1. ci_pixels im ! k = color_from_rgb ([1, 2, 3, 4] ! (4 * k + 2))
            ([1, 2, 3, 4] ! (4 * k + 1)) ([1, 2, 3, 4] ! (4 * k)))"
    using remote_picture_is_exact [OF lib id scr _ cap q due msg seal ch(1) op ch(2,3) _ rx,
        where ffd = demo_decoder and client_clock = "\<lambda>_. 0"] by auto
  then show ?thesis by fastforce
qed

section \<open>From the server's channels to the client's queue\<close>

lemma concat_frames_fit:
  assumes "length (concat (map frame_of ps)) < 2 ^ 32"
  shows "list_all fits_u32 ps"
  using assms by (induction ps) (simp_all add: frame_of_def fits_u32_def)

text \<open>C6: Between the server's tasks and a client lies a queue, and nothing is lost in it. In every
  execution of the server, at every moment, for an open connection that has exchanged keys once: all
  packets its channel has accepted after the server's public key carry messages sealed under the key of
  this exchange. If the client has read the packets \<open>hello\<close> in its handshake and its reader task has
  received the rest of what the server has written, in chunks of any size, then the application has been
  given exactly the messages that were accepted after \<open>hello\<close>, in their order and without a gap, up to
  those whose packets wait in the queue.\<close>

theorem client_sees_server_queue:
  assumes "codec_correct (lb_bincode L)" "aead_correct (lb_crypto L)"
    and "run_of (hist_step L) (sys_init ac out, \<lambda>_. []) tr (s, lg)" "\<And>k. wr_written (out k) = []"
    and "ch_open (sh_chans (sys_shared s) c)"
    and "key_exchanges c tr = [Ev_Message c d (Msg_KeyExchange key)]"
    and "list_all fits_u32 (lg c)" "list_all fits_u32 hello" "hello \<noteq> []" "[] \<notin> set chunks"
    and "wr_written (sys_out s c) = concat (map frame_of hello) @ concat chunks"
  shows "\<exists>ms waiting. list_all2 (carries L (derived_key L d key)) (tl (lg c)) ms
    \<and> drop (length hello - 1) ms
        = reader_task L (derived_key L d key) (map (\<lambda>x. (True, Data x)) chunks) [] @ waiting
    \<and> list_all2 (carries L (derived_key L d key)) (ch_queue (sh_chans (sys_shared s) c)) waiting"
proof -
  let ?K = "derived_key L d key" and ?q = "ch_queue (sh_chans (sys_shared s) c)"
  obtain sent where sent: "lg c = sent @ ?q" "wr_written (sys_out s c) = concat (map frame_of sent)"
    using hist_run_inv [OF assms(3,4)] assms(5) by (auto simp: hist_inv_def hist_at_def dest!: spec [of _ c])
  then have fits: "list_all fits_u32 sent" using assms(7) by simp
  obtain ps r where ps: "split_stream next_frame (concat chunks) = (ps, r)" by force
  have "split_stream next_frame (wr_written (sys_out s c)) = (hello @ ps, r)"
    using tcp.split_stream_encode [OF assms(8), of "concat chunks"] ps by (simp add: assms(11))
  moreover have "split_stream next_frame (wr_written (sys_out s c)) = (sent, [])"
    using tcp.split_stream_encode [OF fits, of "[]"] by (simp add: sent(2) split_stream_def)
  ultimately have "lg c = hello @ ps @ ?q" using sent(1) by simp
  then have lg: "tl (lg c) = tl hello @ ps @ ?q" using assms(9) by (cases hello) simp_all
  obtain ms where ms: "list_all2 (carries L ?K) (tl hello @ ps @ ?q) ms"
    using sealed_messages [OF log_sealed [OF assms(3,6)]] unfolding lg by blast
  then obtain m1 m2 m3 where m: "ms = m1 @ m2 @ m3" "list_all2 (carries L ?K) (tl hello) m1"
    "list_all2 (carries L ?K) ps m2" "list_all2 (carries L ?K) ?q m3"
    by (auto simp: list_all2_append1)
  have "reader_task L ?K (map (\<lambda>x. (True, Data x)) chunks) [] = m2"
    using reader_task_frames [OF assms(10), of "[]" L ?K] ps opened_sealed [OF assms(1,2) m(3)] by simp
  moreover have "length m1 = length hello - 1" using m(2) by (simp add: list_all2_lengthD [symmetric])
  ultimately show ?thesis using ms m lg by (intro exI [of _ ms] exI [of _ m3]) simp
qed

text \<open>The login of the demonstration run: the answer to it is the second packet.\<close>

theorem client_sees_server_queue_witness:
  "\<exists>tr s lg m. run_of (hist_step (demo_libs demo_talk)) (demo_start, \<lambda>_. []) tr (s, lg)
     \<and> wr_written (sys_out s 0) = frame_of [1] @ frame_of demo_grant
     \<and> reader_task (demo_libs demo_talk) demo_key [(True, Data (frame_of demo_grant))] [] = [m]
     \<and> list_all2 (carries (demo_libs demo_talk) demo_key) (tl (lg 0)) [m]"
proof -
  let ?L = "demo_libs demo_talk" and ?w = "\<lparr>wr_written = [], wr_limit = None\<rparr>"
  obtain s where run: "sys_run ?L demo_start demo_events s" "sys_out s = sys_out demo_start"
    "sh_chans (sys_shared s) 0 = \<lparr>ch_queue = [[1], demo_grant], ch_open = True\<rparr>"
    using demo_run by metis
  then have out: "sys_out s 0 = ?w" by (simp add: sys_init_def)
  obtain s1 where 1: "sys_step ?L s (Ev_Write 0) s1"
    "sys_out s1 0 = \<lparr>wr_written = frame_of [1], wr_limit = None\<rparr>"
    "sh_chans (sys_shared s1) 0 = \<lparr>ch_queue = [demo_grant], ch_open = True\<rparr>"
    using sys_step.sent [of s 0 _ _ ?L] run(3) out by (simp add: writer_step_def send_message_ok)
  obtain s2 where 2: "sys_step ?L s1 (Ev_Write 0) s2"
    "sys_out s2 0 = \<lparr>wr_written = frame_of [1] @ frame_of demo_grant, wr_limit = None\<rparr>"
    "sh_chans (sys_shared s2) 0 = \<lparr>ch_queue = [], ch_open = True\<rparr>"
    using sys_step.sent [of s1 0 _ _ ?L] 1(2,3) by (simp add: writer_step_def send_message_ok)
  let ?tr = "(demo_events @ [Ev_Write 0]) @ [Ev_Write 0]"
  obtain lg where h: "hist_run ?L demo_start ?tr s2 lg"
    using sys_run_hist [OF sys_run_snoc [OF sys_run_snoc [OF run(1) 1(1)] 2(1)]] by blast
  have lib: "codec_correct (lb_bincode ?L)" "aead_correct (lb_crypto ?L)"
    by (simp_all add: demo_libs_def table_bincode_correct demo_lib_ok)
  have fits: "list_all fits_u32 [[1]]" by (simp add: fits_u32_def)
  have w: "wr_written (sys_out s2 0) = concat (map frame_of [[1]]) @ concat [frame_of demo_grant]"
    using 2(2) by simp
  have new: "wr_written ((\<lambda>_ :: nat. ?w) k) = []" for k by simp
  obtain sent where sent: "lg 0 = sent" "wr_written (sys_out s2 0) = concat (map frame_of sent)"
    using hist_run_inv [OF h new] 2(3) by (auto simp: hist_inv_def hist_at_def dest!: spec [of _ 0])
  have "length (concat (map frame_of (lg 0))) < 2 ^ 32"
    unfolding sent(1) sent(2) [symmetric]
    by (simp add: 2(2) frame_of_def demo_grant_def demo_key_def demo_lib_def)
  then have log: "list_all fits_u32 (lg 0)" by (rule concat_frames_fit)
  have ke: "key_exchanges 0 ?tr = [Ev_Message 0 (demo_draws 0) (Msg_KeyExchange (replicate 32 0))]"
    by (simp add: key_exchanges_def demo_events_def)
  have key: "derived_key ?L (demo_draws 0) (replicate 32 0) = demo_key"
    by (simp add: derived_key_def demo_key_def demo_libs_def demo_draws_def)
  have ne: "[] \<notin> set [frame_of demo_grant]" by (simp add: frame_of_def to_be_bytes_def)
  have op: "ch_open (sh_chans (sys_shared s2) 0)" using 2(3) by simp
  obtain ms where ms: "list_all2 (carries ?L demo_key) (tl (lg 0)) ms"
    "ms = reader_task ?L demo_key [(True, Data (frame_of demo_grant))] []"
    using client_sees_server_queue [OF lib h new op ke log fits _ ne w] 2(3) unfolding key by auto
  have "open_payload ?L (Some demo_key) demo_grant = Inr (Msg_AuthResponse True (Some (replicate 32 (char_of (65 :: nat)))))"
    by (simp add: open_payload_def demo_libs_def table_bincode_def Message_deserialize_def demo_talk_def
        decrypt_def demo_lib_def demo_grant_def)
  then have "reader_task ?L demo_key (map (\<lambda>x. (True, Data x)) [frame_of demo_grant]) []
      = [Msg_AuthResponse True (Some (replicate 32 (char_of (65 :: nat))))]"
    by (intro client_reads_packet [of _ demo_grant])
      (simp_all add: fits_u32_def frame_of_def demo_grant_def demo_key_def demo_lib_def)
  then show ?thesis using ms h 2(2) by fastforce
qed

section \<open>Frames before the answer to a login\<close>

text \<open>The task of a connection that has just checked a right code.\<close>

lemma admit_right_code:
  assumes "hc_crypto_session h = Some K" "sh_access_code sh = Some ac"
    and "AccessCode_verify (cl_sha256 (lb_crypto L)) ac (dr_clock d 0) code = Inr True"
    and "SessionToken_generate (dr_alnum d) (dr_clock d 1) 24 = Inr token"
  shows "admit L d code h sh =
    ((h\<lparr>hc_session_id := Some (dr_uuid d)\<rparr>,
      sh\<lparr>sh_sessions := (sh_sessions sh)(dr_uuid d \<mapsto> new_session d token K (hc_conn h))\<rparr>),
     Inr (Msg_AuthResponse True (Some (tok_token token))))"
  using assms by (simp add: admit_def handle_auth_def open_session_def)

text \<open>C35: The server can send pictures before it has answered the login. The session of a connection is
  in the table before the answer is queued, and a frame that is captured in between and due for the new
  session is queued first: there is an execution in which the frame's packet stands before the answer.
  The client takes the first packet after its login for the answer, and gives up on the connection.\<close>

theorem frame_overtakes_login_answer:
  assumes "sys_run L (sys_init ac out) tr s" "sys_tasks s c = Some (h, True)" "sys_pending s c = None"
    and "hc_crypto_session h = Some K" "next_frame (hc_buffer h) = Some (q, rest)"
    and "open_payload L (Some K) q = Inr (Msg_AuthRequest code)"
    and "AccessCode_verify (cl_sha256 (lb_crypto L)) ac (dr_clock d 0) code = Inr True"
    and "SessionToken_generate (dr_alnum d) (dr_clock d 1) 24 = Inr token"
    and "length (dr_nonce d) = 12" "ch_open (sh_chans (sys_shared s) c)"
    and "seal_message L (dr_nonce d) (Msg_AuthResponse True (Some (tok_token token))) (Some K) = Inr answer"
    and "\<forall>i. length (dr_nonce (env i)) = 12" "distinct ids"
    and "set ids = insert (dr_uuid d) (dom (sh_sessions (sys_shared s)))"
    and "frame_due (env (dr_uuid d)) (new_session d token K c)" "frame_message f = Some m"
    and "seal_message L (dr_nonce (env (dr_uuid d))) m (Some K) = Inr p"
  shows "(\<exists>s' ps. sys_run L s [Ev_Message c d (Msg_AuthRequest code), Ev_Frame f, Ev_Reply c] s'
      \<and> ch_queue (sh_chans (sys_shared s') c) = ch_queue (sh_chans (sys_shared s) c) @ ps @ [answer] \<and> p \<in> set ps)
    \<and> (\<exists>e. expect_auth m = Inl e)"
proof
  let ?h = "taken h rest" and ?x = "new_session d token K c" and ?sh = "sys_shared s"
  let ?ans = "Msg_AuthResponse True (Some (tok_token token))"
  have hc: "hc_conn h = c" using sys_wfD(1) [OF sys_run_wf [OF assms(1)] assms(2)] by simp
  have code: "sh_access_code ?sh = Some ac" using sys_run_inv [OF assms(1) refl] by (simp add: sys_inv_def)
  let ?sh1 = "?sh\<lparr>sh_sessions := (sh_sessions ?sh)(dr_uuid d \<mapsto> ?x)\<rparr>"
    and ?h1 = "?h\<lparr>hc_session_id := Some (dr_uuid d)\<rparr>"
  have "prepare L d (Msg_AuthRequest code) ?h ?sh = Some ((?h1, ?sh1), Inr ?ans)"
    using admit_right_code [of ?h K ?sh ac L d code token] assms(4,7,8) code hc by (simp add: taken_def)
  note st = sys_step.prepared [OF assms(2,5) _ this assms(3,9)]
  obtain s1 where s1: "sys_step L s (Ev_Message c d (Msg_AuthRequest code)) s1" "sys_shared s1 = ?sh1"
    "sys_tasks s1 c = Some (?h1, True)" "sys_pending s1 c = Some (dr_nonce d, ?ans)"
    using st assms(4,6) by auto
  let ?sh2 = "serve_frame L env f ids ?sh1"
  have "set ids = dom (sh_sessions (sys_shared s1))" using assms(14) s1(2) by auto
  note st2 = sys_step.frame [OF assms(13) this assms(12), of L f]
  obtain s2 where s2: "sys_step L s1 (Ev_Frame f) s2" "sys_shared s2 = ?sh2" "sys_tasks s2 c = Some (?h1, True)"
    "sys_pending s2 c = Some (dr_nonce d, ?ans)" using st2 s1 by auto
  have op: "ch_open (sh_chans ?sh2 c)"
    using serve_frame_packets [OF assms(12), of L f ids ?sh1 c] assms(10) by auto
  have x: "sess_tx ?x = c" "sess_crypto ?x = K" by (simp_all add: new_session_def)
  obtain ps where ps: "ch_queue (sh_chans ?sh2 c) = ch_queue (sh_chans ?sh c) @ ps" "p \<in> set ps"
    using serve_frame_due [OF assms(12,13), of "dr_uuid d" ?sh1 ?x f m L p] assms(10,14-17) unfolding x by auto
  have "\<exists>sh3. send_encrypted L (dr_nonce d) c ?ans (Some K) ?sh2 = (sh3, Inr ())
      \<and> ch_queue (sh_chans sh3 c) = ch_queue (sh_chans ?sh2 c) @ [answer]"
    using assms(11) op by (simp add: send_encrypted_def chan_send_def Let_def)
  then obtain sh3 where sh3: "send_encrypted L (dr_nonce d) c ?ans (Some K) ?sh2 = (sh3, Inr ())"
    "ch_queue (sh_chans sh3 c) = ch_queue (sh_chans ?sh2 c) @ [answer]" by blast
  obtain s3 where s3: "sys_step L s2 (Ev_Reply c) s3" "sys_shared s3 = sh3"
    using sys_step.replied [OF s2(3,4), of L sh3] sh3(1) s2(2) assms(4) hc by (auto simp: taken_def)
  note run = sys_run_snoc [OF sys_run_snoc [OF sys_run_snoc [OF sys_run_start s1(1)] s2(1)] s3(1)]
  show "\<exists>s' ps. sys_run L s [Ev_Message c d (Msg_AuthRequest code), Ev_Frame f, Ev_Reply c] s'
      \<and> ch_queue (sh_chans (sys_shared s') c) = ch_queue (sh_chans ?sh c) @ ps @ [answer] \<and> p \<in> set ps"
    using run s3(2) sh3(2) ps by auto
  show "\<exists>e. expect_auth m = Inl e"
    using assms(16) by (auto simp: expect_auth_def frame_message.simps split: FrameType.splits option.splits)
qed

text \<open>The login of the demonstration run, with a frame one second after the session was opened.\<close>

theorem frame_overtakes_login_answer_witness:
  "\<exists>s s' ps. sys_run (demo_libs demo_talk) demo_start (take 3 demo_events) s
     \<and> sys_run (demo_libs demo_talk) s [Ev_Message 0 (demo_draws 0) (Msg_AuthRequest ''1''), Ev_Frame demo_frame, Ev_Reply 0] s'
     \<and> ch_queue (sh_chans (sys_shared s') 0) = [[1]] @ ps @ [demo_grant] \<and> ps \<noteq> []"
proof -
  let ?L = "demo_libs demo_talk" and ?d = "demo_draws 0" and ?env = "\<lambda>_ :: string. demo_draws 1000000000"
  let ?tok = "\<lparr>tok_token = replicate 32 (char_of (65 :: nat)), tok_created_at = 0, tok_expires_at = 86400\<rparr>"
  let ?p = "replicate 12 0 @ 4 # cs_cipher demo_key"
  obtain s h where s: "sys_run ?L demo_start (take 3 demo_events) s"
    "sys_tasks s 0 = Some (h, True)" "hc_buffer h = frame_of demo_login" "hc_crypto_session h = Some demo_key"
    "sys_pending s = Map.empty" "sh_sessions (sys_shared s) = Map.empty"
    "sh_chans (sys_shared s) 0 = \<lparr>ch_queue = [[1]], ch_open = True\<rparr>" using demo_key_run by metis
  have code: "AccessCode_verify (cl_sha256 (lb_crypto ?L)) demo_code (dr_clock ?d 0) ''1'' = Inr True"
    by (simp add: AccessCode_verify_def demo_code_def demo_libs_def demo_draws_def unix_secs_Inr)
  have token: "SessionToken_generate (dr_alnum ?d) (dr_clock ?d 1) 24 = Inr ?tok"
    by (simp add: SessionToken_generate_def demo_draws_def unix_secs_Inr map_replicate_const)
  have answer: "seal_message ?L (dr_nonce ?d) (Msg_AuthResponse True (Some (tok_token ?tok))) (Some demo_key) = Inr demo_grant"
    "seal_message ?L (dr_nonce (?env (dr_uuid ?d))) (Msg_ScreenFrame 0 1 1 [1, 2, 3] Raw) (Some demo_key) = Inr ?p"
    by (simp_all add: seal_message_def Message_serialize_def demo_libs_def table_bincode_def demo_talk_def
        encrypt_def demo_lib_def demo_grant_def demo_draws_def)
  have due: "frame_due (?env (dr_uuid ?d)) (new_session ?d ?tok demo_key 0)"
    by (simp add: frame_due_def new_session_def demo_draws_def get_recommended_quality_def
        AdaptiveQualityController_new_def elapsed_def duration_since_def from_secs_def target_interval_def from_millis_def)
  have nf: "next_frame (hc_buffer h) = Some (demo_login, [])" using demo_frames(2) s(3) by simp
  have ids: "\<forall>i. length (dr_nonce (?env i)) = 12" "distinct [''a'']" "length (dr_nonce ?d) = 12"
    "set [''a''] = insert (dr_uuid ?d) (dom (sh_sessions (sys_shared s)))"
    "frame_message demo_frame = Some (Msg_ScreenFrame 0 1 1 [1, 2, 3] Raw)"
    using s(6) by (simp_all add: demo_draws_def demo_frame_def frame_message.simps)
  have st: "sys_pending s 0 = None" "ch_open (sh_chans (sys_shared s) 0)" using s(5,7) by simp_all
  from frame_overtakes_login_answer [OF s(1,2) st(1) s(4) nf demo_opened(2) code token ids(3) st(2) answer(1)
      ids(1,2,4) due ids(5) answer(2)]
  obtain s' ps where "sys_run ?L s [Ev_Message 0 ?d (Msg_AuthRequest ''1''), Ev_Frame demo_frame, Ev_Reply 0] s'"
    "ch_queue (sh_chans (sys_shared s') 0) = ch_queue (sh_chans (sys_shared s) 0) @ ps @ [demo_grant]" "?p \<in> set ps"
    by blast
  then show ?thesis using s(1,7) by (intro exI [of _ s] exI [of _ s'] exI [of _ ps]) auto
qed

section \<open>Screens with an odd side\<close>

lemma even_area_less:
  assumes "0 < w" "0 < h" "odd w \<or> odd (h :: nat)"
  shows "(w - w mod 2) * (h - h mod 2) < w * h"
proof (cases "odd w")
  case True
  then have "(w - w mod 2) * (h - h mod 2) \<le> (w - 1) * h"
    by (intro mult_le_mono) (simp_all add: odd_iff_mod_2_eq_one)
  also have "\<dots> < w * h" using assms by (intro mult_strict_right_mono) simp_all
  finally show ?thesis .
next
  case False
  then have "(w - w mod 2) * (h - h mod 2) \<le> w * (h - 1)"
    using assms(3) by (intro mult_le_mono) (simp_all add: odd_iff_mod_2_eq_one)
  also have "\<dots> < w * h" using assms by (intro mult_strict_left_mono) simp_all
  finally show ?thesis .
qed

lemma wrong_size_panics:
  assumes "app_rx app = Some [Msg_ScreenFrame ts w h data enc]" "0 \<le> clock 0"
    and "decode_frame decode_all ff w h data enc (app\<lparr>app_rx := Some []\<rparr>) = (app1, Inr (Some rgb))"
    and "length rgb \<noteq> unat w * unat h * 3"
  shows "process_incoming decode_all ff clock app = Inl (Panicked ''assertion failed'')"
  using assms
  by (simp add: process_incoming_def on_screen_frame_def unix_millis_def unix_duration_def
      update_screen_def from_rgb_def Let_def)

text \<open>C36: A remote screen with an odd width or height crashes the client as soon as it is encoded in
  hardware: the encoder is given the picture cut to even dimensions, the frame announces the
  uncut ones, and the client hands the decoded picture, of the even size, to \<open>ColorImage::from_rgb\<close>
  with the announced size, whose assertion fails.\<close>

theorem odd_screen_panics_client:
  assumes "screen_ok sc" "0 < sc_width sc" "0 < sc_height sc" "odd (sc_width sc) \<or> odd (sc_height sc)"
    and "frame_message (hardware_frame sc ef) = Some m" "ef_is_keyframe ef"
    and "app_rx app = Some [m]" "0 \<le> clock 0"
    and "decode_h264 ffd (word_of_nat (sc_width sc)) (word_of_nat (sc_height sc)) (ef_data ef)
           (app\<lparr>app_rx := Some []\<rparr>) = (app1, Inr (Some rgb))"
    and "length rgb = unat (make_even (word_of_nat (sc_width sc)))
           * unat (make_even (word_of_nat (sc_height sc))) * 3"
  shows "process_incoming decode_all ffd clock app = Inl (Panicked ''assertion failed'')"
proof -
  let ?w = "sc_width sc" and ?h = "sc_height sc"
  have u: "unat (word_of_nat ?w :: u32) = ?w" "unat (word_of_nat ?h :: u32) = ?h"
    using assms(1) by (simp_all add: screen_ok_def unat_of_nat_small)
  then have "length rgb = (?w - ?w mod 2) * (?h - ?h mod 2) * 3"
    using assms(10) by (simp only: make_even_eq)
  then have "length rgb \<noteq> unat (word_of_nat ?w :: u32) * unat (word_of_nat ?h :: u32) * 3"
    using even_area_less [OF assms(2-4)] by (simp only: u)
  moreover have "m = Msg_ScreenFrame (ef_timestamp ef) (word_of_nat ?w) (word_of_nat ?h) (ef_data ef) H264"
    using assms(5,6) by (simp add: frame_message.simps hardware_frame_def)
  ultimately show ?thesis
    using wrong_size_panics [of app "ef_timestamp ef" "word_of_nat ?w" "word_of_nat ?h" "ef_data ef" H264
        clock decode_all ffd app1 rgb] assms(7-9) by simp
qed

text \<open>A decoder that yields a picture of two by two pixels for every packet.\<close>

definition demo_picture :: VideoFrame where
  "demo_picture =
     \<lparr>vf_width = 2, vf_height = 2, vf_planes = [[0, 0, 0, 0], [128], [128]], vf_strides = [2, 1, 1],
      vf_pts = None\<rparr>"

theorem odd_screen_panics_client_witness:
  "\<exists>(app :: unit VoxApp).
     app_rx app = Some [Msg_ScreenFrame 0 3 2 [9] H264]
     \<and> process_incoming Inr (demo_decoder\<lparr>fd_receive_frame := (\<lambda>d. (d, Inr demo_picture))\<rparr>) (\<lambda>_. 0) app
       = Inl (Panicked ''assertion failed'')"
proof -
  let ?sc = "demo_screen\<lparr>sc_width := 3, sc_height := 2\<rparr>"
    and ?ef = "\<lparr>ef_data = [9], ef_is_keyframe = True, ef_timestamp = 0\<rparr>"
    and ?ff = "demo_decoder\<lparr>fd_receive_frame := (\<lambda>d. (d, Inr demo_picture))\<rparr>"
    and ?app = "(VoxApp_default :: unit VoxApp)\<lparr>app_rx := Some [Msg_ScreenFrame 0 3 2 [9] H264]\<rparr>"
  have ok: "yuv420p_ok (unat (vf_width demo_picture)) (unat (vf_height demo_picture)) demo_picture"
    by (simp add: demo_picture_def yuv420p_ok_def plane_ok_def)
  obtain rgb where rgb: "yuv_to_rgb demo_picture = Inr rgb" "length rgb = 12"
    using yuv_to_rgb_ok [OF ok] length_yuv_to_rgb [OF ok] by (simp add: demo_picture_def)
  have dec: "\<exists>app1. decode_h264 ?ff (word_of_nat (sc_width ?sc)) (word_of_nat (sc_height ?sc)) (ef_data ?ef)
      (?app\<lparr>app_rx := Some []\<rparr>) = (app1, Inr (Some rgb))"
    using rgb(1) by (simp add: decode_h264_def VoxApp_default_def H264Decoder_new_def demo_decoder_def
        run_decoder_def decode_def)
  have "frame_message (hardware_frame ?sc ?ef) = Some (Msg_ScreenFrame 0 3 2 [9] H264)"
    by (simp add: frame_message.simps hardware_frame_def)
  then have "process_incoming Inr ?ff (\<lambda>_. 0) ?app = Inl (Panicked ''assertion failed'')"
    using dec odd_screen_panics_client [of ?sc ?ef "Msg_ScreenFrame 0 3 2 [9] H264" ?app "\<lambda>_. 0" ?ff _ rgb Inr] rgb(2)
    by (auto simp: screen_ok_def make_even_eq)
  then show ?thesis by (intro exI [of _ ?app] conjI) simp_all
qed

end
